(* ===== verification/Prelude.thy ===== *)
theory Prelude
  imports Main "HOL-Library.Word" "HOL-Library.Monad_Syntax"
begin

text \<open>
  Shared vocabulary of the development.
  \<^item> C characters and strings: the terminator, the character classes of the C locale, the
    case-insensitive comparison, and the C string stored at the start of a memory block.
  \<^item> Checked memory access: a memory block is a list of characters, and a read or a write
    outside the block is \<open>None\<close>. A function that returns \<open>Some\<close> has stayed in bounds.
  \<^item> The outcome type of every operation that can raise: a value, an exception with its
    message (CException), or a halt of the process.
\<close>

section \<open>Collections of facts\<close>

named_theorems res_simps \<open>equations of the outcome combinators\<close>
named_theorems mem_simps \<open>reads and writes of memory blocks\<close>
named_theorems frame_simps \<open>fields an operation does not touch\<close>

section \<open>Characters\<close>

abbreviation NUL :: char where "NUL \<equiv> CHR 0x00"
abbreviation LF :: char where "LF \<equiv> CHR 0x0A"
abbreviation CR :: char where "CR \<equiv> CHR 0x0D"

definition code_of :: "char \<Rightarrow> nat" where
  "code_of c = of_char c"

text \<open>The classes of \<open>ctype.h\<close> in the C locale; bytes above 127 are in none of them.\<close>

definition isspace :: "char \<Rightarrow> bool" where
  "isspace c \<longleftrightarrow> code_of c = 32 \<or> (9 \<le> code_of c \<and> code_of c \<le> 13)"

definition isdigit :: "char \<Rightarrow> bool" where
  "isdigit c \<longleftrightarrow> 48 \<le> code_of c \<and> code_of c \<le> 57"

definition isupper :: "char \<Rightarrow> bool" where
  "isupper c \<longleftrightarrow> 65 \<le> code_of c \<and> code_of c \<le> 90"

definition islower :: "char \<Rightarrow> bool" where
  "islower c \<longleftrightarrow> 97 \<le> code_of c \<and> code_of c \<le> 122"

definition isalnum :: "char \<Rightarrow> bool" where
  "isalnum c \<longleftrightarrow> isdigit c \<or> isupper c \<or> islower c"

definition tolower :: "char \<Rightarrow> char" where
  "tolower c = (if isupper c then char_of (code_of c + 32) else c)"

text \<open>\<open>strcasecmp (a, b) == 0\<close>.\<close>

definition strcaseeq :: "string \<Rightarrow> string \<Rightarrow> bool" where
  "strcaseeq a b \<longleftrightarrow> map tolower a = map tolower b"

lemma isspace_NUL [simp]: "\<not> isspace NUL"
  by (simp add: isspace_def code_of_def)

lemma isdigit_NUL [simp]: "\<not> isdigit NUL"
  by (simp add: isdigit_def code_of_def)

lemma isdigit_not_isspace: "isdigit c \<Longrightarrow> \<not> isspace c"
  by (auto simp: isdigit_def isspace_def)

lemma strcaseeq_refl [simp]: "strcaseeq a a"
  by (simp add: strcaseeq_def)

section \<open>Memory blocks and the C strings in them\<close>

definition cstr :: "char list \<Rightarrow> string" where
  "cstr m = takeWhile (\<lambda>c. c \<noteq> NUL) m"

lemma cstr_no_NUL [simp]: "NUL \<notin> set (cstr m)"
  by (auto simp: cstr_def dest: set_takeWhileD)

lemma cstr_append_NUL [simp]: "NUL \<notin> set s \<Longrightarrow> cstr (s @ NUL # r) = s"
  by (simp add: cstr_def takeWhile_append2 takeWhile_tail) (metis append.right_neutral takeWhile.simps(1) takeWhile_append2)

lemma cstr_id: "NUL \<notin> set s \<Longrightarrow> cstr s = s"
  by (auto simp: cstr_def takeWhile_eq_all_conv)

lemma cstr_Nil [simp]: "cstr [] = []"
  by (simp add: cstr_def)

lemma cstr_NUL [simp]: "cstr (NUL # r) = []"
  by (simp add: cstr_def)

lemma cstr_Cons: "c \<noteq> NUL \<Longrightarrow> cstr (c # r) = c # cstr r"
  by (simp add: cstr_def)

definition rd :: "char list \<Rightarrow> nat \<Rightarrow> char option" where
  "rd m i = (if i < length m then Some (m ! i) else None)"

definition wr :: "char list \<Rightarrow> nat \<Rightarrow> char \<Rightarrow> char list option" where
  "wr m i c = (if i < length m then Some (m[i := c]) else None)"

lemma rd_in [mem_simps]: "rd (pre @ c # r) (length pre) = Some c"
  by (simp add: rd_def)

lemma rd_next [mem_simps]: "rd (pre @ c # d # r) (Suc (length pre)) = Some d"
  by (simp add: rd_def nth_append)

lemma wr_in [mem_simps]: "wr (pre @ c # r) (length pre) d = Some (pre @ d # r)"
  by (simp add: wr_def)

lemma rd_None: "rd m i = None \<longleftrightarrow> length m \<le> i"
  by (auto simp: rd_def)

text \<open>\<open>memmove (m + d, m + s, n)\<close>; both ranges have to lie in the block.\<close>

definition memmove :: "char list \<Rightarrow> nat \<Rightarrow> nat \<Rightarrow> nat \<Rightarrow> char list option" where
  "memmove m d s n =
     (if s + n \<le> length m \<and> d + n \<le> length m
      then Some (take d m @ take n (drop s m) @ drop (d + n) m) else None)"

section \<open>Decimal output\<close>

text \<open>What \<open>printf\<close> writes for \<open>%d\<close> and \<open>%i\<close>.\<close>

fun dec_nat :: "nat \<Rightarrow> string" where
  "dec_nat n = (if n < 10 then [char_of (48 + n)] else dec_nat (n div 10) @ [char_of (48 + n mod 10)])"

declare dec_nat.simps [simp del]

definition dec_int :: "int \<Rightarrow> string" where
  "dec_int k = (if k < 0 then CHR ''-'' # dec_nat (nat (- k)) else dec_nat (nat k))"

definition quoted :: "string \<Rightarrow> string" where
  "quoted s = CHR 0x27 # s @ [CHR 0x27]"

section \<open>Lists updated by index\<close>

lemma map_update_same: "g y = g (xs ! i) \<Longrightarrow> map g (xs[i := y]) = map g xs"
  by (cases "i < length xs") (simp_all add: map_update list_update_same_conv list_update_beyond)

section \<open>Outcomes\<close>

text \<open>
  \<open>Ok\<close> is a normal return, \<open>Exn\<close> a thrown CException with its message, \<open>Halt\<close> the end of
  the process: a failed \<open>assert\<close> (the build does not define \<open>NDEBUG\<close>), a call of
  \<open>abort\<close>, a step whose behaviour C leaves undefined (an access outside an array, the read
  of a variable that was never written), a call that never returns, or the end of the
  fuel of a model of a loop.
\<close>

datatype stop = AssertFailed string | Undefined string | Aborted string | Hangs string | NoFuel

datatype 'a res = Ok 'a | Exn string | Halt stop

fun is_ok :: "'a res \<Rightarrow> bool" where
  "is_ok (Ok _) = True"
| "is_ok _ = False"

fun bind_res :: "'a res \<Rightarrow> ('a \<Rightarrow> 'b res) \<Rightarrow> 'b res" where
  "bind_res (Ok x) f = f x"
| "bind_res (Exn e) f = Exn e"
| "bind_res (Halt h) f = Halt h"

text \<open>The same with a state that survives an exception, as the C variables do.\<close>

fun bind_st :: "'a res \<times> 's \<Rightarrow> ('a \<Rightarrow> 's \<Rightarrow> 'b res \<times> 's) \<Rightarrow> 'b res \<times> 's" where
  "bind_st (Ok x, s) f = f x s"
| "bind_st (Exn e, s) f = (Exn e, s)"
| "bind_st (Halt h, s) f = (Halt h, s)"

lemma bind_res_Ok [res_simps]: "bind_res r f = Ok y \<longleftrightarrow> (\<exists>x. r = Ok x \<and> f x = Ok y)"
  by (cases r) auto

lemma bind_st_Ok [res_simps]:
  "bind_st p f = (Ok y, t) \<longleftrightarrow> (\<exists>x s. p = (Ok x, s) \<and> f x s = (Ok y, t))"
  by (cases p; cases "fst p") auto

lemma bind_res_assoc: "bind_res (bind_res r f) g = bind_res r (\<lambda>x. bind_res (f x) g)"
  by (cases r) auto

lemma is_ok_iff: "is_ok r \<longleftrightarrow> (\<exists>x. r = Ok x)"
  by (cases r) auto

end
