(* ===== verification/CException.thy ===== *)
theory CException
  imports Prelude
begin

text \<open>
  The exception mechanism of \<open>src/src/cinit/CException.h\<close>, \<open>CException.c\<close> and
  \<open>CExceptionConfig.h\<close>: one global frame (a pointer to the innermost \<open>jmp_buf\<close> and the
  pending message), the \<open>Try\<close>/\<open>Catch\<close> macros over \<open>setjmp\<close>, and \<open>Throw\<close> over
  \<open>longjmp\<close>. A small statement language is executed twice: by the macros, with frames and
  jumps, and by structured outcomes. The two agree, which is what lets the other theories
  model every \<open>Throw\<close> as an \<open>Exn\<close> outcome and every \<open>Try\<close>/\<open>Catch\<close> by \<open>try_catch\<close>.
\<close>

section \<open>Throwing\<close>

text \<open>
  \<open>exception_t\<close> holds 256 bytes, terminator included. \<open>ThrowMessage\<close> formats into it and
  asserts that nothing was cut off; the empty message is \<open>CEXCEPTION_NONE\<close>.
\<close>

definition max_message :: nat where
  "max_message = 256"

definition cexception_none :: string where
  "cexception_none = []"

definition throw_message :: "string \<Rightarrow> 'a res" where
  "throw_message msg =
     (if length msg < max_message then Exn msg
      else Halt (AssertFailed ''s < sizeof(new_e.mMessage)''))"

text \<open>
  \<open>ThrowMessageWithErrno\<close> appends \<open>strerror (errno)\<close>, under a second assertion on the room
  that is left.
\<close>

definition throw_message_errno :: "string \<Rightarrow> string \<Rightarrow> 'a res" where
  "throw_message_errno msg err =
     (if length msg < max_message then
        (if length err < max_message - length msg then Exn (msg @ err)
         else Halt (AssertFailed ''s < remaining_size''))
      else Halt (AssertFailed ''s < sizeof(new_e.mMessage)''))"

lemma throw_message_not_Ok [simp]: "throw_message m \<noteq> Ok x"
  by (simp add: throw_message_def)

lemma throw_message_errno_not_Ok [simp]: "throw_message_errno m e \<noteq> Ok x"
  by (simp add: throw_message_errno_def)

lemma throw_message_Exn [res_simps]:
  "throw_message m = Exn e \<longleftrightarrow> e = m \<and> length m < max_message"
  by (auto simp: throw_message_def)

lemma throw_message_errno_Exn [res_simps]:
  "throw_message_errno m err = Exn e \<longleftrightarrow> e = m @ err \<and> length m + length err < max_message"
  by (auto simp: throw_message_errno_def)

section \<open>The macros\<close>

text \<open>
  \<open>pFrame\<close> is the innermost frame; frames are named by their nesting depth, which is the
  stack depth at which \<open>NewFrame\<close> lives. \<open>Exception\<close> is the pending message.
\<close>

record cframe =
  pFrame :: "nat option"
  Exception :: string

text \<open>How control leaves a piece of code: it falls through, it jumps to a frame, or it halts.\<close>

datatype control = Through | Jump nat | Stopped stop

definition Throw :: "string \<Rightarrow> cframe \<Rightarrow> control \<times> cframe" where
  "Throw e c =
     (let c' = c\<lparr>Exception := e\<rparr> in
      case pFrame c of
        Some f \<Rightarrow> (Jump f, c')
      | None \<Rightarrow> (Stopped (AssertFailed ''Unhandled exception''), c'))"

text \<open>The statements of a client over a state of type \<open>'s\<close>.\<close>

datatype 's stm =
    Basic "'s \<Rightarrow> 's"
  | ThrowMessage "'s \<Rightarrow> string"
  | ExitTry
  | Seq "'s stm" "'s stm"
  | IfS "'s \<Rightarrow> bool" "'s stm" "'s stm"
  | TryCatch "'s stm" "string \<Rightarrow> 's stm"

text \<open>
  Execution by the macros. At depth \<open>d\<close> a \<open>Try\<close> block saves \<open>pFrame\<close>, installs frame
  \<open>d\<close>, clears \<open>Exception\<close> and runs its body after \<open>setjmp\<close>. A jump to frame \<open>d\<close> comes
  back to that \<open>setjmp\<close>; either way the saved frame is put back, and the \<open>Catch\<close> block
  runs exactly when the pending message is not \<open>CEXCEPTION_NONE\<close>.
\<close>

primrec exec_macro :: "'s stm \<Rightarrow> nat \<Rightarrow> cframe \<times> 's \<Rightarrow> control \<times> cframe \<times> 's" where
  "exec_macro (Basic f) d cs = (case cs of (c, s) \<Rightarrow> (Through, c, f s))"
| "exec_macro (ThrowMessage m) d cs =
     (case cs of (c, s) \<Rightarrow>
        if length (m s) < max_message then (case Throw (m s) c of (k, c') \<Rightarrow> (k, c', s))
        else (Stopped (AssertFailed ''s < sizeof(new_e.mMessage)''), c, s))"
| "exec_macro ExitTry d cs =
     (case cs of (c, s) \<Rightarrow> (case Throw cexception_none c of (k, c') \<Rightarrow> (k, c', s)))"
| "exec_macro (Seq a b) d cs =
     (case exec_macro a d cs of
        (Through, c', s') \<Rightarrow> exec_macro b d (c', s')
      | (Jump f, c', s') \<Rightarrow> (Jump f, c', s')
      | (Stopped x, c', s') \<Rightarrow> (Stopped x, c', s'))"
| "exec_macro (IfS p a b) d cs =
     (if p (snd cs) then exec_macro a d cs else exec_macro b d cs)"
| "exec_macro (TryCatch a h) d cs =
     (case cs of (c, s) \<Rightarrow>
      (case exec_macro a (Suc d) (c\<lparr>pFrame := Some d, Exception := cexception_none\<rparr>, s) of
        (Through, c', s') \<Rightarrow> (Through, c'\<lparr>Exception := cexception_none, pFrame := pFrame c\<rparr>, s')
      | (Jump f, c', s') \<Rightarrow>
          (if f = d then
             (let c'' = c'\<lparr>pFrame := pFrame c\<rparr> in
              if Exception c'' = cexception_none then (Through, c'', s')
              else exec_macro (h (Exception c'')) d (c'', s'))
           else (Jump f, c', s'))
      | (Stopped x, c', s') \<Rightarrow> (Stopped x, c', s')))"

section \<open>Structured outcomes\<close>

text \<open>\<open>Try body Catch (e) handler\<close> over outcomes; an \<open>ExitTry\<close> skips the handler.\<close>

fun try_catch :: "unit res \<times> 's \<Rightarrow> (string \<Rightarrow> 's \<Rightarrow> unit res \<times> 's) \<Rightarrow> unit res \<times> 's" where
  "try_catch (Ok u, s) h = (Ok (), s)"
| "try_catch (Exn e, s) h = (if e = cexception_none then (Ok (), s) else h e s)"
| "try_catch (Halt x, s) h = (Halt x, s)"

text \<open>The same where the body computes a value and nothing leaves it by \<open>ExitTry\<close>.\<close>

fun catch_res :: "'a res \<Rightarrow> (string \<Rightarrow> 'a res) \<Rightarrow> 'a res" where
  "catch_res (Ok x) h = Ok x"
| "catch_res (Exn e) h = h e"
| "catch_res (Halt x) h = Halt x"

primrec exec_res :: "'s stm \<Rightarrow> 's \<Rightarrow> unit res \<times> 's" where
  "exec_res (Basic f) s = (Ok (), f s)"
| "exec_res (ThrowMessage m) s = (throw_message (m s), s)"
| "exec_res ExitTry s = (Exn cexception_none, s)"
| "exec_res (Seq a b) s = bind_st (exec_res a s) (\<lambda>_ s'. exec_res b s')"
| "exec_res (IfS p a b) s = (if p s then exec_res a s else exec_res b s)"
| "exec_res (TryCatch a h) s = try_catch (exec_res a s) (\<lambda>e s'. exec_res (h e) s')"

lemma catch_res_Ok [res_simps]:
  "catch_res r h = Ok x \<longleftrightarrow> r = Ok x \<or> (\<exists>e. r = Exn e \<and> h e = Ok x)"
  by (cases r) auto

text \<open>
  The outcome of a structured run, seen by the macros in front of frame \<open>p\<close>: an uncaught
  exception is a jump to \<open>p\<close>, or the assertion of \<open>CEXCEPTION_NO_CATCH_HANDLER\<close>.
\<close>

fun control_of :: "nat option \<Rightarrow> unit res \<Rightarrow> control" where
  "control_of p (Ok _) = Through"
| "control_of (Some f) (Exn e) = Jump f"
| "control_of None (Exn e) = Stopped (AssertFailed ''Unhandled exception'')"
| "control_of p (Halt x) = Stopped x"

text \<open>What the macros leave in the frame: the caller's pointer, and the message of a throw.\<close>

definition frame_ok :: "cframe \<Rightarrow> unit res \<Rightarrow> cframe \<Rightarrow> bool" where
  "frame_ok c r c' \<longleftrightarrow>
     (case r of
        Ok _ \<Rightarrow> pFrame c' = pFrame c
      | Exn e \<Rightarrow> pFrame c' = pFrame c \<and> Exception c' = e
      | Halt _ \<Rightarrow> True)"

definition agrees :: "cframe \<Rightarrow> unit res \<times> 's \<Rightarrow> control \<times> cframe \<times> 's \<Rightarrow> bool" where
  "agrees c rs m \<longleftrightarrow>
     (case rs of (r, t) \<Rightarrow> \<exists>c'. m = (control_of (pFrame c) r, c', t) \<and> frame_ok c r c')"

lemma agrees_iff:
  "agrees c (r, t) m \<longleftrightarrow> (\<exists>c'. m = (control_of (pFrame c) r, c', t) \<and> frame_ok c r c')"
  by (simp add: agrees_def)

lemma frame_below: "(\<forall>f. pFrame c = Some f \<longrightarrow> f < d) \<Longrightarrow> pFrame c' = pFrame c \<Longrightarrow> \<forall>f. pFrame c' = Some f \<longrightarrow> f < d"
  by simp

lemma control_of_Through [simp]: "control_of p r = Through \<longleftrightarrow> is_ok r"
  by (cases r; cases p) auto

lemma agrees_throw:
  "agrees c (Exn e, s) (case Throw e c of (k, c') \<Rightarrow> (k, c', s))"
  by (cases "pFrame c") (auto simp: agrees_iff Throw_def frame_ok_def)

lemma exec_macro_agrees:
  assumes "\<forall>f. pFrame c = Some f \<longrightarrow> f < d"
  shows "agrees c (exec_res a s) (exec_macro a d (c, s))"
  using assms
proof (induction a arbitrary: d c s)
  case (Basic f)
  show ?case by (simp add: agrees_iff frame_ok_def)
next
  case (ThrowMessage m)
  show ?case
    using agrees_throw [of c "m s" s] by (auto simp: throw_message_def agrees_iff frame_ok_def)
next
  case ExitTry
  show ?case using agrees_throw [of c cexception_none s] by simp
next
  case (Seq a b)
  obtain r t where r: "exec_res a s = (r, t)" by fastforce
  obtain c' where m: "exec_macro a d (c, s) = (control_of (pFrame c) r, c', t)" and f: "frame_ok c r c'"
    using Seq.IH(1) [OF Seq.prems, of s] by (auto simp: r agrees_iff)
  show ?case
  proof (cases r)
    case (Ok u)
    have p: "pFrame c' = pFrame c" using f by (simp add: Ok frame_ok_def)
    then have "agrees c' (exec_res b t) (exec_macro b d (c', t))"
      using Seq.IH(2) Seq.prems by simp
    with p show ?thesis
      by (cases "exec_res b t") (auto simp: r m Ok agrees_iff frame_ok_def split: res.splits)
  next
    case (Exn e)
    with m f show ?thesis by (cases "pFrame c") (auto simp: r agrees_iff)
  next
    case (Halt x)
    with m f show ?thesis by (auto simp: r agrees_iff)
  qed
next
  case (IfS p a b)
  then show ?case by simp
next
  case (TryCatch a h)
  let ?c1 = "c\<lparr>pFrame := Some d, Exception := cexception_none\<rparr>"
  obtain r t where r: "exec_res a s = (r, t)" by fastforce
  obtain c' where m: "exec_macro a (Suc d) (?c1, s) = (control_of (Some d) r, c', t)"
    and f: "frame_ok ?c1 r c'"
    using TryCatch.IH(1) [of ?c1 "Suc d" s] by (auto simp: r agrees_iff)
  show ?case
  proof (cases r)
    case (Exn e)
    let ?c2 = "c'\<lparr>pFrame := pFrame c\<rparr>"
    have e: "Exception c' = e" using f by (simp add: Exn frame_ok_def)
    have "agrees ?c2 (exec_res (h e) t) (exec_macro (h e) d (?c2, t))"
      using TryCatch.IH(2) TryCatch.prems by simp
    then show ?thesis
      by (cases "exec_res (h e) t")
        (auto simp: r m e Exn agrees_iff frame_ok_def Let_def split: res.splits)
  qed (use m f in \<open>auto simp: r agrees_iff frame_ok_def\<close>)
qed

section \<open>Properties\<close>

text \<open>
  C23. Running a program with the setjmp/longjmp macros has the outcome of structured
  exception handling, whatever the nesting: the same final state, the control transfer that
  goes with a normal end, an uncaught throw or a halt, and the caller's frame pointer back
  in place (with the message of a throw pending).
\<close>

theorem macros_are_structured_exceptions:
  assumes "\<forall>f. pFrame c = Some f \<longrightarrow> f < d"
  shows "\<exists>c'. exec_macro a d (c, s) = (control_of (pFrame c) (fst (exec_res a s)), c', snd (exec_res a s))
    \<and> frame_ok c (fst (exec_res a s)) c'"
  using exec_macro_agrees [OF assms, of a s] by (auto simp: agrees_def split: prod.splits)

theorem macros_are_structured_exceptions_witness:
  "\<exists>c'. exec_macro (TryCatch (Seq (Basic (\<lambda>n::nat. n + 1)) (ThrowMessage (\<lambda>n. ''lost''))) (\<lambda>e. Basic (\<lambda>n. n + length e)))
      0 (\<lparr>pFrame = None, Exception = []\<rparr>, 5) = (Through, c', 10) \<and> pFrame c' = None"
  using macros_are_structured_exceptions [of "\<lparr>pFrame = None, Exception = []\<rparr>" 0
      "TryCatch (Seq (Basic (\<lambda>n::nat. n + 1)) (ThrowMessage (\<lambda>n. ''lost''))) (\<lambda>e. Basic (\<lambda>n. n + length e))" 5]
  by (simp add: throw_message_def max_message_def cexception_none_def frame_ok_def)

end
