(* ===== verification/CStrings.thy ===== *)
theory CStrings
  imports CException
begin

text \<open>
  The in-place string routines of \<open>src/src/cinit/utils.c\<close>. Each is modelled twice: on a
  memory block with checked reads and writes, statement by statement as the C code has it,
  and as a function on the C string it works on. The refinement lemmas show that the
  memory version stays inside the block and leaves the result of the string version.
\<close>

section \<open>Scanning and shifting\<close>

function strlen_at :: "char list \<Rightarrow> nat \<Rightarrow> nat option" where
  "strlen_at m i =
     (if i < length m then (if m ! i = NUL then Some 0 else map_option Suc (strlen_at m (Suc i)))
      else None)"
  by pat_completeness auto
termination by (relation "measure (\<lambda>(m, i). length m - i)") auto

text \<open>\<open>while (s[i] != 0) { s[i] = s[i + 1]; i++; }\<close>\<close>

function shift_left :: "char list \<Rightarrow> nat \<Rightarrow> char list option" where
  "shift_left m i =
     (if i < length m then
        (if m ! i = NUL then Some m
         else if Suc i < length m then shift_left (m[i := m ! Suc i]) (Suc i) else None)
      else None)"
  by pat_completeness auto
termination by (relation "measure (\<lambda>(m, i). length m - i)") auto

declare strlen_at.simps [simp del] shift_left.simps [simp del]

lemma strlen_at_str:
  "NUL \<notin> set s \<Longrightarrow> strlen_at (pre @ s @ NUL # r) (length pre) = Some (length s)"
proof (induction s arbitrary: pre)
  case Nil
  show ?case by (subst strlen_at.simps) simp
next
  case (Cons x s)
  then show ?case
    using Cons.IH [of "pre @ [x]"] by (subst strlen_at.simps) auto
qed

lemma shift_left_str:
  "NUL \<notin> set (x # s) \<Longrightarrow>
   shift_left (pre @ (x # s) @ NUL # r) (length pre) = Some (pre @ s @ NUL # NUL # r)"
proof (induction s arbitrary: pre x)
  case Nil
  show ?case
    using Nil by (subst shift_left.simps) (simp add: nth_append shift_left.simps)
next
  case (Cons y s)
  have "shift_left ((pre @ [y]) @ (y # s) @ NUL # r) (length (pre @ [y])) = Some ((pre @ [y]) @ s @ NUL # NUL # r)"
    using Cons.prems by (intro Cons.IH) auto
  with Cons.prems show ?case by (subst shift_left.simps) (auto simp: nth_append)
qed

lemma shift_left_NUL: "shift_left m i = Some m1 \<Longrightarrow> NUL \<in> set (drop i m)"
proof (induction m i rule: shift_left.induct)
  case (1 m i)
  have i: "i < length m" using "1.prems" by (subst (asm) shift_left.simps) (auto split: if_splits)
  then have d: "drop i m = m ! i # drop (Suc i) m" by (simp add: Cons_nth_drop_Suc)
  show ?case
  proof (cases "m ! i = NUL")
    case False
    with "1.prems" i have j: "Suc i < length m"
      and "shift_left (m[i := m ! Suc i]) (Suc i) = Some m1"
      by (subst (asm) shift_left.simps, simp split: if_splits)+
    then have "NUL \<in> set (drop (Suc i) (m[i := m ! Suc i]))"
      using "1.IH" i False by blast
    then show ?thesis by (simp add: d)
  qed (simp add: d)
qed

lemma split_at_NUL:
  assumes "NUL \<in> set (drop i m)" and "i < length m"
  obtains s r where "m = take i m @ s @ NUL # r" and "NUL \<notin> set s"
proof -
  obtain s r where "drop i m = s @ NUL # r" "NUL \<notin> set s"
    using split_list_first [OF assms(1)] by blast
  then show thesis using that [of s r] append_take_drop_id [of i m] by simp
qed

lemma shift_left_shorter:
  assumes "shift_left m i = Some m1" and "i < length m" and "m ! i \<noteq> NUL"
  shows "the (strlen_at m1 i) < the (strlen_at m i)"
proof -
  obtain s r where m: "m = take i m @ s @ NUL # r" and s: "NUL \<notin> set s"
    using split_at_NUL [OF shift_left_NUL [OF assms(1)] assms(2)] .
  define pre where "pre = take i m"
  have i: "length pre = i" using assms(2) by (simp add: pre_def)
  obtain x t where xt: "s = x # t"
  proof (cases s)
    case Nil
    then have "m ! i = NUL" using m i unfolding pre_def by (metis append_Nil nth_append_length)
    with assms(3) show ?thesis by simp
  qed blast
  have m': "m = pre @ (x # t) @ NUL # r" using m unfolding xt pre_def .
  have m1: "m1 = pre @ t @ NUL # NUL # r"
    using shift_left_str [of x t pre r] s assms(1) unfolding xt m' i by simp
  have "strlen_at m i = Some (Suc (length t))"
    using strlen_at_str [of "x # t" pre r] s unfolding xt m' i by simp
  moreover have "strlen_at m1 i = Some (length t)"
    using strlen_at_str [of t pre "NUL # r"] s unfolding xt m1 i by simp
  ultimately show ?thesis by simp
qed

section \<open>Removing characters\<close>

text \<open>
  Both routines call themselves on the same position after a shift, and then, whatever the
  first call did, on the next position. \<open>n\<close> is the number of bytes of the block from the
  current position on; a call at or behind the end of the block is an access outside it.
\<close>

function remove_all_char :: "nat \<Rightarrow> char list \<Rightarrow> nat \<Rightarrow> char \<Rightarrow> char list option" where
  "remove_all_char n m i c =
     (if 0 < n \<and> i < length m then
        (if m ! i = NUL then Some m
         else if m ! i = c then
           (case shift_left m i of
              None \<Rightarrow> None
            | Some m1 \<Rightarrow>
                (case remove_all_char n m1 i c of
                   None \<Rightarrow> None
                 | Some m2 \<Rightarrow> remove_all_char (n - 1) m2 (Suc i) c))
         else remove_all_char (n - 1) m (Suc i) c)
      else None)"
  by pat_completeness auto
termination
  by (relation "measures [\<lambda>(n, m, i, c). n, \<lambda>(n, m, i, c). the (strlen_at m i)]")
    (auto intro: shift_left_shorter)

function remove_duplicated_char :: "nat \<Rightarrow> char list \<Rightarrow> nat \<Rightarrow> char \<Rightarrow> char list option" where
  "remove_duplicated_char n m i c =
     (if 0 < n \<and> i < length m then
        (if m ! i = NUL then Some m
         else if Suc i < length m then
           (if m ! i = m ! Suc i \<and> m ! i = c then
              (case shift_left m i of
                 None \<Rightarrow> None
               | Some m1 \<Rightarrow>
                   (case remove_duplicated_char n m1 i c of
                      None \<Rightarrow> None
                    | Some m2 \<Rightarrow> remove_duplicated_char (n - 1) m2 (Suc i) c))
            else remove_duplicated_char (n - 1) m (Suc i) c)
         else None)
      else None)"
  by pat_completeness auto
termination
  by (relation "measures [\<lambda>(n, m, i, c). n, \<lambda>(n, m, i, c). the (strlen_at m i)]")
    (auto intro: shift_left_shorter)

declare remove_all_char.simps [simp del] remove_duplicated_char.simps [simp del]

text \<open>On strings: drop every \<open>c\<close>, and keep one \<open>c\<close> of every run.\<close>

definition remove_all_str :: "char \<Rightarrow> string \<Rightarrow> string" where
  "remove_all_str c s = filter (\<lambda>x. x \<noteq> c) s"

fun squeeze_str :: "char \<Rightarrow> string \<Rightarrow> string" where
  "squeeze_str c (x # y # s) = (if x = y \<and> x = c then squeeze_str c (y # s) else x # squeeze_str c (y # s))"
| "squeeze_str c s = s"


lemma squeeze_hd: "s \<noteq> [] \<Longrightarrow> squeeze_str c s \<noteq> [] \<and> hd (squeeze_str c s) = hd s"
  by (induction c s rule: squeeze_str.induct) auto

lemma squeeze_length: "length (squeeze_str c s) \<le> length s"
  by (induction c s rule: squeeze_str.induct) auto

lemma squeeze_set: "set (squeeze_str c s) = set s"
  by (induction c s rule: squeeze_str.induct) auto

lemma squeeze_no_run: "successively (\<lambda>x y. \<not> (x = c \<and> y = c)) (squeeze_str c s)"
proof (induction c s rule: squeeze_str.induct)
  case (1 c x y s)
  then show ?case using squeeze_hd [of "y # s" c] by (auto simp: successively_Cons)
qed simp_all

lemma squeeze_filter: "filter (\<lambda>x. x \<noteq> c) (squeeze_str c s) = filter (\<lambda>x. x \<noteq> c) s"
  by (induction c s rule: squeeze_str.induct) auto

lemma squeeze_idem [simp]: "squeeze_str c (squeeze_str c s) = squeeze_str c s"
proof (induction c s rule: squeeze_str.induct)
  case (1 c x y s)
  obtain u where u: "squeeze_str c (y # s) = y # u"
    using squeeze_hd [of "y # s" c] by (cases "squeeze_str c (y # s)") auto
  with 1 show ?case by auto
qed auto

lemma squeeze_fixed_tl:
  assumes "squeeze_str c (y # u) = y # u" shows "squeeze_str c u = u"
  using assms squeeze_length [of c u] by (cases u) (auto split: if_splits)

lemma remove_all_length: "length (remove_all_str c s) \<le> length s"
  by (simp add: remove_all_str_def)

lemma remove_all_Cons [simp]:
  "remove_all_str c (x # s) = (if x = c then remove_all_str c s else x # remove_all_str c s)"
  "remove_all_str c [] = []"
  by (simp_all add: remove_all_str_def)

lemma remove_all_set: "set (remove_all_str c s) = set s - {c}"
  by (auto simp: remove_all_str_def)

lemma remove_all_fixed:
  assumes "remove_all_str c s = y # u" shows "remove_all_str c u = u"
proof -
  have "remove_all_str c (remove_all_str c s) = remove_all_str c s"
    by (simp add: remove_all_str_def)
  then show ?thesis
    using remove_all_length [of c u] unfolding assms by (auto split: if_splits)
qed

text \<open>Zeros in front of a terminator can be moved behind it.\<close>

lemma replicate_NUL_shift: "replicate k NUL @ NUL # r = NUL # replicate k NUL @ r"
  by (simp add: replicate_app_Cons_same)

lemma remove_all_char_block:
  assumes "NUL \<notin> set s" and "length s < n"
  shows "remove_all_char n (pre @ s @ NUL # r) (length pre) c
         = Some (pre @ remove_all_str c s @ NUL # replicate (length s - length (remove_all_str c s)) NUL @ r)"
  using assms
proof (induction s arbitrary: pre n r rule: length_induct)
  case (1 s)
  show ?case
  proof (cases s)
    case Nil
    with 1 show ?thesis by (subst remove_all_char.simps) simp
  next
    case (Cons x t)
    show ?thesis
    proof (cases "x = c")
      case False
      have "remove_all_char (n - 1) ((pre @ [x]) @ t @ NUL # r) (length (pre @ [x])) c
        = Some ((pre @ [x]) @ remove_all_str c t @ NUL # replicate (length t - length (remove_all_str c t)) NUL @ r)"
        using 1 Cons by (intro "1.IH" [rule_format]) auto
      then show ?thesis
        using 1 Cons False by (subst remove_all_char.simps) auto
    next
      case True
      let ?k = "length t - length (remove_all_str c t)"
      let ?m2 = "pre @ remove_all_str c t @ NUL # replicate ?k NUL @ NUL # r"
      have sh: "shift_left (pre @ s @ NUL # r) (length pre) = Some (pre @ t @ NUL # NUL # r)"
        using shift_left_str [of x t pre r] 1 Cons by simp
      have r1: "remove_all_char n (pre @ t @ NUL # NUL # r) (length pre) c = Some ?m2"
        using 1 Cons by (intro "1.IH" [rule_format]) auto
      have r2: "remove_all_char (n - 1) ?m2 (Suc (length pre)) c = Some ?m2"
      proof (cases "remove_all_str c t")
        case Nil
        then show ?thesis
          using 1 Cons by (subst remove_all_char.simps) (auto simp: nth_append)
      next
        case (Cons y u)
        have u: "remove_all_str c u = u" "NUL \<notin> set u" "Suc (length u) \<le> length t"
          using remove_all_fixed [OF Cons] remove_all_length [of c t] remove_all_set [of c t]
            "1.prems" \<open>s = x # t\<close> unfolding Cons by auto
        have "remove_all_char (n - 1) ((pre @ [y]) @ u @ NUL # (replicate ?k NUL @ NUL # r)) (length (pre @ [y])) c
          = Some ((pre @ [y]) @ remove_all_str c u @ NUL # replicate (length u - length (remove_all_str c u)) NUL
              @ (replicate ?k NUL @ NUL # r))"
          using 1 u \<open>s = x # t\<close> by (intro "1.IH" [rule_format]) auto
        with Cons u show ?thesis by simp
      qed
      have "remove_all_char n (pre @ s @ NUL # r) (length pre) c = Some ?m2"
        using 1 Cons True sh r1 r2 by (subst remove_all_char.simps) auto
      moreover have "Suc (length t) - length (remove_all_str c t) = Suc ?k"
        using remove_all_length [of c t] by simp
      ultimately show ?thesis using Cons True by (simp add: replicate_app_Cons_same)
    qed
  qed
qed

lemma remove_duplicated_char_block:
  assumes "NUL \<notin> set s" and "length s < n"
  shows "remove_duplicated_char n (pre @ s @ NUL # r) (length pre) c
         = Some (pre @ squeeze_str c s @ NUL # replicate (length s - length (squeeze_str c s)) NUL @ r)"
  using assms
proof (induction s arbitrary: pre n r rule: length_induct)
  case (1 s)
  show ?case
  proof (cases s)
    case Nil
    with 1 show ?thesis by (subst remove_duplicated_char.simps) simp
  next
    case (Cons x t)
    show ?thesis
    proof (cases "t \<noteq> [] \<and> hd t = x \<and> x = c")
      case False
      have sq: "squeeze_str c s = x # squeeze_str c t" using Cons False by (cases t) auto
      have IH: "remove_duplicated_char (n - 1) ((pre @ [x]) @ t @ NUL # r) (length (pre @ [x])) c
        = Some ((pre @ [x]) @ squeeze_str c t @ NUL # replicate (length t - length (squeeze_str c t)) NUL @ r)"
        using 1 Cons by (intro "1.IH" [rule_format]) auto
      have "\<not> (x = (t @ [NUL]) ! 0 \<and> x = c)"
        using 1 Cons False by (cases t) auto
      then show ?thesis
        using 1 Cons IH sq by (subst remove_duplicated_char.simps) (cases t; auto simp: nth_append)
    next
      case True
      then obtain t' where t: "t = c # t'" and x: "x = c" by (cases t) auto
      let ?k = "length t - length (squeeze_str c t)"
      let ?m2 = "pre @ squeeze_str c t @ NUL # replicate ?k NUL @ NUL # r"
      have sh: "shift_left (pre @ s @ NUL # r) (length pre) = Some (pre @ t @ NUL # NUL # r)"
        using shift_left_str [of x t pre r] 1 Cons by simp
      have r1: "remove_duplicated_char n (pre @ t @ NUL # NUL # r) (length pre) c = Some ?m2"
        using 1 Cons by (intro "1.IH" [rule_format]) auto
      obtain u where u: "squeeze_str c t = c # u"
        using squeeze_hd [of t c] t by (cases "squeeze_str c t") auto
      have u': "squeeze_str c u = u" "NUL \<notin> set u" "Suc (length u) \<le> length t"
        using u squeeze_fixed_tl [of c c u] squeeze_idem [of c t] squeeze_length [of c t]
          squeeze_set [of c t] 1 Cons by auto
      have "remove_duplicated_char (n - 1) ((pre @ [c]) @ u @ NUL # (replicate ?k NUL @ NUL # r)) (length (pre @ [c])) c
          = Some ((pre @ [c]) @ squeeze_str c u @ NUL # replicate (length u - length (squeeze_str c u)) NUL
              @ (replicate ?k NUL @ NUL # r))"
        using 1 u' \<open>s = x # t\<close> by (intro "1.IH" [rule_format]) auto
      then have r2: "remove_duplicated_char (n - 1) ?m2 (Suc (length pre)) c = Some ?m2"
        using u u' by simp
      have "remove_duplicated_char n (pre @ s @ NUL # r) (length pre) c = Some ?m2"
        using 1 Cons t x sh r1 r2 by (subst remove_duplicated_char.simps) (auto simp: nth_append)
      moreover have "Suc (length t) - length (squeeze_str c t) = Suc ?k"
        using squeeze_length [of c t] by simp
      ultimately show ?thesis using Cons t x by (simp add: replicate_app_Cons_same)
    qed
  qed
qed

section \<open>Properties\<close>

text \<open>
  C30. \<open>remove_all_char\<close>, on any block that holds a terminated string at the given position,
  stays inside the block, leaves the bytes in front of the string and behind its old end as they
  were, and leaves the string without the character.
\<close>

theorem remove_all_char_correct:
  assumes "NUL \<notin> set s" and "length s < n"
  shows "remove_all_char n (pre @ s @ NUL # r) (length pre) c
    = Some (pre @ filter (\<lambda>x. x \<noteq> c) s @ NUL # replicate (count_list s c) NUL @ r)"
proof -
  have "length s - length (filter (\<lambda>x. x \<noteq> c) s) = count_list s c"
    using sum_length_filter_compl [of "(=) c" s] by (simp add: count_list_eq_length_filter eq_commute [of _ c])
  then show ?thesis
    using remove_all_char_block [OF assms, of pre r c] by (simp add: remove_all_str_def)
qed

theorem remove_all_char_correct_witness:
  "remove_all_char 9 (''x'' @ [CHR ''a'', CR, CR, CHR ''b'', CR] @ NUL # ''yz'') 1 CR
    = Some (''xab'' @ [NUL, NUL, NUL, NUL] @ ''yz'')"
  using remove_all_char_correct [of "[CHR ''a'', CR, CR, CHR ''b'', CR]" 9 "''x''" "''yz''" CR]
  by (simp add: numeral_eq_Suc)

text \<open>
  C31. \<open>remove_duplicated_char\<close> stays inside the block and changes nothing but the string, which
  keeps exactly one character of every run of \<open>c\<close>: what is left has no two of them in a row,
  and the other characters are untouched.
\<close>

theorem remove_duplicated_char_correct:
  assumes "NUL \<notin> set s" and "length s < n"
  shows "remove_duplicated_char n (pre @ s @ NUL # r) (length pre) c
      = Some (pre @ squeeze_str c s @ NUL # replicate (length s - length (squeeze_str c s)) NUL @ r)
    \<and> successively (\<lambda>x y. \<not> (x = c \<and> y = c)) (squeeze_str c s)
    \<and> filter (\<lambda>x. x \<noteq> c) (squeeze_str c s) = filter (\<lambda>x. x \<noteq> c) s"
  using remove_duplicated_char_block [OF assms, of pre r c] squeeze_no_run [of c s] squeeze_filter [of c s] by simp

theorem remove_duplicated_char_correct_witness:
  "remove_duplicated_char 7 (''..a.b'' @ NUL # ''z'') 0 (CHR ''.'') = Some (''.a.b'' @ [NUL, NUL] @ ''z'')"
  using remove_duplicated_char_correct [of "''..a.b''" 7 "[]" "''z''" "CHR ''.''"]
  by (simp add: numeral_eq_Suc)

end
