(* ===== verification/Tokens.thy ===== *)
theory Tokens
  imports CStrings "HOL-Library.Sublist"
begin

text \<open>
  Trimming, cutting at the end of a line, and splitting into tokens
  (\<open>src/src/cinit/utils.c\<close>), plus the suffix test of \<open>src/src/cinit/cinit.c\<close>. As in the
  theory on character removal, the block versions follow the C code and the string versions
  say what they compute.
\<close>

section \<open>Trimming\<close>

fun trim_end :: "(char \<Rightarrow> bool) \<Rightarrow> char list \<Rightarrow> nat \<Rightarrow> nat \<Rightarrow> (char list \<times> nat) option" where
  "trim_end P m p 0 = Some (m, 0)"
| "trim_end P m p (Suc l) =
     do { ch \<leftarrow> rd m (p + l);
          if P ch then do { m' \<leftarrow> wr m (p + l) NUL; trim_end P m' p l } else Some (m, Suc l) }"

function trim_begin :: "(char \<Rightarrow> bool) \<Rightarrow> char list \<Rightarrow> nat \<Rightarrow> nat \<Rightarrow> (nat \<times> nat) option" where
  "trim_begin P m p l =
     (if p < length m then
        (if m ! p \<noteq> NUL \<and> P (m ! p) then trim_begin P m (Suc p) (l - 1) else Some (p, l))
      else None)"
  by pat_completeness auto
termination by (relation "measure (\<lambda>(P, m, p, l). length m - p)") auto

declare trim_begin.simps [simp del]

definition trim_with :: "(char \<Rightarrow> bool) \<Rightarrow> char list \<Rightarrow> nat \<Rightarrow> char list option" where
  "trim_with P m s =
     do { l \<leftarrow> strlen_at m s;
          if l = 0 then Some m
          else do { (m1, l1) \<leftarrow> trim_end P m s l;
                    (p, l2) \<leftarrow> trim_begin P m1 s l1;
                    memmove m1 s p (l2 + 1) } }"

definition trim_char :: "char list \<Rightarrow> nat \<Rightarrow> char \<Rightarrow> char list option" where
  "trim_char m s c = trim_with (\<lambda>x. x = c) m s"

definition trim :: "char list \<Rightarrow> nat \<Rightarrow> char list option" where
  "trim m s = trim_with isspace m s"

definition rtrim_str :: "(char \<Rightarrow> bool) \<Rightarrow> string \<Rightarrow> string" where
  "rtrim_str P s = rev (dropWhile P (rev s))"

definition trim_str :: "(char \<Rightarrow> bool) \<Rightarrow> string \<Rightarrow> string" where
  "trim_str P s = dropWhile P (rtrim_str P s)"

lemma rtrim_snoc [simp]: "rtrim_str P (s @ [x]) = (if P x then rtrim_str P s else s @ [x])"
  "rtrim_str P [] = []"
  by (simp_all add: rtrim_str_def)

lemma rtrim_length: "length (rtrim_str P s) \<le> length s"
  by (simp add: rtrim_str_def) (metis length_dropWhile_le length_rev)

lemma rtrim_set: "set (rtrim_str P s) \<subseteq> set s"
  by (auto simp: rtrim_str_def dest: set_dropWhileD)

lemma trim_str_set: "set (trim_str P s) \<subseteq> set s"
  using rtrim_set [of P s] by (auto simp: trim_str_def dest: set_dropWhileD)

lemma trim_str_length: "length (trim_str P s) \<le> length s"
  using rtrim_length [of P s] length_dropWhile_le [of P "rtrim_str P s"]
  by (simp add: trim_str_def)

lemma trim_end_block:
  "trim_end P (pre @ s @ r) (length pre) (length s)
   = Some (pre @ rtrim_str P s @ replicate (length s - length (rtrim_str P s)) NUL @ r,
           length (rtrim_str P s))"
proof (induction s arbitrary: r rule: rev_induct)
  case (snoc x s)
  have 1: "rd (pre @ s @ x # r) (length pre + length s) = Some x"
    and 2: "wr (pre @ s @ x # r) (length pre + length s) NUL = Some (pre @ s @ NUL # r)"
    using rd_in [of "pre @ s" x r] wr_in [of "pre @ s" x r NUL] by simp_all
  have "Suc (length s) - length (rtrim_str P s) = Suc (length s - length (rtrim_str P s))"
    using rtrim_length [of P s] by simp
  with snoc [of "NUL # r"] show ?case
    by (simp add: 1 2 replicate_app_Cons_same)
qed simp

lemma trim_begin_block:
  "NUL \<notin> set s \<Longrightarrow> \<not> P NUL \<Longrightarrow> trim_begin P (pre @ s @ NUL # r) (length pre) (length s)
     = Some (length pre + length (takeWhile P s), length (dropWhile P s))"
proof (induction s arbitrary: pre)
  case Nil
  then show ?case by (subst trim_begin.simps) simp
next
  case (Cons x s)
  then show ?case
    using Cons.IH [of "pre @ [x]"] by (subst trim_begin.simps) auto
qed

lemma drop_append_le: "n \<le> length xs \<Longrightarrow> drop n (xs @ ys) = drop n xs @ ys"
  by simp

lemma trim_with_block:
  assumes "NUL \<notin> set s" and "\<not> P NUL"
  shows "\<exists>z. length z = length s - length (trim_str P s)
           \<and> trim_with P (pre @ s @ NUL # r) (length pre) = Some (pre @ trim_str P s @ NUL # z @ r)"
proof (cases "s = []")
  case True
  with assms strlen_at_str [of "[]" pre r] show ?thesis
    by (simp add: trim_with_def trim_str_def)
next
  case False
  define u where "u = rtrim_str P s"
  define k where "k = length s - length u"
  have u: "NUL \<notin> set u" "length u \<le> length s"
    using rtrim_set [of P s] rtrim_length [of P s] assms by (auto simp: u_def)
  have e: "trim_end P (pre @ s @ NUL # r) (length pre) (length s)
      = Some (pre @ u @ NUL # replicate k NUL @ r, length u)"
    by (simp add: trim_end_block u_def k_def replicate_app_Cons_same)
  have b: "trim_begin P (pre @ u @ NUL # replicate k NUL @ r) (length pre) (length u)
      = Some (length pre + length (takeWhile P u), length (dropWhile P u))"
    using u(1) assms(2) by (rule trim_begin_block)
  define a where "a = takeWhile P u"
  define d where "d = dropWhile P u"
  have ad: "u = a @ d" by (simp add: a_def d_def)
  define w where "w = drop (length d + 1) (u @ NUL # replicate k NUL @ r)"
  have m: "memmove (pre @ u @ NUL # replicate k NUL @ r) (length pre) (length pre + length a) (length d + 1)
      = Some (pre @ d @ NUL # w)"
    by (simp add: memmove_def ad w_def)
  have dle: "length d \<le> length u + k" by (simp add: ad)
  have wr: "w = take (length s - length d) w @ r"
  proof -
    have "w = drop (length d + 1) (u @ NUL # replicate k NUL) @ r"
      using drop_append_le [of "length d + 1" "u @ NUL # replicate k NUL" r]
      unfolding w_def by (simp add: ad [symmetric] dle)
    moreover have "length (drop (length d + 1) (u @ NUL # replicate k NUL)) = length s - length d"
      using u(2) by (simp add: k_def)
    ultimately show ?thesis by simp
  qed
  have lw: "length (take (length s - length d) w) = length s - length d"
    using u(2) by (auto simp: w_def k_def ad)
  have t: "trim_with P (pre @ s @ NUL # r) (length pre) = Some (pre @ d @ NUL # w)"
    using False assms strlen_at_str [of s pre r] e b m
    by (simp add: trim_with_def a_def d_def)
  have td: "trim_str P s = d" by (simp add: trim_str_def d_def u_def)
  show ?thesis
    using t wr lw unfolding td by (intro exI [of _ "take (length s - length d) w"]) simp
qed

section \<open>The first line\<close>

function terminate_at_first_eol :: "char list \<Rightarrow> nat \<Rightarrow> char list option" where
  "terminate_at_first_eol m i =
     (if i < length m then
        (if m ! i = NUL then Some m
         else if m ! i = LF \<or> m ! i = CR then wr m i NUL
         else terminate_at_first_eol m (Suc i))
      else None)"
  by pat_completeness auto
termination by (relation "measure (\<lambda>(m, i). length m - i)") auto

declare terminate_at_first_eol.simps [simp del]

definition is_eol :: "char \<Rightarrow> bool" where
  "is_eol c \<longleftrightarrow> c = LF \<or> c = CR"

definition first_line :: "string \<Rightarrow> string" where
  "first_line s = takeWhile (\<lambda>c. \<not> is_eol c) s"

lemma first_line_set: "set (first_line s) \<subseteq> set s"
  by (auto simp: first_line_def dest: set_takeWhileD)

lemma terminate_at_first_eol_block:
  "NUL \<notin> set s \<Longrightarrow>
   \<exists>z. length z = length s - length (first_line s)
     \<and> terminate_at_first_eol (pre @ s @ NUL # r) (length pre)
       = Some (pre @ first_line s @ NUL # z @ r)"
proof (induction s arbitrary: pre)
  case Nil
  then show ?case by (subst terminate_at_first_eol.simps) (simp add: first_line_def)
next
  case (Cons x s)
  show ?case
  proof (cases "is_eol x")
    case True
    with Cons.prems wr_in [of pre x "s @ NUL # r" NUL] show ?thesis
      by (subst terminate_at_first_eol.simps)
        (auto simp: first_line_def is_eol_def intro!: exI [of _ "s @ [NUL]"])
  next
    case False
    then show ?thesis
      using Cons.IH [of "pre @ [x]"] Cons.prems
      by (subst terminate_at_first_eol.simps) (auto simp: first_line_def is_eol_def)
  qed
qed

text \<open>Every loaded scalar setting is cut to its first line and then trimmed.\<close>

definition clean_value :: "string \<Rightarrow> string" where
  "clean_value s = trim_str isspace (first_line s)"

section \<open>Digits and suffixes\<close>

definition digits_only :: "string \<Rightarrow> bool" where
  "digits_only s \<longleftrightarrow> s \<noteq> [] \<and> list_all isdigit s"

definition ends_with :: "string \<Rightarrow> string \<Rightarrow> bool" where
  "ends_with str suf \<longleftrightarrow> length str \<ge> length suf \<and> drop (length str - length suf) str = suf"

lemma ends_with_suffix: "ends_with str suf \<longleftrightarrow> suffix suf str"
  by (auto simp: ends_with_def suffix_def) (metis append_take_drop_id)

text \<open>\<open>p = strrchr (name, '.'); *p = 0\<close>, for a name that has a dot.\<close>

definition cut_at_last_dot :: "string \<Rightarrow> string" where
  "cut_at_last_dot s = rev (tl (dropWhile (\<lambda>c. c \<noteq> CHR ''.'') (rev s)))"

lemma cut_dep_suffix: "cut_at_last_dot (s @ ''.dep'') = s"
  by (simp add: cut_at_last_dot_def)


section \<open>Splitting\<close>

text \<open>\<open>for (char *s = buf; *s; s++) if (*s == c) num_tokens++;\<close>\<close>

function count_delims :: "char list \<Rightarrow> nat \<Rightarrow> char \<Rightarrow> nat option" where
  "count_delims m i c =
     (if i < length m then
        (if m ! i = NUL then Some 0
         else if m ! i = c then map_option Suc (count_delims m (Suc i) c)
         else count_delims m (Suc i) c)
      else None)"
  by pat_completeness auto
termination by (relation "measure (\<lambda>(m, i, c). length m - i)") auto

text \<open>\<open>while (*s && *s != c) s++;\<close>\<close>

function token_end :: "char list \<Rightarrow> nat \<Rightarrow> char \<Rightarrow> nat option" where
  "token_end m s c =
     (if s < length m then
        (if m ! s \<noteq> NUL \<and> m ! s \<noteq> c then token_end m (Suc s) c else Some s)
      else None)"
  by pat_completeness auto
termination by (relation "measure (\<lambda>(m, s, c). length m - s)") auto

declare count_delims.simps [simp del] token_end.simps [simp del]

lemma token_end_bounds: "token_end m s c = Some e \<Longrightarrow> s \<le> e \<and> e < length m"
  by (induction m s c rule: token_end.induct)
    (subst (asm) token_end.simps, fastforce split: if_splits)

text \<open>
  The loop that fills the vector: \<open>w\<close> holds the start offsets written so far and \<open>cap\<close> is
  the number of entries that were allocated for them.
\<close>

function split_loop :: "char list \<Rightarrow> nat \<Rightarrow> char \<Rightarrow> nat \<Rightarrow> nat list \<Rightarrow> (char list \<times> nat list) option" where
  "split_loop m s c cap w =
     (case token_end m s c of
        None \<Rightarrow> None
      | Some e \<Rightarrow>
          if m ! e = NUL then Some (m, w)
          else (case rd (m[e := NUL]) (Suc e) of
                  None \<Rightarrow> None
                | Some n \<Rightarrow>
                    if n = NUL then Some (m[e := NUL], w)
                    else if length w < cap then split_loop (m[e := NUL]) (Suc e) c cap (w @ [Suc e])
                    else None))"
  by pat_completeness auto
termination
  by (relation "measure (\<lambda>(m, s, c, cap, w). length m - s)")
    (auto dest!: token_end_bounds)

declare split_loop.simps [simp del]

text \<open>
  \<open>split\<close>: \<open>alloc\<close> tells whether \<open>malloc\<close> succeeds. The result is the memory, and the
  length and entries of the vector unless it is \<open>NULL\<close>; the first \<open>ofs\<close> entries are left
  unwritten.
\<close>

definition split_tokens ::
  "bool \<Rightarrow> char list \<Rightarrow> nat \<Rightarrow> char \<Rightarrow> nat \<Rightarrow> nat
     \<Rightarrow> (char list \<times> (nat \<times> nat option list) option) option" where
  "split_tokens alloc m buf c extra ofs =
     do { m1 \<leftarrow> remove_duplicated_char (length m - buf) m buf c;
          k \<leftarrow> count_delims m1 buf c;
          if \<not> alloc then Some (m1, None)
          else if ofs < k + 1 + extra then
            do { (m2, w) \<leftarrow> split_loop m1 buf c (k + 1 + extra - ofs) [buf];
                 Some (m2, Some (ofs + length w, replicate ofs None @ map Some w)) }
          else None }"

fun fields :: "char \<Rightarrow> string \<Rightarrow> string list" where
  "fields c [] = [[]]"
| "fields c (x # s) = (if x = c then [] # fields c s
                       else (x # hd (fields c s)) # tl (fields c s))"

fun drop_last_empty :: "string list \<Rightarrow> string list" where
  "drop_last_empty (f # g # fs) = (if g = [] \<and> fs = [] then [f] else f # drop_last_empty (g # fs))"
| "drop_last_empty fs = fs"

definition split_str :: "char \<Rightarrow> string \<Rightarrow> string list" where
  "split_str c s = drop_last_empty (fields c (squeeze_str c s))"

lemma fields_not_Nil [simp]: "fields c s \<noteq> []"
  by (cases s) auto

lemma fields_no_delim: "c \<notin> set f \<Longrightarrow> fields c f = [f]"
  by (induction f) auto

lemma fields_append: "c \<notin> set f \<Longrightarrow> fields c (f @ c # t) = f # fields c t"
  by (induction f) auto

lemma fields_eq_empty: "fields c t = [[]] \<longleftrightarrow> t = []"
  by (cases t) auto

lemma hd_fields: "hd (fields c t) = takeWhile (\<lambda>x. x \<noteq> c) t"
  by (induction t) auto

lemma drop_last_empty_hd [simp]: "fs \<noteq> [] \<Longrightarrow> hd (drop_last_empty fs) = hd fs \<and> drop_last_empty fs \<noteq> []"
  by (cases fs rule: drop_last_empty.cases) auto

lemma drop_last_empty_Cons: "fs \<noteq> [] \<Longrightarrow> fs \<noteq> [[]] \<Longrightarrow> drop_last_empty (f # fs) = f # drop_last_empty fs"
  by (cases fs) auto

lemma token_end_block:
  "NUL \<notin> set f \<Longrightarrow> c \<notin> set f \<Longrightarrow> x = NUL \<or> x = c \<Longrightarrow>
   token_end (pre @ f @ x # r) (length pre) c = Some (length pre + length f)"
proof (induction f arbitrary: pre)
  case Nil
  then show ?case by (subst token_end.simps) auto
next
  case (Cons y f)
  then show ?case
    using Cons.IH [of "pre @ [y]"] by (subst token_end.simps) auto
qed

lemma count_delims_block:
  "NUL \<notin> set s \<Longrightarrow> count_delims (pre @ s @ NUL # r) (length pre) c = Some (count_list s c)"
proof (induction s arbitrary: pre)
  case Nil
  show ?case by (subst count_delims.simps) simp
next
  case (Cons x s)
  then show ?case
    using Cons.IH [of "pre @ [x]"] by (subst count_delims.simps) auto
qed

abbreviation zap :: "char \<Rightarrow> string \<Rightarrow> char list" where
  "zap c s \<equiv> map (\<lambda>x. if x = c then NUL else x) s"

lemma zap_id [simp]: "c \<notin> set f \<Longrightarrow> zap c f = f"
  by (induction f) auto

lemma cstr_zap:
  "NUL \<notin> set t \<Longrightarrow> cstr (zap c t @ NUL # r) = takeWhile (\<lambda>x. x \<noteq> c) t"
  by (induction t) (auto simp: cstr_def)

lemma split_loop_block:
  assumes "NUL \<notin> set s" and "c \<noteq> NUL" and "length w + count_list s c \<le> cap"
  shows "\<exists>offs. split_loop (pre @ s @ NUL # r) (length pre) c cap w = Some (pre @ zap c s @ NUL # r, w @ offs)
           \<and> map (\<lambda>o'. cstr (drop o' (pre @ zap c s @ NUL # r))) offs = tl (drop_last_empty (fields c s))"
  using assms
proof (induction s arbitrary: pre w rule: length_induct)
  case (1 s)
  show ?case
  proof (cases "c \<in> set s")
    case False
    have "token_end (pre @ s @ NUL # r) (length pre) c = Some (length pre + length s)"
      using "1.prems" False by (intro token_end_block) auto
    then show ?thesis
      using False by (subst split_loop.simps) (simp add: nth_append fields_no_delim)
  next
    case True
    then obtain f t where s: "s = f @ c # t" and f: "c \<notin> set f"
      using split_list_first by fastforce
    let ?e = "length pre + length f"
    have te: "token_end (pre @ s @ NUL # r) (length pre) c = Some ?e"
      using token_end_block [of f c c pre "t @ NUL # r"] "1.prems" s f by simp
    have at: "(pre @ s @ NUL # r) ! ?e = c" "(pre @ s @ NUL # r)[?e := NUL] = pre @ f @ NUL # t @ NUL # r"
      by (simp_all add: s nth_append list_update_append)
    have rdn: "rd (pre @ f @ NUL # t @ NUL # r) (Suc ?e) = Some (hd (t @ [NUL]))"
      by (cases t) (simp_all add: rd_def nth_append)
    show ?thesis
    proof (cases "t = []")
      case True
      then show ?thesis
        using "1.prems" te at rdn s f
        by (subst split_loop.simps) (simp add: fields_append)
    next
      case False
      let ?pre = "pre @ f @ [NUL]"
      have n: "hd (t @ [NUL]) \<noteq> NUL" using False "1.prems" s by (cases t) auto
      have cap: "length w < cap" "length (w @ [Suc ?e]) + count_list t c \<le> cap"
        using "1.prems" s by auto
      obtain offs where
        o1: "split_loop (?pre @ t @ NUL # r) (length ?pre) c cap (w @ [Suc ?e])
              = Some (?pre @ zap c t @ NUL # r, (w @ [Suc ?e]) @ offs)" and
        o2: "map (\<lambda>o'. cstr (drop o' (?pre @ zap c t @ NUL # r))) offs = tl (drop_last_empty (fields c t))"
        using "1.IH" [rule_format, of t "w @ [Suc ?e]" ?pre] "1.prems" s cap by auto
      have ft: "fields c t \<noteq> [[]]" using False by (simp add: fields_eq_empty)
      have dl: "drop_last_empty (fields c s) = f # drop_last_empty (fields c t)"
        using f ft by (simp add: s fields_append drop_last_empty_Cons)
      have tok: "cstr (drop (Suc ?e) (?pre @ zap c t @ NUL # r)) = hd (drop_last_empty (fields c t))"
        using "1.prems" s by (simp add: cstr_zap hd_fields)
      have "split_loop (pre @ s @ NUL # r) (length pre) c cap w
          = Some (pre @ zap c s @ NUL # r, w @ (Suc ?e # offs))"
        using te at rdn n cap(1) o1 "1.prems" s f by (subst split_loop.simps) simp
      moreover have "map (\<lambda>o'. cstr (drop o' (pre @ zap c s @ NUL # r))) (Suc ?e # offs)
          = tl (drop_last_empty (fields c s))"
        using o2 tok f unfolding dl by (simp add: s) (metis drop_last_empty_hd fields_not_Nil list.collapse)
      ultimately show ?thesis by blast
    qed
  qed
qed

text \<open>The tokens a caller reads through the vector.\<close>

definition vector_tokens :: "char list \<Rightarrow> nat option list \<Rightarrow> string list" where
  "vector_tokens m v = map (\<lambda>p. cstr (drop (the p) m)) (filter (\<lambda>p. p \<noteq> None) v)"

lemma vector_tokens_Some: "vector_tokens m (replicate k None @ map Some w) = map (\<lambda>p. cstr (drop p m)) w"
  by (simp add: vector_tokens_def filter_map comp_def)

lemma split_tokens_block:
  assumes "NUL \<notin> set s" and "c \<noteq> NUL"
  shows "\<exists>m' v. split_tokens True (pre @ s @ NUL # r) (length pre) c 0 0 = Some (m', Some (length (split_str c s), v))
           \<and> vector_tokens m' v = split_str c s"
proof -
  define u where "u = squeeze_str c s"
  define z where "z = replicate (length s - length u) NUL"
  have u: "NUL \<notin> set u" using assms squeeze_set [of c s] by (simp add: u_def)
  have d: "remove_duplicated_char (Suc (length s + length r)) (pre @ s @ NUL # r) (length pre) c
      = Some (pre @ u @ NUL # z @ r)"
    using remove_duplicated_char_block [OF assms(1), of "Suc (length s + length r)" pre r c]
    by (simp add: u_def z_def)
  obtain offs where
    o1: "split_loop (pre @ u @ NUL # z @ r) (length pre) c (Suc (count_list u c)) [length pre]
          = Some (pre @ zap c u @ NUL # z @ r, [length pre] @ offs)" and
    o2: "map (\<lambda>o'. cstr (drop o' (pre @ zap c u @ NUL # z @ r))) offs = tl (drop_last_empty (fields c u))"
    using split_loop_block [OF u assms(2), where w = "[length pre]" and cap = "Suc (count_list u c)"
        and pre = pre and r = "z @ r"] by auto
  have len: "length (drop_last_empty (fields c u)) = Suc (length offs)"
    using arg_cong [OF o2, of length] drop_last_empty_hd [of "fields c u"]
    by (cases "drop_last_empty (fields c u)") auto
  have h: "cstr (zap c u @ NUL # z @ r) = hd (drop_last_empty (fields c u))"
    by (simp add: cstr_zap [OF u] hd_fields)
  have "split_tokens True (pre @ s @ NUL # r) (length pre) c 0 0
      = Some (pre @ zap c u @ NUL # z @ r, Some (Suc (length offs), map Some (length pre # offs)))"
    using d o1 count_delims_block [OF u, of pre "z @ r" c] by (simp add: split_tokens_def)
  moreover have "vector_tokens (pre @ zap c u @ NUL # z @ r) (map Some (length pre # offs)) = split_str c s"
    using o2 h vector_tokens_Some [of "pre @ zap c u @ NUL # z @ r" 0 "length pre # offs"]
    by (simp add: split_str_def u_def [symmetric])
       (metis drop_last_empty_hd fields_not_Nil list.collapse)
  ultimately show ?thesis
    unfolding split_str_def u_def [symmetric] len by blast
qed

text \<open>The callers drop empty tokens; what is left are the non-empty fields of the input.\<close>

lemma filter_drop_last_empty:
  "filter (\<lambda>f. f \<noteq> []) (drop_last_empty fs) = filter (\<lambda>f. f \<noteq> []) fs"
  by (induction fs rule: drop_last_empty.induct) auto

lemma fields_squeeze:
  "hd (fields c (squeeze_str c s)) = hd (fields c s)
   \<and> filter (\<lambda>f. f \<noteq> []) (tl (fields c (squeeze_str c s))) = filter (\<lambda>f. f \<noteq> []) (tl (fields c s))"
proof (induction c s rule: squeeze_str.induct)
  case (1 c x y s)
  have sp: "filter P fs = (if P (hd fs) then hd fs # filter P (tl fs) else filter P (tl fs))"
    if "fs \<noteq> []" for P :: "string \<Rightarrow> bool" and fs
    using that by (cases fs) auto
  show ?case
  proof (cases "x = y \<and> x = c")
    case True
    then have "x = c" "y = c" by auto
    with "1.IH"(1) show ?thesis by simp
  next
    case False
    define a where "a = fields c (y # s)"
    define b where "b = fields c (squeeze_str c (y # s))"
    have IH: "hd b = hd a" "filter (\<lambda>f. f \<noteq> []) (tl b) = filter (\<lambda>f. f \<noteq> []) (tl a)"
      using "1.IH"(2) False by (auto simp: a_def b_def)
    have ne: "a \<noteq> []" "b \<noteq> []" by (simp_all add: a_def b_def del: fields.simps)
    have e1: "fields c (squeeze_str c (x # y # s)) = (if x = c then [] # b else (x # hd b) # tl b)"
      using False by (auto simp: b_def)
    have e2: "fields c (x # y # s) = (if x = c then [] # a else (x # hd a) # tl a)"
      by (simp only: a_def fields.simps(2) [of c x])
    show ?thesis
      unfolding e1 e2 using IH sp [OF ne(1)] sp [OF ne(2)] by auto
  qed
qed auto

lemma filter_fields_squeeze:
  "filter (\<lambda>f. f \<noteq> []) (fields c (squeeze_str c s)) = filter (\<lambda>f. f \<noteq> []) (fields c s)"
  using fields_squeeze [of c s] fields_not_Nil [of c s] fields_not_Nil [of c "squeeze_str c s"]
  by (cases "fields c s"; cases "fields c (squeeze_str c s)") auto

lemma filter_split_str: "filter (\<lambda>f. f \<noteq> []) (split_str c s) = filter (\<lambda>f. f \<noteq> []) (fields c s)"
  by (simp add: split_str_def filter_drop_last_empty filter_fields_squeeze)

lemma length_fields: "length (fields c s) = Suc (count_list s c)"
  by (induction s) auto

lemma fields_subset: "f \<in> set (fields c s) \<Longrightarrow> set f \<subseteq> set s"
proof (induction s arbitrary: f)
  case (Cons x s)
  have h: "set (hd (fields c s)) \<subseteq> set s" using Cons.IH [of "hd (fields c s)"] by simp
  have t: "g \<in> set (tl (fields c s)) \<Longrightarrow> set g \<subseteq> set s" for g
    using Cons.IH [of g] fields_not_Nil [of c s] by (metis list.set_sel(2))
  show ?case
  proof (cases "x = c")
    case True
    with Cons.prems Cons.IH [of f] show ?thesis by auto
  next
    case False
    with Cons.prems have "f = x # hd (fields c s) \<or> f \<in> set (tl (fields c s))" by auto
    then show ?thesis using h t by fastforce
  qed
qed auto

section \<open>Properties\<close>

text \<open>
  C32. The cleaning of a scalar setting, \<open>terminate_at_first_eol\<close> followed by \<open>trim\<close> on its buffer,
  stays inside the buffer and leaves the first line without surrounding white space.
\<close>

theorem clean_buffer_correct:
  assumes "NUL \<notin> set s"
  shows "\<exists>m m'. terminate_at_first_eol (s @ NUL # r) 0 = Some m \<and> trim m 0 = Some m'
    \<and> cstr m' = trim_str isspace (takeWhile (\<lambda>c. c \<noteq> LF \<and> c \<noteq> CR) s) \<and> length m' = length (s @ NUL # r)"
proof -
  obtain z where z: "length z = length s - length (first_line s)"
    and t: "terminate_at_first_eol (s @ NUL # r) 0 = Some (first_line s @ NUL # z @ r)"
    using terminate_at_first_eol_block [OF assms, of "[]" r] by auto
  have n: "NUL \<notin> set (first_line s)" using assms first_line_set by blast
  obtain y where y: "length y = length (first_line s) - length (trim_str isspace (first_line s))"
    and tr: "trim (first_line s @ NUL # z @ r) 0 = Some (trim_str isspace (first_line s) @ NUL # y @ z @ r)"
    using trim_with_block [where P = isspace, OF n isspace_NUL, of "[]" "z @ r"] by (auto simp: trim_def)
  have "NUL \<notin> set (trim_str isspace (first_line s))" using n trim_str_set by blast
  moreover have "length (first_line s) \<le> length s" by (simp add: first_line_def length_takeWhile_le)
  moreover have "first_line s = takeWhile (\<lambda>c. c \<noteq> LF \<and> c \<noteq> CR) s" by (simp add: first_line_def is_eol_def)
  ultimately show ?thesis
    using t tr y z trim_str_length [of isspace "first_line s"]
    by (intro exI [of _ "first_line s @ NUL # z @ r"] exI) (auto simp: cstr_append_NUL)
qed

theorem clean_buffer_correct_witness:
  "\<exists>m m'. terminate_at_first_eol (''  yes '' @ [CR, LF] @ ''no'' @ [NUL]) 0 = Some m \<and> trim m 0 = Some m' \<and> cstr m' = ''yes''"
  using clean_buffer_correct [of "''  yes '' @ [CR, LF] @ ''no''" "[]"]
  by (auto simp: trim_str_def rtrim_str_def isspace_def code_of_def)

text \<open>
  C33. \<open>split\<close> stays inside its buffer and its vector, and the non-empty tokens a caller reads through
  the vector are the non-empty fields between the delimiters, in order.
\<close>

theorem split_correct:
  assumes "NUL \<notin> set s" and "c \<noteq> NUL"
  shows "\<exists>m v. split_tokens True (pre @ s @ NUL # r) (length pre) c 0 0 = Some (m, Some (length (vector_tokens m v), v))
    \<and> filter (\<lambda>t. t \<noteq> []) (vector_tokens m v) = filter (\<lambda>t. t \<noteq> []) (fields c s)"
  using split_tokens_block [OF assms, of pre r] filter_split_str by metis

theorem split_correct_witness:
  "\<exists>m v. split_tokens True (''a,,bc,'' @ [NUL]) 0 (CHR '','') 0 0 = Some (m, Some (length (vector_tokens m v), v))
    \<and> filter (\<lambda>t. t \<noteq> []) (vector_tokens m v) = [''a'', ''bc'']"
  using split_correct [of "''a,,bc,''" "CHR '',''" "[]" "[]"] by simp

end
