(* ===== verification/LineReader.thy ===== *)
theory LineReader
  imports Tokens
begin

text \<open>
  \<open>read_lines\<close> of \<open>src/src/cinit/utils.c\<close>: the poll loop that cuts the byte streams of
  several descriptors into lines, and its clients \<open>log_prefixer\<close> (\<open>src/src/cinit/log.c\<close>).
  What the kernel answers (the outcome of \<open>poll\<close>, the ready descriptors, the bytes of a
  \<open>read\<close>) and the answers of the exit callback are a script; a run over a script is the
  prefix of an execution, and it is \<open>Blocked\<close> when the script ends before the loop does.
\<close>

section \<open>One descriptor\<close>

text \<open>\<open>output_read_state_t\<close>: \<open>rbuf\<close> holds the \<open>used\<close> bytes of the 4096-byte buffer.\<close>

record rstate =
  rbuf :: "char list"
  reof :: bool

definition rstate_init :: rstate where
  "rstate_init = \<lparr>rbuf = [], reof = False\<rparr>"

definition read_buf_size :: nat where
  "read_buf_size = 4096"

datatype read_result = Data "char list" | ReadEof | ReadIntr | ReadError

datatype fd_event = Readable read_result | HangUp | NotReady

text \<open>The loop that takes complete lines out of the buffer; empty lines are dropped.\<close>

function drain :: "char list \<Rightarrow> string list \<times> char list" where
  "drain b =
     (case dropWhile (\<lambda>c. \<not> is_eol c) b of
        [] \<Rightarrow> ([], b)
      | _ # rest \<Rightarrow>
          (let l = takeWhile (\<lambda>c. \<not> is_eol c) b; (ls, r) = drain rest in
           ((if l \<noteq> [] then [cstr l] else []) @ ls, r)))"
  by pat_completeness auto
termination
proof (relation "measure length", goal_cases)
  case (2 b x rest)
  then show ?case
    using length_dropWhile_le [of "\<lambda>c. \<not> is_eol c" b] by simp
qed simp

declare drain.simps [simp del]

definition flush_line :: "char list \<Rightarrow> string list" where
  "flush_line b = (if cstr b \<noteq> [] then [cstr b] else [])"

text \<open>
  One descriptor that \<open>poll\<close> reported: the lines passed to the callback, the new state and
  whether a read error ends the loop. A full buffer is flushed as a line of its own and
  nothing is read.
\<close>

fun fd_step :: "fd_event \<Rightarrow> rstate \<Rightarrow> (string list \<times> rstate \<times> bool) res" where
  "fd_step NotReady s = Ok ([], s, False)"
| "fd_step HangUp s = Ok (flush_line (rbuf s), \<lparr>rbuf = [], reof = True\<rparr>, False)"
| "fd_step (Readable r) s =
     (let max_to_read = read_buf_size - length (rbuf s) - 1 in
      if max_to_read = 0 then Ok ([cstr (rbuf s)], s\<lparr>rbuf := []\<rparr>, False)
      else (case r of
              ReadIntr \<Rightarrow> Ok ([], s, False)
            | ReadError \<Rightarrow> Ok ([], s, True)
            | ReadEof \<Rightarrow> Ok (flush_line (rbuf s), \<lparr>rbuf = [], reof = True\<rparr>, False)
            | Data d \<Rightarrow>
                if d = [] \<or> max_to_read < length d
                then Halt (Undefined ''read returned a length it cannot return'')
                else (case drain (rbuf s @ d) of (ls, r') \<Rightarrow> Ok (ls, s\<lparr>rbuf := r'\<rparr>, False))))"

section \<open>The loop over all descriptors\<close>

text \<open>
  One pass over the poll set. Descriptors that are negative or at their end are skipped;
  a read error leaves the pass at once.
\<close>

fun process_fds ::
  "nat \<Rightarrow> int list \<Rightarrow> fd_event list \<Rightarrow> rstate list \<Rightarrow> ((nat \<times> string) list \<times> rstate list \<times> bool) res" where
  "process_fds i (fd # fds) (e # es) (s # ss) =
     (if fd < 0 \<or> reof s then
        bind_res (process_fds (Suc i) fds es ss) (\<lambda>(ls, ss', err). Ok (ls, s # ss', err))
      else
        bind_res (fd_step e s) (\<lambda>(l, s', err).
          if err then Ok (map (Pair i) l, s' # ss, True)
          else bind_res (process_fds (Suc i) fds es ss) (\<lambda>(ls, ss', err').
                 Ok (map (Pair i) l @ ls, s' # ss', err'))))"
| "process_fds i _ _ ss = Ok ([], ss, False)"

text \<open>What one iteration of the loop sees; the truth values are answers of the exit callback.\<close>

datatype iteration =
    PollIntr
  | PollError
  | PollTimeout bool
  | PollReady "fd_event list" bool

datatype loop_end = Finished int | Blocked

definition all_done :: "int list \<Rightarrow> rstate list \<Rightarrow> bool" where
  "all_done fds ss \<longleftrightarrow> list_all2 (\<lambda>fd s. \<not> (fd \<ge> 0 \<and> \<not> reof s)) fds ss"

fun read_loop ::
  "bool \<Rightarrow> int list \<Rightarrow> rstate list \<Rightarrow> iteration list \<Rightarrow> ((nat \<times> string) list \<times> rstate list \<times> loop_end) res" where
  "read_loop cb fds ss [] = Ok ([], ss, Blocked)"
| "read_loop cb fds ss (PollIntr # its) = read_loop cb fds ss its"
| "read_loop cb fds ss (PollError # its) = Ok ([], ss, Finished (- 1))"
| "read_loop cb fds ss (PollTimeout b # its) =
     (if \<not> cb then Halt (AssertFailed ''exit_callback'')
      else if b then Ok ([], ss, Finished 0)
      else read_loop cb fds ss its)"
| "read_loop cb fds ss (PollReady evs b # its) =
     bind_res (process_fds 0 fds evs ss) (\<lambda>(ls, ss', err).
       if err then Ok (ls, ss', Finished (- 1))
       else if all_done fds ss' \<or> (cb \<and> b) then Ok (ls, ss', Finished 0)
       else bind_res (read_loop cb fds ss' its) (\<lambda>(ls', ss'', e). Ok (ls @ ls', ss'', e)))"

text \<open>\<open>alloc\<close>: whether \<open>calloc\<close> of the read states succeeds.\<close>

definition read_lines ::
  "bool \<Rightarrow> int list \<Rightarrow> bool \<Rightarrow> iteration list \<Rightarrow> ((nat \<times> string) list \<times> rstate list \<times> loop_end) res" where
  "read_lines alloc fds cb script =
     (if alloc then read_loop cb fds (replicate (length fds) rstate_init) script
      else Ok ([], [], Finished (- 1)))"

section \<open>Prefixing log lines\<close>

datatype std_output = STDOUT | STDERR

text \<open>\<open>log_prefixer_callback\<close>: a line that starts with three colons is logged without prefix.\<close>

definition log_prefixer_callback :: "string option \<Rightarrow> string \<Rightarrow> string" where
  "log_prefixer_callback pfx line =
     (if take 3 line = '':::'' then drop 3 line
      else (case pfx of None \<Rightarrow> [] | Some p \<Rightarrow> p) @ line) @ [LF]"

fun stream_of :: "nat \<Rightarrow> std_output" where
  "stream_of i = (if i = 0 then STDOUT else STDERR)"

definition log_prefixer ::
  "bool \<Rightarrow> string option \<Rightarrow> int \<Rightarrow> int \<Rightarrow> bool \<Rightarrow> iteration list \<Rightarrow> ((std_output \<times> string) list \<times> loop_end) res" where
  "log_prefixer alloc pfx stdout_fd stderr_fd time_to_exit script =
     bind_res (read_lines alloc [stdout_fd, stderr_fd] time_to_exit script) (\<lambda>(ls, ss, e).
       Ok (map (\<lambda>(i, l). (stream_of i, log_prefixer_callback pfx l)) ls, e))"

section \<open>The lines of a stream\<close>

fun segments :: "char list \<Rightarrow> string list" where
  "segments [] = [[]]"
| "segments (x # s) = (if is_eol x then [] # segments s
                       else (x # hd (segments s)) # tl (segments s))"

definition full_lines :: "char list \<Rightarrow> string list" where
  "full_lines s = filter (\<lambda>l. l \<noteq> []) (butlast (segments s))"

definition tail_line :: "char list \<Rightarrow> string" where
  "tail_line s = last (segments s)"

lemma segments_not_Nil [simp]: "segments s \<noteq> []"
  by (cases s) auto

lemma segments_append:
  "segments (a @ b) = butlast (segments a) @ ((last (segments a) @ hd (segments b)) # tl (segments b))"
proof (induction a)
  case (Cons x a)
  then show ?case by (cases "segments a") auto
qed simp

lemma segments_no_eol: "\<forall>c\<in>set a. \<not> is_eol c \<Longrightarrow> segments a = [a]"
  by (induction a) auto

lemma segments_line:
  "\<forall>c\<in>set l. \<not> is_eol c \<Longrightarrow> is_eol x \<Longrightarrow> segments (l @ x # r) = l # segments r"
  by (induction l) auto

lemma segments_concat: "concat (segments s) = filter (\<lambda>c. \<not> is_eol c) s"
proof (induction s)
  case (Cons x s)
  then show ?case by (cases "segments s") auto
qed simp

lemma segments_no_NUL: "NUL \<notin> set s \<Longrightarrow> l \<in> set (segments s) \<Longrightarrow> NUL \<notin> set l"
proof -
  assume "NUL \<notin> set s" "l \<in> set (segments s)"
  then have "NUL \<notin> set (concat (segments s))" by (simp add: segments_concat)
  with \<open>l \<in> set (segments s)\<close> show ?thesis by auto
qed

lemma tail_line_no_eol: "\<forall>c\<in>set (tail_line a). \<not> is_eol c"
  unfolding tail_line_def
proof (induction a)
  case (Cons x a)
  then show ?case by (cases "segments a") auto
qed simp

lemma drain_no_eol: "\<forall>c\<in>set b. \<not> is_eol c \<Longrightarrow> drain b = ([], b)"
proof -
  assume "\<forall>c\<in>set b. \<not> is_eol c"
  then have d: "dropWhile (\<lambda>c. \<not> is_eol c) b = []" by simp
  show ?thesis by (subst drain.simps) (simp only: d list.case)
qed

lemma drain_line:
  assumes "\<forall>c\<in>set l. \<not> is_eol c" and "is_eol x"
  shows "drain (l @ x # r) = ((if l \<noteq> [] then [cstr l] else []) @ fst (drain r), snd (drain r))"
proof -
  have "dropWhile (\<lambda>c. \<not> is_eol c) (l @ x # r) = x # r" "takeWhile (\<lambda>c. \<not> is_eol c) (l @ x # r) = l"
    using assms by (simp_all add: dropWhile_append2 takeWhile_append2)
  then show ?thesis by (subst drain.simps) (simp add: split_beta Let_def)
qed

lemma drain_spec: "NUL \<notin> set b \<Longrightarrow> drain b = (full_lines b, tail_line b)"
proof (induction b rule: length_induct)
  case (1 b)
  show ?case
  proof (cases "\<exists>c\<in>set b. is_eol c")
    case True
    then obtain l x r where b: "b = l @ x # r" and x: "is_eol x" and l: "\<forall>c\<in>set l. \<not> is_eol c"
      using split_list_first_prop [of b is_eol] by blast
    have "drain r = (full_lines r, tail_line r)" using 1 b by simp
    moreover have "cstr l = l" using 1 b by (intro cstr_id) auto
    ultimately show ?thesis
      using drain_line [OF l x, of r] segments_line [OF l x, of r]
      by (simp add: b full_lines_def tail_line_def)
  next
    case False
    then show ?thesis by (simp add: drain_no_eol full_lines_def tail_line_def segments_no_eol)
  qed
qed

lemma full_lines_append:
  "full_lines (a @ b) = full_lines a @ full_lines (tail_line a @ b)"
proof -
  have s: "segments (tail_line a @ b) = (tail_line a @ hd (segments b)) # tl (segments b)"
    by (simp add: segments_append segments_no_eol tail_line_no_eol)
  have "butlast (segments (a @ b)) = butlast (segments a) @ butlast (segments (tail_line a @ b))"
    unfolding s segments_append [of a b] by (simp add: butlast_append tail_line_def)
  then show ?thesis by (simp add: full_lines_def)
qed

lemma tail_line_append: "tail_line (a @ b) = tail_line (tail_line a @ b)"
proof -
  have s: "segments (tail_line a @ b) = (tail_line a @ hd (segments b)) # tl (segments b)"
    by (simp add: segments_append segments_no_eol tail_line_no_eol)
  show ?thesis
    unfolding tail_line_def [of "a @ b"] tail_line_def [of "tail_line a @ b"] s segments_append [of a b]
    by (simp add: tail_line_def)
qed


section \<open>What one descriptor's callback sees\<close>

text \<open>
  The pass over the poll set, seen from one descriptor: \<open>fd_run\<close> feeds it its own events,
  and \<open>bytes_read\<close> collects what \<open>read\<close> delivered to it.
\<close>

definition fd_visit :: "fd_event \<Rightarrow> rstate \<Rightarrow> (string list \<times> rstate \<times> bool) res" where
  "fd_visit e s = (if reof s then Ok ([], s, False) else fd_step e s)"

fun fd_run :: "rstate \<Rightarrow> fd_event list \<Rightarrow> (string list \<times> rstate \<times> bool) res" where
  "fd_run s [] = Ok ([], s, False)"
| "fd_run s (e # es) =
     bind_res (fd_visit e s) (\<lambda>(l, s', err).
       if err then Ok (l, s', True)
       else bind_res (fd_run s' es) (\<lambda>(ls, s'', err'). Ok (l @ ls, s'', err')))"

fun visit_bytes :: "fd_event \<Rightarrow> rstate \<Rightarrow> char list" where
  "visit_bytes (Readable (Data d)) s =
     (if reof s \<or> read_buf_size - length (rbuf s) - 1 = 0 then [] else d)"
| "visit_bytes _ s = []"

fun bytes_read :: "rstate \<Rightarrow> fd_event list \<Rightarrow> char list" where
  "bytes_read s [] = []"
| "bytes_read s (e # es) =
     visit_bytes e s @ (case fd_visit e s of Ok (l, s', err) \<Rightarrow> (if err then [] else bytes_read s' es) | _ \<Rightarrow> [])"

definition rstate_ok :: "rstate \<Rightarrow> bool" where
  "rstate_ok s \<longleftrightarrow> length (rbuf s) < read_buf_size \<and> (\<forall>c\<in>set (rbuf s). \<not> is_eol c) \<and> (reof s \<longrightarrow> rbuf s = [])"

lemma rstate_ok_init [simp]: "rstate_ok rstate_init"
  by (simp add: rstate_ok_def rstate_init_def read_buf_size_def)

lemma tail_line_length: "length (tail_line a) \<le> length a"
  unfolding tail_line_def
proof (induction a)
  case (Cons x s)
  then show ?case by (cases "segments s") (auto split: if_splits)
qed simp

lemma snd_drain: "(\<forall>c\<in>set (snd (drain b)). \<not> is_eol c) \<and> length (snd (drain b)) \<le> length b"
proof (induction b rule: length_induct)
  case (1 b)
  show ?case
  proof (cases "\<exists>c\<in>set b. is_eol c")
    case True
    then obtain l x r where b: "b = l @ x # r" "is_eol x" "\<forall>c\<in>set l. \<not> is_eol c"
      using split_list_first_prop [of b is_eol] by blast
    have "length r < length b" by (simp add: b)
    with 1 have "(\<forall>c\<in>set (snd (drain r)). \<not> is_eol c) \<and> length (snd (drain r)) \<le> length r" by blast
    with drain_line [OF b(3,2), of r] show ?thesis by (simp add: b(1))
  next
    case False
    then show ?thesis by (simp add: drain_no_eol)
  qed
qed

text \<open>The buffer never overflows: the byte for the terminator is always left free.\<close>

lemma fd_visit_ok: "rstate_ok s \<Longrightarrow> fd_visit e s = Ok (l, s', err) \<Longrightarrow> rstate_ok s'"
proof (cases e)
  case (Readable r)
  assume s: "rstate_ok s" and v: "fd_visit e s = Ok (l, s', err)"
  show ?thesis
  proof (cases r)
    case (Data d)
    then show ?thesis
      using s v Readable snd_drain [of "rbuf s @ d"]
      by (auto simp: fd_visit_def rstate_ok_def read_buf_size_def Let_def split: if_splits prod.splits)
  qed (use s v Readable in \<open>auto simp: fd_visit_def rstate_ok_def read_buf_size_def Let_def split: if_splits\<close>)
qed (auto simp: fd_visit_def rstate_ok_def read_buf_size_def split: if_splits)

lemma fd_run_ok: "rstate_ok s \<Longrightarrow> fd_run s es = Ok (ls, s', err) \<Longrightarrow> rstate_ok s'"
  by (induction s es arbitrary: ls rule: fd_run.induct)
    (auto simp: bind_res_Ok dest: fd_visit_ok split: if_splits)

lemma bytes_read_Cons:
  "fd_visit e s = Ok (l, s', False) \<Longrightarrow> bytes_read s (e # es) = visit_bytes e s @ bytes_read s' es"
  by simp

lemma concat_butlast_last: "xs \<noteq> [] \<Longrightarrow> concat (butlast xs) @ last xs = concat xs"
  by (induction xs) auto

lemma concat_full_lines: "concat (full_lines b) @ tail_line b = filter (\<lambda>c. \<not> is_eol c) b"
proof -
  have "concat (filter (\<lambda>l. l \<noteq> []) ls) = concat ls" for ls :: "string list"
    by (induction ls) auto
  then show ?thesis
    by (simp add: full_lines_def tail_line_def concat_butlast_last segments_concat)
qed

lemma filter_eol_rbuf: "rstate_ok s \<Longrightarrow> filter (\<lambda>c. \<not> is_eol c) (rbuf s) = rbuf s"
  by (simp add: rstate_ok_def)

text \<open>
  No byte is lost, duplicated or reordered, however long the lines are: what was passed to
  the callback, followed by what is still buffered, is the stream without its line ends.
\<close>

lemma fd_visit_conserves:
  assumes "rstate_ok s" and "NUL \<notin> set (rbuf s @ visit_bytes e s)" and "fd_visit e s = Ok (l, s', err)"
  shows "concat l @ rbuf s' = filter (\<lambda>c. \<not> is_eol c) (rbuf s @ visit_bytes e s)"
proof (cases e)
  case (Readable r)
  have c: "cstr (rbuf s) = rbuf s" using assms by (intro cstr_id) auto
  show ?thesis
  proof (cases r)
    case (Data d)
    show ?thesis
    proof (cases "reof s \<or> read_buf_size - length (rbuf s) - 1 = 0")
      case True
      then show ?thesis
        using assms Readable Data c filter_eol_rbuf [of s]
        by (auto simp: fd_visit_def Let_def split: if_splits)
    next
      case False
      then have "NUL \<notin> set (rbuf s @ d)" using assms Readable Data by simp
      then show ?thesis
        using False assms Readable Data drain_spec [of "rbuf s @ d"] concat_full_lines [of "rbuf s @ d"]
        by (auto simp: fd_visit_def Let_def split: if_splits)
    qed
  qed (use assms Readable c filter_eol_rbuf [of s] in
      \<open>auto simp: fd_visit_def Let_def flush_line_def split: if_splits\<close>)
next
  case HangUp
  have c: "cstr (rbuf s) = rbuf s" using assms by (intro cstr_id) auto
  with HangUp assms filter_eol_rbuf [of s] show ?thesis
    by (auto simp: fd_visit_def flush_line_def split: if_splits)
next
  case NotReady
  with assms filter_eol_rbuf [of s] show ?thesis by (auto simp: fd_visit_def split: if_splits)
qed

lemma fd_visit_no_NUL:
  assumes "rstate_ok s" and "NUL \<notin> set (rbuf s @ visit_bytes e s)" and "fd_visit e s = Ok (l, s', err)"
  shows "NUL \<notin> set (rbuf s')"
proof -
  have "set (rbuf s') \<subseteq> set (concat l @ rbuf s')" by simp
  also have "\<dots> \<subseteq> set (rbuf s @ visit_bytes e s)"
    unfolding fd_visit_conserves [OF assms] by auto
  finally show ?thesis using assms(2) by blast
qed

lemma fd_run_conserves:
  assumes "rstate_ok s" and "NUL \<notin> set (rbuf s @ bytes_read s es)" and "fd_run s es = Ok (ls, s', False)"
  shows "concat ls @ rbuf s' = filter (\<lambda>c. \<not> is_eol c) (rbuf s @ bytes_read s es)"
  using assms
proof (induction es arbitrary: s ls)
  case Nil
  then show ?case by (simp add: filter_eol_rbuf)
next
  case (Cons e es)
  then obtain l s1 ls1 where v: "fd_visit e s = Ok (l, s1, False)"
    and r: "fd_run s1 es = Ok (ls1, s', False)" and ls: "ls = l @ ls1"
    by (auto simp: bind_res_Ok split: if_splits)
  have b: "bytes_read s (e # es) = visit_bytes e s @ bytes_read s1 es" using v by simp
  have ok: "rstate_ok s1" using Cons.prems(1) v by (rule fd_visit_ok)
  have n: "NUL \<notin> set (rbuf s @ visit_bytes e s)" using Cons.prems(2) unfolding b by simp
  have c1: "concat l @ rbuf s1 = filter (\<lambda>c. \<not> is_eol c) (rbuf s @ visit_bytes e s)"
    using fd_visit_conserves [OF Cons.prems(1) n v] .
  have n1: "NUL \<notin> set (rbuf s1 @ bytes_read s1 es)"
    using fd_visit_no_NUL [OF Cons.prems(1) n v] Cons.prems(2) unfolding b by simp
  have "concat ls1 @ rbuf s' = rbuf s1 @ filter (\<lambda>c. \<not> is_eol c) (bytes_read s1 es)"
    using Cons.IH [OF ok n1 r] filter_eol_rbuf [OF ok] by simp
  then have "concat ls @ rbuf s' = concat l @ rbuf s1 @ filter (\<lambda>c. \<not> is_eol c) (bytes_read s1 es)"
    by (simp add: ls)
  also have "\<dots> = filter (\<lambda>c. \<not> is_eol c) (rbuf s @ visit_bytes e s) @ filter (\<lambda>c. \<not> is_eol c) (bytes_read s1 es)"
    using c1 by (metis append_assoc)
  finally show ?case unfolding b by simp
qed


text \<open>
  When every line of the stream fits in the buffer, the lines passed to the callback are
  the lines of the stream, whatever the sizes of the individual reads were.
\<close>

definition short_lines :: "char list \<Rightarrow> bool" where
  "short_lines b \<longleftrightarrow> list_all (\<lambda>l. length l < read_buf_size - 1) (segments b)"

definition expected_lines :: "bool \<Rightarrow> char list \<Rightarrow> string list" where
  "expected_lines eof b = (if eof then filter (\<lambda>l. l \<noteq> []) (segments b) else full_lines b)"

lemma segments_tail_step:
  "segments (a @ b) = butlast (segments a) @ segments (tail_line a @ b)"
proof -
  have "segments (tail_line a @ b) = (tail_line a @ hd (segments b)) # tl (segments b)"
    by (simp add: segments_append segments_no_eol tail_line_no_eol)
  then show ?thesis by (simp add: segments_append [of a b] tail_line_def)
qed

lemma rbuf_segment: "rstate_ok s \<Longrightarrow> segments (rbuf s) = [rbuf s]"
  by (simp add: rstate_ok_def segments_no_eol)

lemma short_lines_room:
  assumes "rstate_ok s" and "short_lines (rbuf s @ b)"
  shows "length (rbuf s) < read_buf_size - 1"
proof -
  have "segments (rbuf s @ b) = (rbuf s @ hd (segments b)) # tl (segments b)"
    using rbuf_segment [OF assms(1)] by (simp add: segments_append)
  then show ?thesis using assms(2) by (simp add: short_lines_def)
qed

text \<open>One visit under that hypothesis: it leaves the stream's tail in the buffer.\<close>

lemma fd_visit_lines:
  assumes "rstate_ok s" and "NUL \<notin> set (rbuf s @ visit_bytes e s)"
    and "short_lines (rbuf s @ visit_bytes e s @ b)" and "fd_visit e s = Ok (l, s', err)"
  shows "l = expected_lines (reof s' \<and> \<not> reof s) (rbuf s @ visit_bytes e s)
         \<and> rbuf s' = (if reof s' then [] else tail_line (rbuf s @ visit_bytes e s))
         \<and> (reof s' \<longrightarrow> visit_bytes e s = [])"
proof -
  have room: "length (rbuf s) < read_buf_size - 1" by (rule short_lines_room [OF assms(1,3)])
  have c: "cstr (rbuf s) = rbuf s" using assms(2) by (intro cstr_id) auto
  have seg: "segments (rbuf s) = [rbuf s]" by (rule rbuf_segment [OF assms(1)])
  have e0: "reof s \<Longrightarrow> rbuf s = []" using assms(1) by (simp add: rstate_ok_def)
  show ?thesis
  proof (cases e)
    case (Readable r)
    then show ?thesis
    proof (cases r)
      case (Data d)
      then show ?thesis
        using assms(2,4) room seg e0 Readable drain_spec [of "rbuf s @ d"]
        by (auto simp: fd_visit_def expected_lines_def full_lines_def Let_def tail_line_def split: if_splits)
    qed (use assms(4) room seg e0 c in
        \<open>auto simp: fd_visit_def expected_lines_def full_lines_def tail_line_def flush_line_def Let_def split: if_splits\<close>)
  qed (use assms(4) seg e0 c in
      \<open>auto simp: fd_visit_def expected_lines_def full_lines_def tail_line_def flush_line_def split: if_splits\<close>)
qed

lemma fd_run_eof: "reof s \<Longrightarrow> fd_run s es = Ok ([], s, False) \<and> bytes_read s es = []"
proof (induction es)
  case (Cons e es)
  moreover have "visit_bytes e s = []"
    using Cons.prems by (cases "(e, s)" rule: visit_bytes.cases) auto
  ultimately show ?case by (simp add: fd_visit_def)
qed simp

lemma fd_run_lines:
  assumes "rstate_ok s" and "\<not> reof s" and "NUL \<notin> set (rbuf s @ bytes_read s es)"
    and "short_lines (rbuf s @ bytes_read s es)" and "fd_run s es = Ok (ls, s', False)"
  shows "ls = expected_lines (reof s') (rbuf s @ bytes_read s es)"
  using assms
proof (induction es arbitrary: s ls)
  case Nil
  then show ?case by (simp add: expected_lines_def full_lines_def rbuf_segment)
next
  case (Cons e es)
  then obtain l s1 ls1 where v: "fd_visit e s = Ok (l, s1, False)"
    and r: "fd_run s1 es = Ok (ls1, s', False)" and ls: "ls = l @ ls1"
    by (auto simp: bind_res_Ok split: if_splits)
  have b: "bytes_read s (e # es) = visit_bytes e s @ bytes_read s1 es" using v by simp
  have ok: "rstate_ok s1" using Cons.prems(1) v by (rule fd_visit_ok)
  have n: "NUL \<notin> set (rbuf s @ visit_bytes e s)" using Cons.prems(3) unfolding b by simp
  have sh: "short_lines (rbuf s @ visit_bytes e s @ bytes_read s1 es)" using Cons.prems(4) unfolding b by simp
  note V = fd_visit_lines [OF Cons.prems(1) n sh v]
  show ?case
  proof (cases "reof s1")
    case True
    with fd_run_eof [of s1 es] r have "ls1 = []" "s' = s1" "bytes_read s1 es = []" by auto
    with V True Cons.prems(2) show ?thesis unfolding b by (simp add: ls)
  next
    case False
    define a where "a = rbuf s @ visit_bytes e s"
    have t: "rbuf s1 = tail_line a" "l = full_lines a"
      using V False Cons.prems(2) by (auto simp: a_def expected_lines_def)
    have n1: "NUL \<notin> set (rbuf s1 @ bytes_read s1 es)"
      using fd_visit_no_NUL [OF Cons.prems(1) n v] Cons.prems(3) unfolding b by simp
    have "segments (a @ bytes_read s1 es) = butlast (segments a) @ segments (rbuf s1 @ bytes_read s1 es)"
      unfolding t by (rule segments_tail_step)
    moreover from this have "short_lines (rbuf s1 @ bytes_read s1 es)"
      using sh by (simp add: short_lines_def a_def)
    then have "ls1 = expected_lines (reof s') (rbuf s1 @ bytes_read s1 es)"
      using Cons.IH [OF ok False n1 _ r] by blast
    ultimately have "ls = expected_lines (reof s') (a @ bytes_read s1 es)"
      using full_lines_append [of a "bytes_read s1 es"]
      by (simp add: ls t expected_lines_def full_lines_def [of a])
    then show ?thesis unfolding b a_def by simp
  qed
qed

section \<open>From one descriptor to the loop\<close>

definition event_at :: "fd_event list \<Rightarrow> nat \<Rightarrow> fd_event" where
  "event_at es k = (if k < length es then es ! k else NotReady)"

fun events_of :: "nat \<Rightarrow> iteration list \<Rightarrow> fd_event list" where
  "events_of k [] = []"
| "events_of k (PollReady evs b # its) = event_at evs k # events_of k its"
| "events_of k (_ # its) = events_of k its"

definition lines_of :: "nat \<Rightarrow> (nat \<times> string) list \<Rightarrow> string list" where
  "lines_of k ls = map snd (filter (\<lambda>(i, l). i = k) ls)"

lemma lines_of_append [simp]: "lines_of k (a @ b) = lines_of k a @ lines_of k b"
  by (simp add: lines_of_def)

lemma lines_of_map: "lines_of k (map (Pair i) l) = (if i = k then l else [])"
  by (induction l) (auto simp: lines_of_def)

lemma process_fds_index: "process_fds i fds es ss = Ok (ls, ss', err) \<Longrightarrow> (j, l) \<in> set ls \<Longrightarrow> i \<le> j"
proof (induction i fds es ss arbitrary: ls ss' err rule: process_fds.induct)
  case (1 i fd fds e es s ss)
  show ?case
  proof (cases "fd < 0 \<or> reof s")
    case True
    with "1.prems" obtain ss2 where "process_fds (Suc i) fds es ss = Ok (ls, ss2, err)"
      by (auto simp: bind_res_Ok)
    with "1.IH"(1) [OF True] "1.prems"(2) show ?thesis by fastforce
  next
    case False
    with "1.prems"(1) obtain l1 s1 e1 where f: "fd_step e s = Ok (l1, s1, e1)"
      by (auto simp: bind_res_Ok)
    show ?thesis
    proof (cases e1)
      case True
      with False f "1.prems" show ?thesis by auto
    next
      case e1: False
      with False f "1.prems" obtain ls2 ss2 where p: "process_fds (Suc i) fds es ss = Ok (ls2, ss2, err)"
        and "ls = map (Pair i) l1 @ ls2"
        by (auto simp: bind_res_Ok)
      with "1.IH"(2) [OF False e1 p] "1.prems"(2) show ?thesis by fastforce
    qed
  qed
qed auto

lemma lines_of_out: "(\<And>j l. (j, l) \<in> set ls \<Longrightarrow> k < j) \<Longrightarrow> lines_of k ls = []"
  by (induction ls) (fastforce simp: lines_of_def)+

lemma process_fds_length: "process_fds i fds es ss = Ok (ls, ss', err) \<Longrightarrow> length ss' = length ss"
  by (induction i fds es ss arbitrary: ls ss' err rule: process_fds.induct)
    (auto simp: bind_res_Ok split: if_splits)

lemma process_fds_visit:
  assumes "process_fds i fds es ss = Ok (ls, ss', False)" and "length ss = length fds"
    and "k < length fds" and "fds ! k \<ge> 0"
  shows "fd_visit (event_at es k) (ss ! k) = Ok (lines_of (i + k) ls, ss' ! k, False)"
  using assms
proof (induction i fds es ss arbitrary: ls ss' k rule: process_fds.induct)
  case (1 i fd fds e es s ss)
  have out: "process_fds (Suc i) fds es ss = Ok (ls2, ss2, False) \<Longrightarrow> lines_of i ls2 = []" for ls2 ss2
    by (rule lines_of_out) (auto dest: process_fds_index)
  have ev: "event_at (e # es) (Suc n) = event_at es n" for n by (simp add: event_at_def)
  show ?case
  proof (cases "fd < 0 \<or> reof s")
    case True
    with "1.prems" obtain ss2 where p: "process_fds (Suc i) fds es ss = Ok (ls, ss2, False)"
      and ss': "ss' = s # ss2" by (auto simp: bind_res_Ok)
    show ?thesis
    proof (cases k)
      case 0
      with True "1.prems" out [OF p] show ?thesis by (simp add: ss' fd_visit_def)
    next
      case (Suc n)
      with "1.IH"(1) [OF True p] "1.prems" show ?thesis by (simp add: ss' ev)
    qed
  next
    case False
    with "1.prems" obtain l s1 ls2 ss2 where f: "fd_step e s = Ok (l, s1, False)"
      and p: "process_fds (Suc i) fds es ss = Ok (ls2, ss2, False)"
      and r: "ss' = s1 # ss2" "ls = map (Pair i) l @ ls2"
      by (auto simp: bind_res_Ok split: if_splits)
    show ?thesis
    proof (cases k)
      case 0
      with False f out [OF p] show ?thesis
        by (simp add: r fd_visit_def lines_of_map event_at_def)
    next
      case (Suc n)
      with "1.IH"(2) [OF False _ p, of False n] f "1.prems" show ?thesis
        by (simp add: r ev lines_of_map)
    qed
  qed
qed (auto simp: event_at_def fd_visit_def lines_of_def split: nat.splits)

lemma read_loop_fd:
  assumes "read_loop cb fds ss script = Ok (ls, ss', e)" and "e \<noteq> Finished (- 1)"
    and "length ss = length fds" and "k < length fds" and "fds ! k \<ge> 0"
  shows "\<exists>n. fd_run (ss ! k) (take n (events_of k script)) = Ok (lines_of k ls, ss' ! k, False)"
  using assms
proof (induction cb fds ss script arbitrary: ls rule: read_loop.induct)
  case (1 cb fds ss)
  then show ?case by (simp add: lines_of_def)
next
  case (5 cb fds ss evs b its)
  from "5.prems" obtain ls1 ss1 where p: "process_fds 0 fds evs ss = Ok (ls1, ss1, False)"
    by (auto simp: bind_res_Ok split: if_splits)
  have v: "fd_visit (event_at evs k) (ss ! k) = Ok (lines_of k ls1, ss1 ! k, False)"
    using process_fds_visit [OF p] "5.prems" by simp
  have len: "length ss1 = length fds" using process_fds_length [OF p] "5.prems" by simp
  show ?case
  proof (cases "all_done fds ss1 \<or> (cb \<and> b)")
    case True
    with p v "5.prems" show ?thesis by (intro exI [of _ 1]) (auto simp: bind_res_Ok)
  next
    case False
    with p "5.prems" obtain ls2 where r: "read_loop cb fds ss1 its = Ok (ls2, ss', e)"
      and ls: "ls = ls1 @ ls2" by (auto simp: bind_res_Ok)
    obtain n where "fd_run (ss1 ! k) (take n (events_of k its)) = Ok (lines_of k ls2, ss' ! k, False)"
      using "5.IH" [OF _ False r, of False] len "5.prems" by auto
    with v show ?thesis by (intro exI [of _ "Suc n"]) (simp add: ls)
  qed
next
  case (4 cb fds ss b its)
  show ?case
  proof (cases b)
    case True
    with "4.prems" show ?thesis
      by (intro exI [of _ 0]) (auto simp: lines_of_def split: if_splits)
  next
    case False
    with 4 show ?thesis by (auto split: if_splits)
  qed
qed (auto simp: lines_of_def)

lemma read_loop_done:
  "read_loop False fds ss script = Ok (ls, ss', Finished 0) \<Longrightarrow> all_done fds ss'"
  by (induction "False" fds ss script arbitrary: ls rule: read_loop.induct)
    (auto simp: bind_res_Ok split: if_splits)

lemma all_done_eof:
  "all_done fds ss \<Longrightarrow> k < length fds \<Longrightarrow> fds ! k \<ge> 0 \<Longrightarrow> reof (ss ! k)"
  by (auto simp: all_done_def list_all2_conv_all_nth)

lemma fd_run_append:
  assumes "fd_run s a = Ok (ls, s', False)"
  shows "fd_run s (a @ b) = bind_res (fd_run s' b) (\<lambda>(ls', s'', err). Ok (ls @ ls', s'', err))"
    and "bytes_read s (a @ b) = bytes_read s a @ bytes_read s' b"
  using assms
proof (induction a arbitrary: s ls)
  case Nil
  { case 1 then show ?case by (cases "fd_run s' b") auto }
  { case 2 then show ?case by simp }
next
  case (Cons e a)
  { case 1
    then obtain l s1 ls1 where v: "fd_visit e s = Ok (l, s1, False)"
      and r: "fd_run s1 a = Ok (ls1, s', False)" and ls: "ls = l @ ls1"
      by (auto simp: bind_res_Ok split: if_splits)
    from v Cons.IH(1) [OF r] show ?case by (cases "fd_run s' b") (auto simp: ls) }
  { case 2
    then obtain l s1 ls1 where v: "fd_visit e s = Ok (l, s1, False)"
      and r: "fd_run s1 a = Ok (ls1, s', False)" and ls: "ls = l @ ls1"
      by (auto simp: bind_res_Ok split: if_splits)
    from v Cons.IH(2) [OF r] show ?case by simp }
qed

text \<open>
  A loop that ended normally without an exit callback has read every descriptor to its end,
  so each descriptor's run covers all of its events.
\<close>

lemma read_lines_fd:
  assumes "read_lines alloc fds False script = Ok (ls, ss, Finished 0)"
    and "k < length fds" and "fds ! k \<ge> 0"
  shows "fd_run rstate_init (events_of k script) = Ok (lines_of k ls, ss ! k, False) \<and> reof (ss ! k)"
proof -
  have l: "read_loop False fds (replicate (length fds) rstate_init) script = Ok (ls, ss, Finished 0)"
    using assms(1) by (auto simp: read_lines_def split: if_splits)
  have eof: "reof (ss ! k)" using all_done_eof [OF read_loop_done [OF l] assms(2,3)] .
  obtain n where n: "fd_run rstate_init (take n (events_of k script)) = Ok (lines_of k ls, ss ! k, False)"
    using read_loop_fd [OF l _ _ assms(2,3)] assms(2) by auto
  have "fd_run rstate_init (take n (events_of k script) @ drop n (events_of k script))
      = Ok (lines_of k ls, ss ! k, False)"
    using fd_run_append(1) [OF n, of "drop n (events_of k script)"] fd_run_eof [OF eof] by simp
  with eof show ?thesis by simp
qed

text \<open>A run of the loop: two descriptors, an interrupted \<open>poll\<close>, a line that arrives in two pieces.\<close>

definition sample_script :: "iteration list" where
  "sample_script =
     [PollReady [Readable (Data (''a'')), NotReady] False, PollIntr,
      PollReady [Readable (Data (''b'' @ [LF] @ ''c'')), Readable (Data (''x'' @ [CR, LF]))] False,
      PollReady [HangUp, HangUp] False]"

lemma sample_run:
  "read_lines True [3, 4] False sample_script
   = Ok ([(0, ''ab''), (1, ''x''), (0, ''c'')], [\<lparr>rbuf = [], reof = True\<rparr>, \<lparr>rbuf = [], reof = True\<rparr>], Finished 0)"
  by code_simp

lemma sample_bytes: "bytes_read rstate_init (events_of 0 sample_script) = ''ab'' @ [LF] @ ''c''"
  by code_simp

section \<open>Properties\<close>

text \<open>
  C22. When \<open>read_lines\<close> returns success, no byte of a descriptor was lost, duplicated or moved:
  the lines handed to the callback for it, joined, are the bytes it delivered without the line ends.
\<close>

theorem read_lines_conserves_bytes:
  assumes "read_lines alloc fds False script = Ok (ls, ss, Finished 0)" and "k < length fds" and "fds ! k \<ge> 0"
    and "NUL \<notin> set (bytes_read rstate_init (events_of k script))"
  shows "concat (lines_of k ls) = filter (\<lambda>c. c \<noteq> LF \<and> c \<noteq> CR) (bytes_read rstate_init (events_of k script))"
proof -
  have r: "fd_run rstate_init (events_of k script) = Ok (lines_of k ls, ss ! k, False)" "reof (ss ! k)"
    using read_lines_fd [OF assms(1-3)] by auto
  then have "rbuf (ss ! k) = []"
    using fd_run_ok [OF rstate_ok_init r(1)] by (simp add: rstate_ok_def)
  then show ?thesis
    using fd_run_conserves [OF rstate_ok_init _ r(1)] assms(4)
    by (simp add: rstate_init_def is_eol_def)
qed

theorem read_lines_conserves_bytes_witness:
  "concat (lines_of 0 [(0, ''ab''), (1, ''x''), (0, ''c'')]) = ''abc''"
  using read_lines_conserves_bytes [of True "[3, 4]" sample_script "[(0, ''ab''), (1, ''x''), (0, ''c'')]"
      "[\<lparr>rbuf = [], reof = True\<rparr>, \<lparr>rbuf = [], reof = True\<rparr>]" 0, OF sample_run]
  by (simp add: sample_bytes)

text \<open>
  C9. When moreover every line fits in the buffer, the lines handed to the callback are the
  non-empty lines of the stream, whatever the sizes of the reads and the order of the descriptors.
\<close>

theorem read_lines_exact:
  assumes "read_lines alloc fds False script = Ok (ls, ss, Finished 0)" and "k < length fds" and "fds ! k \<ge> 0"
    and "NUL \<notin> set (bytes_read rstate_init (events_of k script))"
    and "short_lines (bytes_read rstate_init (events_of k script))"
  shows "lines_of k ls = filter (\<lambda>l. l \<noteq> []) (segments (bytes_read rstate_init (events_of k script)))"
proof -
  have r: "fd_run rstate_init (events_of k script) = Ok (lines_of k ls, ss ! k, False)" "reof (ss ! k)"
    using read_lines_fd [OF assms(1-3)] by auto
  then show ?thesis
    using fd_run_lines [OF rstate_ok_init _ _ _ r(1)] assms(4,5)
    by (simp add: rstate_init_def expected_lines_def)
qed

theorem read_lines_exact_witness:
  "lines_of 0 [(0, ''ab''), (1, ''x''), (0, ''c'')] = [''ab'', ''c'']"
  using read_lines_exact [of True "[3, 4]" sample_script "[(0, ''ab''), (1, ''x''), (0, ''c'')]"
      "[\<lparr>rbuf = [], reof = True\<rparr>, \<lparr>rbuf = [], reof = True\<rparr>]" 0, OF sample_run]
  by (simp add: sample_bytes short_lines_def read_buf_size_def is_eol_def)

end
