(* ===== verification/Exec.thy ===== *)
theory Exec
  imports LineReader "HOL-Library.Multiset"
begin

text \<open>
  Running helper programs: \<open>src/src/cinit/exec.c\<close>, and the output collector
  \<open>process_line\<close> of \<open>src/src/cinit/utils.c\<close>. The answers of \<open>pipe\<close>, \<open>fork\<close>,
  \<open>waitpid\<close>, and the script of the line reader are parameters.
\<close>

section \<open>Exit codes\<close>

datatype wstatus = WExited int | WSignaled int | WOther

datatype wait_answer = WaitFailed | WaitStatus wstatus

text \<open>The return value, from the reader's result and the status of the child.\<close>

definition exec_retval :: "int \<Rightarrow> wait_answer \<Rightarrow> int" where
  "exec_retval retval w =
     (case w of
        WaitFailed \<Rightarrow> - 1
      | WaitStatus status \<Rightarrow>
          (if retval = 0 then
             (case status of WExited c \<Rightarrow> c | WSignaled sig \<Rightarrow> 128 + sig | WOther \<Rightarrow> - 1)
           else - 1))"

section \<open>Arguments\<close>

definition max_args :: nat where
  "max_args = 128"

text \<open>The loop over \<open>va_arg\<close>: at most \<open>MAX_ARGS\<close> arguments, up to the first \<open>NULL\<close>.\<close>

definition build_argv :: "string option list \<Rightarrow> string list" where
  "build_argv args = map the (takeWhile (\<lambda>a. a \<noteq> None) (take max_args args))"

section \<open>The child\<close>

datatype child_end = ChildExit int | ChildExec string "string list"

record child_env =
  ce_open_null :: bool    \<comment> \<open>\<open>open("/dev/null")\<close> succeeds\<close>
  ce_dup_out :: bool      \<comment> \<open>\<open>dup2 (_, STDOUT_FILENO)\<close> succeeds\<close>
  ce_dup_err :: bool
  ce_exec :: bool         \<comment> \<open>\<open>execve\<close> succeeds\<close>

definition exec_child :: "child_env \<Rightarrow> bool \<Rightarrow> string \<Rightarrow> string list \<Rightarrow> child_end" where
  "exec_child env disable_output cmd argv =
     (if disable_output \<and> \<not> ce_open_null env then ChildExit 126
      else if \<not> ce_dup_out env then ChildExit 126
      else if \<not> ce_dup_err env then ChildExit 126
      else if ce_exec env then ChildExec cmd argv else ChildExit 126)"

section \<open>The parent\<close>

record exec_env =
  ee_pipe_out :: "(int \<times> int) option"   \<comment> \<open>read and write end, if \<open>pipe\<close> succeeds\<close>
  ee_pipe_err :: "(int \<times> int) option"
  ee_fork :: int
  ee_alloc :: bool
  ee_script :: "iteration list"
  ee_wait :: wait_answer

text \<open>What a call did: its value (\<open>None\<close> while it is still reading), lines, descriptors.\<close>

record exec_result =
  er_ret :: "int option"
  er_lines :: "(std_output \<times> string) list"
  er_opened :: "int list"
  er_closed :: "int list"

definition failed :: "int list \<Rightarrow> int list \<Rightarrow> exec_result" where
  "failed opened closed = \<lparr>er_ret = Some (- 1), er_lines = [], er_opened = opened, er_closed = closed\<rparr>"

text \<open>\<open>process_line\<close> of \<open>exec.c\<close>: the descriptor selects the stream.\<close>

definition tag_lines :: "(nat \<times> string) list \<Rightarrow> (std_output \<times> string) list" where
  "tag_lines ls = map (\<lambda>(i, l). (stream_of i, l)) ls"

text \<open>
  The end of both calls in the parent: the write ends are closed before reading, the read
  ends after it, and then the child is waited for.
\<close>

definition finish_exec ::
  "int \<times> int \<Rightarrow> int \<times> int \<Rightarrow> (std_output \<times> string) list \<Rightarrow> loop_end \<Rightarrow> wait_answer \<Rightarrow> exec_result" where
  "finish_exec po pe ls fin w =
     (case fin of
        Blocked \<Rightarrow> \<lparr>er_ret = None, er_lines = ls,
                    er_opened = [fst po, snd po, fst pe, snd pe], er_closed = [snd po, snd pe]\<rparr>
      | Finished r \<Rightarrow> \<lparr>er_ret = Some (exec_retval r w), er_lines = ls,
                       er_opened = [fst po, snd po, fst pe, snd pe],
                       er_closed = [snd po, snd pe, fst po, fst pe]\<rparr>)"

definition exec_cmd_with_line_callback :: "exec_env \<Rightarrow> exec_result res" where
  "exec_cmd_with_line_callback env =
     (case ee_pipe_out env of
        None \<Rightarrow> Ok (failed [] [])
      | Some po \<Rightarrow>
     (case ee_pipe_err env of
        None \<Rightarrow> Ok (failed [fst po, snd po] [fst po, snd po])
      | Some pe \<Rightarrow>
     (if ee_fork env < 0
      then Ok (failed [fst po, snd po, fst pe, snd pe] [fst po, snd po, fst pe, snd pe])
      else bind_res (read_lines (ee_alloc env) [fst po, fst pe] False (ee_script env)) (\<lambda>(ls, ss, fin).
             Ok (finish_exec po pe (tag_lines ls) fin (ee_wait env))))))"

definition exec_cmd :: "exec_env \<Rightarrow> bool \<Rightarrow> string option \<Rightarrow> exec_result res" where
  "exec_cmd env disable_output output_prefix =
     (if disable_output then
        (if ee_fork env < 0 then Ok (failed [] [])
         else Ok \<lparr>er_ret = Some (exec_retval 0 (ee_wait env)), er_lines = [], er_opened = [], er_closed = []\<rparr>)
      else
     (case ee_pipe_out env of
        None \<Rightarrow> Ok (failed [] [])
      | Some po \<Rightarrow>
     (case ee_pipe_err env of
        None \<Rightarrow> Ok (failed [fst po, snd po] [fst po, snd po])
      | Some pe \<Rightarrow>
     (if ee_fork env < 0
      then Ok (failed [fst po, snd po, fst pe, snd pe] [fst po, snd po, fst pe, snd pe])
      else bind_res (log_prefixer (ee_alloc env) output_prefix (fst po) (fst pe) False (ee_script env))
             (\<lambda>(ls, fin). Ok (finish_exec po pe ls fin (ee_wait env)))))))"

definition returned :: "exec_result \<Rightarrow> bool" where
  "returned r \<longleftrightarrow> er_ret r \<noteq> None"

lemma finish_exec_closes:
  "returned (finish_exec po pe ls fin w) \<Longrightarrow>
   mset (er_closed (finish_exec po pe ls fin w)) = mset (er_opened (finish_exec po pe ls fin w))"
  by (cases fin) (auto simp: finish_exec_def returned_def)

lemma exec_retval_simps [simp]:
  "exec_retval r WaitFailed = - 1"
  "exec_retval 0 (WaitStatus (WExited c)) = c"
  "exec_retval 0 (WaitStatus (WSignaled sig)) = 128 + sig"
  "exec_retval (- 1) w = - 1"
  by (auto simp: exec_retval_def split: wait_answer.splits wstatus.splits)

text \<open>Once either call returns, every descriptor it opened is closed again.\<close>

lemma exec_cmd_with_line_callback_closes:
  "exec_cmd_with_line_callback env = Ok r \<Longrightarrow> returned r \<Longrightarrow> mset (er_closed r) = mset (er_opened r)"
  by (auto simp: exec_cmd_with_line_callback_def failed_def bind_res_Ok finish_exec_closes
      split: option.splits if_splits)

lemma exec_cmd_closes:
  "exec_cmd env quiet pfx = Ok r \<Longrightarrow> returned r \<Longrightarrow> mset (er_closed r) = mset (er_opened r)"
  by (auto simp: exec_cmd_def failed_def bind_res_Ok finish_exec_closes split: option.splits if_splits)

section \<open>Collecting the output of a program\<close>

text \<open>
  \<open>process_cmd_output_ctx_t\<close>. A buffer is absent, holds bytes nobody has written yet, or
  holds a C string; \<open>bufsize\<close> is its size.
\<close>

datatype cbuf = NoBuf | Unwritten | Str string

datatype errcode = E2BIG | ENOMEM | ENOBUFS

record outctx =
  oc_err :: "errcode option"
  oc_lines :: nat
  oc_alloc :: bool
  oc_buf :: cbuf
  oc_size :: nat

definition MAX_MEMORY_FOR_CMD_OUTPUT :: nat where
  "MAX_MEMORY_FOR_CMD_OUTPUT = 1048576"

text \<open>\<open>strcat (buf, s)\<close>: the destination has to be a string with room for \<open>s\<close>.\<close>

definition strcat :: "nat \<Rightarrow> cbuf \<Rightarrow> string \<Rightarrow> cbuf res" where
  "strcat cap b s =
     (case b of
        Str d \<Rightarrow> if length d + length s < cap then Ok (Str (d @ s))
                 else Halt (Undefined ''strcat behind the end of the buffer'')
      | _ \<Rightarrow> Halt (Undefined ''strcat without a string''))"

definition append_line :: "outctx \<Rightarrow> string \<Rightarrow> outctx res" where
  "append_line ctx line =
     bind_res (if oc_lines ctx > 0 then strcat (oc_size ctx) (oc_buf ctx) [LF] else Ok (oc_buf ctx)) (\<lambda>b1.
     bind_res (strcat (oc_size ctx) b1 line) (\<lambda>b2.
       Ok (ctx\<lparr>oc_buf := b2, oc_lines := Suc (oc_lines ctx)\<rparr>)))"

text \<open>\<open>strlen (ctx->buf)\<close> if there is a buffer; reading an unwritten one is undefined.\<close>

definition buf_length :: "cbuf \<Rightarrow> nat res" where
  "buf_length b =
     (case b of NoBuf \<Rightarrow> Ok 0 | Str d \<Rightarrow> Ok (length d)
      | Unwritten \<Rightarrow> Halt (Undefined ''strlen of an unwritten buffer''))"

text \<open>\<open>mem\<close> tells whether \<open>realloc\<close> succeeds.\<close>

definition process_line :: "bool \<Rightarrow> outctx \<Rightarrow> std_output \<times> string \<Rightarrow> outctx res" where
  "process_line mem ctx sl =
     (case sl of (src, line) \<Rightarrow>
      if src \<noteq> STDOUT then Ok ctx
      else if oc_err ctx \<noteq> None then Ok ctx
      else
        (let ctx1 = (if oc_lines ctx = 0 \<and> oc_buf ctx \<noteq> NoBuf then ctx\<lparr>oc_buf := Str []\<rparr> else ctx);
             nl = (if oc_lines ctx1 > 0 then 1 else 0) in
         bind_res (buf_length (oc_buf ctx1)) (\<lambda>buf_len.
           if buf_len + length line + nl \<ge> oc_size ctx1 then
             (if oc_alloc ctx1 then
                (let size = max (oc_size ctx1 + 1024) (oc_size ctx1 + length line + 1);
                     ctx2 = ctx1\<lparr>oc_size := size\<rparr> in
                 if size > MAX_MEMORY_FOR_CMD_OUTPUT then Ok (ctx2\<lparr>oc_err := Some E2BIG\<rparr>)
                 else if \<not> mem then Ok (ctx2\<lparr>oc_err := Some ENOMEM\<rparr>)
                 else append_line (if oc_buf ctx2 = NoBuf then ctx2\<lparr>oc_buf := Str []\<rparr> else ctx2) line)
              else Ok (ctx1\<lparr>oc_err := Some ENOBUFS\<rparr>))
           else append_line ctx1 line)))"

fun process_output :: "bool \<Rightarrow> outctx \<Rightarrow> (std_output \<times> string) list \<Rightarrow> outctx res" where
  "process_output mem ctx [] = Ok ctx"
| "process_output mem ctx (l # ls) = bind_res (process_line mem ctx l) (\<lambda>c. process_output mem c ls)"

text \<open>What the collected text is: the lines of the standard output, joined by newlines.\<close>

fun join_lines :: "string list \<Rightarrow> string" where
  "join_lines [] = []"
| "join_lines [l] = l"
| "join_lines (l # m # ls) = l @ LF # join_lines (m # ls)"

definition stdout_lines :: "(std_output \<times> string) list \<Rightarrow> string list" where
  "stdout_lines ls = map snd (filter (\<lambda>(s, l). s = STDOUT) ls)"

lemma join_lines_snoc: "join_lines (ls @ [l]) = (if ls = [] then l else join_lines ls @ LF # l)"
  by (induction ls rule: join_lines.induct) auto

text \<open>
  The invariant of the collector after the lines \<open>ls\<close> of standard output: without an
  error the buffer holds their join and the join fits.
\<close>

definition out_inv :: "outctx \<Rightarrow> string list \<Rightarrow> bool" where
  "out_inv ctx ls \<longleftrightarrow>
     (oc_err ctx = None \<longrightarrow>
        oc_lines ctx = length ls
        \<and> (ls = [] \<longrightarrow> (if oc_alloc ctx then oc_buf ctx = NoBuf \<and> oc_size ctx = 0 else oc_buf ctx \<noteq> NoBuf \<and> 0 < oc_size ctx))
        \<and> (ls \<noteq> [] \<longrightarrow> oc_buf ctx = Str (join_lines ls) \<and> length (join_lines ls) < oc_size ctx))"

lemma process_line_inv:
  assumes "out_inv ctx ls"
  shows "\<exists>ctx'. process_line mem ctx (src, l) = Ok ctx'
           \<and> out_inv ctx' (if src = STDOUT then ls @ [l] else ls) \<and> oc_alloc ctx' = oc_alloc ctx"
proof (cases "src = STDOUT \<and> oc_err ctx = None")
  case False
  with assms show ?thesis by (auto simp: process_line_def out_inv_def)
next
  case True
  note inv = assms [unfolded out_inv_def] and T = True
  show ?thesis
  proof (cases "ls = []")
    case ls: True
    show ?thesis
    proof (cases "oc_alloc ctx")
      case True
      with T ls inv show ?thesis
        by (auto simp: process_line_def out_inv_def buf_length_def append_line_def strcat_def Let_def)
    next
      case False
      with T ls inv show ?thesis
        by (auto simp: process_line_def out_inv_def buf_length_def append_line_def strcat_def Let_def)
    qed
  next
    case ls: False
    have n: "oc_lines ctx > 0" using T ls inv by simp
    have b: "oc_buf ctx = Str (join_lines ls)" "length (join_lines ls) < oc_size ctx"
      using T ls inv by auto
    show ?thesis
      using T ls n b inv
      by (auto simp: process_line_def out_inv_def buf_length_def append_line_def strcat_def Let_def
          join_lines_snoc max_def)
  qed
qed

lemma process_output_inv:
  "out_inv ctx ls \<Longrightarrow> \<exists>ctx'. process_output mem ctx out = Ok ctx'
     \<and> out_inv ctx' (ls @ stdout_lines out) \<and> oc_alloc ctx' = oc_alloc ctx"
proof (induction out arbitrary: ctx ls)
  case Nil
  then show ?case by (simp add: stdout_lines_def)
next
  case (Cons x out)
  obtain src l where x: "x = (src, l)" by fastforce
  obtain c1 where c1: "process_line mem ctx (src, l) = Ok c1"
    and i1: "out_inv c1 (if src = STDOUT then ls @ [l] else ls)" and a1: "oc_alloc c1 = oc_alloc ctx"
    using process_line_inv [OF Cons.prems] by blast
  from Cons.IH [OF i1] a1 c1 show ?case by (auto simp: x stdout_lines_def)
qed

text \<open>A fixed buffer reports \<open>ENOBUFS\<close> exactly when the output does not fit.\<close>

lemma process_line_fixed:
  assumes "\<not> oc_alloc ctx" and "out_inv ctx ls" and "oc_err ctx = None"
    and "process_line mem ctx (STDOUT, l) = Ok ctx'"
  shows "oc_size ctx' = oc_size ctx
    \<and> oc_err ctx' = (if length (join_lines (ls @ [l])) < oc_size ctx then None else Some ENOBUFS)"
proof (cases "ls = []")
  case True
  with assms show ?thesis
    by (auto simp: process_line_def out_inv_def buf_length_def append_line_def strcat_def Let_def split: if_splits)
next
  case False
  with assms show ?thesis
    by (auto simp: process_line_def out_inv_def buf_length_def append_line_def strcat_def Let_def
        join_lines_snoc split: if_splits)
qed

lemma join_lines_mono: "length (join_lines ls) \<le> length (join_lines (ls @ rest))"
proof (induction rest rule: rev_induct)
  case (snoc m rest)
  have "length (join_lines (ls @ rest)) \<le> length (join_lines ((ls @ rest) @ [m]))"
    unfolding join_lines_snoc by auto
  with snoc show ?case by simp
qed simp

lemma process_output_error_stays:
  "oc_err ctx \<noteq> None \<Longrightarrow> process_output mem ctx out = Ok ctx"
  by (induction out) (auto simp: process_line_def split: prod.splits)

lemma process_output_fixed:
  assumes "\<not> oc_alloc ctx" and "out_inv ctx ls" and "oc_err ctx = None"
    and "ls \<noteq> [] \<longrightarrow> length (join_lines ls) < oc_size ctx" and "process_output mem ctx out = Ok ctx'"
    and "0 < oc_size ctx"
  shows "oc_err ctx' = (if length (join_lines (ls @ stdout_lines out)) < oc_size ctx then None else Some ENOBUFS)"
  using assms
proof (induction out arbitrary: ctx ls)
  case Nil
  then show ?case by (cases "ls = []") (auto simp: stdout_lines_def)
next
  case (Cons x out)
  obtain src l where x: "x = (src, l)" by fastforce
  obtain c1 where c1: "process_line mem ctx (src, l) = Ok c1" and r: "process_output mem c1 out = Ok ctx'"
    using Cons.prems(5) by (auto simp: x bind_res_Ok)
  show ?case
  proof (cases "src = STDOUT")
    case False
    then have "c1 = ctx" using c1 by (simp add: process_line_def)
    with False Cons show ?thesis using r by (simp add: x stdout_lines_def)
  next
    case True
    note f = process_line_fixed [OF Cons.prems(1-3) c1 [unfolded True]]
    have i1: "out_inv c1 (ls @ [l])" "oc_alloc c1 = oc_alloc ctx"
      using process_line_inv [OF Cons.prems(2), of mem src l] c1 True by auto
    show ?thesis
    proof (cases "length (join_lines (ls @ [l])) < oc_size ctx")
      case fits: True
      then show ?thesis
        using Cons.IH [of c1 "ls @ [l]"] f i1 r Cons.prems(1,6) True by (simp add: x stdout_lines_def)
    next
      case False
      then have "ctx' = c1" using f process_output_error_stays [of c1 mem out] r by simp
      moreover have "\<not> length (join_lines ((ls @ [l]) @ stdout_lines out)) < oc_size ctx"
        using False join_lines_mono [of "ls @ [l]" "stdout_lines out"] by linarith
      ultimately show ?thesis using f False True by (simp add: x stdout_lines_def)
    qed
  qed
qed

section \<open>Properties\<close>

text \<open>
  C24. Whenever one of the two calls that run a program returns, on any of its paths, every descriptor it
  opened is closed again, each exactly once.
\<close>

theorem exec_closes_every_descriptor:
  assumes "exec_cmd env quiet pfx = Ok r \<or> exec_cmd_with_line_callback env = Ok r" and "returned r"
  shows "mset (er_closed r) = mset (er_opened r)"
  using assms exec_cmd_closes exec_cmd_with_line_callback_closes by blast

theorem exec_closes_every_descriptor_witness:
  "mset [6, 8, 5, 7] = mset ([5, 6, 7, 8] :: int list)"
  using exec_closes_every_descriptor [of "\<lparr>ee_pipe_out = Some (5, 6), ee_pipe_err = Some (7, 8), ee_fork = 42,
      ee_alloc = True, ee_script = [PollReady [HangUp, HangUp] False], ee_wait = WaitStatus (WExited 3)\<rparr>" False
      "Some ''p''" "\<lparr>er_ret = Some 3, er_lines = [], er_opened = [5, 6, 7, 8], er_closed = [6, 8, 5, 7]\<rparr>"]
  by (simp add: exec_cmd_def log_prefixer_def read_lines_def rstate_init_def flush_line_def all_done_def
      finish_exec_def returned_def)

text \<open>
  C27. Collecting the output of a program in a buffer of \<open>n\<close> bytes never writes outside it: the
  outcome is \<open>ENOBUFS\<close> exactly when the joined lines do not fit with their terminator, and otherwise
  the buffer holds them.
\<close>

theorem collect_in_fixed_buffer:
  assumes "0 < n"
  shows "\<exists>ctx. process_output mem \<lparr>oc_err = None, oc_lines = 0, oc_alloc = False, oc_buf = Unwritten, oc_size = n\<rparr> out
      = Ok ctx
    \<and> (if length (join_lines (stdout_lines out)) < n
       then oc_err ctx = None \<and> (stdout_lines out = [] \<or> oc_buf ctx = Str (join_lines (stdout_lines out)))
       else oc_err ctx = Some ENOBUFS)"
proof -
  let ?c = "\<lparr>oc_err = None, oc_lines = 0, oc_alloc = False, oc_buf = Unwritten, oc_size = n\<rparr>"
  have i: "out_inv ?c []" using assms by (simp add: out_inv_def)
  obtain ctx where c: "process_output mem ?c out = Ok ctx" and o: "out_inv ctx (stdout_lines out)"
    using process_output_inv [OF i, of mem out] by auto
  have "oc_err ctx = (if length (join_lines (stdout_lines out)) < n then None else Some ENOBUFS)"
    using process_output_fixed [OF _ i _ _ c] assms by simp
  with c o show ?thesis by (auto simp: out_inv_def)
qed

theorem collect_in_fixed_buffer_witness:
  "\<exists>ctx. process_output True \<lparr>oc_err = None, oc_lines = 0, oc_alloc = False, oc_buf = Unwritten, oc_size = 6\<rparr>
      [(STDOUT, ''ab''), (STDERR, ''no''), (STDOUT, ''cd'')] = Ok ctx \<and> oc_err ctx = None \<and> oc_buf ctx = Str (''ab'' @ LF # ''cd'')"
  using collect_in_fixed_buffer [of 6 True "[(STDOUT, ''ab''), (STDERR, ''no''), (STDOUT, ''cd'')]"]
  by (simp add: stdout_lines_def)

end
