(* ===== verification/Numbers.thy ===== *)
theory Numbers
  imports Tokens
begin

text \<open>
  The conversions of \<open>src/src/cinit/utils.c\<close>: \<open>string_to_bool\<close>, \<open>string_to_int\<close>,
  \<open>string_to_uint\<close>, \<open>string_to_interval\<close>, \<open>string_to_uid\<close>, \<open>string_to_gid\<close> and
  \<open>string_to_mode\<close>, over a model of \<open>strtol\<close> and \<open>strtoul\<close> on a 64-bit \<open>long\<close>. The user
  and group data bases (\<open>getpwnam\<close>, \<open>getgrnam\<close>) are parameters.
\<close>

type_synonym uint = "32 word"

section \<open>strtol and strtoul\<close>

definition LONG_MAX :: int where "LONG_MAX = 9223372036854775807"
definition LONG_MIN :: int where "LONG_MIN = - 9223372036854775808"
definition ULONG_MAX :: int where "ULONG_MAX = 18446744073709551615"
definition INT_MAX :: int where "INT_MAX = 2147483647"
definition INT_MIN :: int where "INT_MIN = - 2147483648"
definition UINT_MAX :: int where "UINT_MAX = 4294967295"

lemmas limits = LONG_MAX_def LONG_MIN_def ULONG_MAX_def INT_MAX_def INT_MIN_def UINT_MAX_def

definition base_digit :: "nat \<Rightarrow> char \<Rightarrow> bool" where
  "base_digit b c \<longleftrightarrow> isdigit c \<and> code_of c - 48 < b"

definition digits_value :: "nat \<Rightarrow> string \<Rightarrow> nat" where
  "digits_value b ds = foldl (\<lambda>v c. v * b + (code_of c - 48)) 0 ds"

fun read_sign :: "string \<Rightarrow> bool \<times> string" where
  "read_sign (c # s) = (if c = CHR ''-'' then (True, s) else if c = CHR ''+'' then (False, s) else (False, c # s))"
| "read_sign [] = (False, [])"

text \<open>
  The subject sequence: leading space, an optional sign, the digits, and the text behind
  them, where \<open>endptr\<close> points. \<open>None\<close> is the case without digits, in which \<open>endptr\<close> is
  set back to the start of the string.
\<close>

definition subject :: "nat \<Rightarrow> string \<Rightarrow> (bool \<times> nat \<times> string) option" where
  "subject b s =
     (let (neg, u) = read_sign (dropWhile isspace s); ds = takeWhile (base_digit b) u in
      if ds = [] then None else Some (neg, digits_value b ds, dropWhile (base_digit b) u))"

text \<open>The value returned, and whether \<open>errno\<close> is set to \<open>ERANGE\<close>.\<close>

definition strtol_value :: "bool \<Rightarrow> nat \<Rightarrow> int \<times> bool" where
  "strtol_value neg n =
     (let v = (if neg then - int n else int n) in
      if v > LONG_MAX then (LONG_MAX, True) else if v < LONG_MIN then (LONG_MIN, True) else (v, False))"

definition strtoul_value :: "bool \<Rightarrow> nat \<Rightarrow> int \<times> bool" where
  "strtoul_value neg n =
     (if int n > ULONG_MAX then (ULONG_MAX, True)
      else ((if neg then - int n else int n) mod (ULONG_MAX + 1), False))"

section \<open>Conversions\<close>

definition string_to_bool :: "string \<Rightarrow> bool res" where
  "string_to_bool str =
     (if str = ''1'' \<or> strcaseeq str ''true'' \<or> strcaseeq str ''on'' \<or> strcaseeq str ''yes''
         \<or> strcaseeq str ''y'' \<or> strcaseeq str ''enable'' \<or> strcaseeq str ''enabled'' then Ok True
      else if str = ''0'' \<or> strcaseeq str ''false'' \<or> strcaseeq str ''off'' \<or> strcaseeq str ''no''
         \<or> strcaseeq str ''n'' \<or> strcaseeq str ''disable'' \<or> strcaseeq str ''disabled'' then Ok False
      else throw_message ''not a boolean value'')"

definition string_to_int :: "string \<Rightarrow> int res" where
  "string_to_int str =
     (case subject 10 str of
        None \<Rightarrow> throw_message ''not a number''
      | Some (neg, n, rest) \<Rightarrow>
          (let (val, erange) = strtol_value neg n in
           if rest \<noteq> [] then throw_message ''not a number''
           else if (val = LONG_MIN \<or> val = LONG_MAX) \<and> erange then throw_message ''out of range''
           else if val > INT_MAX \<or> val < INT_MIN then throw_message ''out of range''
           else Ok val))"

definition string_to_uint :: "string \<Rightarrow> uint res" where
  "string_to_uint str =
     (case subject 10 str of
        None \<Rightarrow> throw_message ''not a number''
      | Some (neg, n, rest) \<Rightarrow>
          (let (val, erange) = strtoul_value neg n in
           if rest \<noteq> [] then throw_message ''not a number''
           else if val = ULONG_MAX \<and> erange then throw_message ''out of range''
           else if val > UINT_MAX then throw_message ''out of range''
           else Ok (word_of_int val)))"

definition string_to_interval :: "string \<Rightarrow> uint res" where
  "string_to_interval str =
     (if strcaseeq str ''yearly'' then Ok (60 * 60 * 24 * 365)
      else if strcaseeq str ''monthly'' then Ok (60 * 60 * 24 * 30)
      else if strcaseeq str ''weekly'' then Ok (60 * 60 * 24 * 7)
      else if strcaseeq str ''daily'' then Ok (60 * 60 * 24)
      else if strcaseeq str ''hourly'' then Ok (60 * 60)
      else string_to_uint str)"

definition string_to_uid :: "(string \<Rightarrow> uint option) \<Rightarrow> string \<Rightarrow> uint res" where
  "string_to_uid getpwnam str =
     (if digits_only str then string_to_uint str
      else (case getpwnam str of
              None \<Rightarrow> throw_message (''unknown user '' @ quoted str)
            | Some uid \<Rightarrow> Ok uid))"

definition string_to_gid :: "(string \<Rightarrow> uint option) \<Rightarrow> string \<Rightarrow> uint res" where
  "string_to_gid getgrnam str =
     (if digits_only str then string_to_uint str
      else (case getgrnam str of
              None \<Rightarrow> throw_message (''unknown group '' @ quoted str)
            | Some gid \<Rightarrow> Ok gid))"

definition string_to_mode :: "string \<Rightarrow> uint res" where
  "string_to_mode str =
     (case subject 8 str of
        None \<Rightarrow> throw_message ''not a number''
      | Some (neg, n, rest) \<Rightarrow>
          (let (val, erange) = strtoul_value neg n in
           if rest \<noteq> [] then throw_message ''not a number''
           else if val = ULONG_MAX \<and> erange then throw_message ''out of range''
           else if val > UINT_MAX then throw_message ''out of range''
           else if val > 511 then throw_message ''out of range''
           else Ok (word_of_int val)))"

section \<open>Reading back what was printed\<close>

lemma code_of_digit [simp]: "d < 10 \<Longrightarrow> code_of (char_of (48 + d)) = 48 + d"
  by (simp add: code_of_def)

lemma isdigit_digit [simp]: "(d::nat) < 10 \<Longrightarrow> isdigit (char_of (48 + d))"
  by (simp add: isdigit_def)

lemma base_digit_10: "base_digit 10 c \<longleftrightarrow> isdigit c"
  by (auto simp: base_digit_def isdigit_def)

lemma digits_value_snoc: "digits_value b (ds @ [c]) = digits_value b ds * b + (code_of c - 48)"
  by (simp add: digits_value_def)

lemma dec_nat_digits: "dec_nat n \<noteq> [] \<and> list_all isdigit (dec_nat n) \<and> digits_value 10 (dec_nat n) = n"
proof (induction n rule: dec_nat.induct)
  case (1 n)
  show ?case
  proof (cases "n < 10")
    case True
    then show ?thesis
      by (subst (1 2 3) dec_nat.simps) (simp add: digits_value_def)
  next
    case False
    with 1 show ?thesis
      by (subst (1 2 3) dec_nat.simps) (simp add: digits_value_snoc)
  qed
qed

lemma digits_only_dec_nat: "digits_only (dec_nat n)"
  using dec_nat_digits [of n] by (simp add: digits_only_def)

lemma digit_no_sign: "base_digit b c \<Longrightarrow> c \<noteq> CHR ''-'' \<and> c \<noteq> CHR ''+'' \<and> \<not> isspace c"
  by (auto simp: base_digit_def isdigit_def code_of_def isspace_def)

lemma takeWhile_all: "list_all P xs \<Longrightarrow> takeWhile P xs = xs \<and> dropWhile P xs = []"
  by (induction xs) auto

lemma subject_digits:
  assumes "ds \<noteq> []" and "list_all (base_digit b) ds"
  shows "subject b ds = Some (False, digits_value b ds, [])"
    and "subject b (CHR ''-'' # ds) = Some (True, digits_value b ds, [])"
proof -
  obtain d r where ds: "ds = d # r" using assms by (cases ds) auto
  have d: "base_digit b d" using assms ds by simp
  have r: "takeWhile (base_digit b) r = r" "dropWhile (base_digit b) r = []"
    using takeWhile_all [of "base_digit b" r] assms(2) ds by auto
  have m: "\<not> isspace (CHR ''-'')" by (simp add: isspace_def code_of_def)
  show "subject b ds = Some (False, digits_value b ds, [])"
    using r digit_no_sign [OF d] d
    by (simp add: subject_def ds del: takeWhile_eq_all_conv dropWhile_eq_Nil_conv)
  show "subject b (CHR ''-'' # ds) = Some (True, digits_value b ds, [])"
    using assms(1) takeWhile_all [OF assms(2)] m
    by (simp add: subject_def Let_def del: takeWhile_eq_all_conv dropWhile_eq_Nil_conv)
qed

lemma subject_dec_nat:
  "subject 10 (dec_nat n) = Some (False, n, [])"
  "subject 10 (CHR ''-'' # dec_nat n) = Some (True, n, [])"
  using dec_nat_digits [of n] subject_digits [of "dec_nat n" 10]
  by (simp_all add: base_digit_10 [abs_def] fun_eq_iff)

lemma throw_short: "length m < 256 \<Longrightarrow> throw_message m = Exn m"
  by (simp add: throw_message_def max_message_def)

lemma string_to_int_dec:
  "string_to_int (dec_int k) = (if INT_MIN \<le> k \<and> k \<le> INT_MAX then Ok k else Exn ''out of range'')"
  by (cases "k < 0")
    (auto simp: string_to_int_def dec_int_def subject_dec_nat strtol_value_def limits throw_short Let_def)

lemma string_to_uint_dec:
  "string_to_uint (dec_nat n) = (if int n \<le> UINT_MAX then Ok (word_of_nat n) else Exn ''out of range'')"
  by (auto simp: string_to_uint_def subject_dec_nat strtoul_value_def limits throw_short Let_def)

lemma string_to_uint_neg:
  "string_to_uint (CHR ''-'' # dec_nat n) =
     (if n = 0 then Ok 0
      else if ULONG_MAX - UINT_MAX < int n \<and> int n \<le> ULONG_MAX then Ok (word_of_int (ULONG_MAX + 1 - int n))
      else Exn ''out of range'')"
proof -
  have "(- int n) mod 18446744073709551616 = (if n = 0 then 0 else 18446744073709551616 - int n)"
    if "int n \<le> 18446744073709551615"
    using that by (simp add: zmod_zminus1_eq_if)
  then show ?thesis
    by (auto simp: string_to_uint_def subject_dec_nat strtoul_value_def limits throw_short Let_def)
qed

section \<open>What a successful conversion guarantees\<close>

lemma string_to_int_range: "string_to_int s = Ok k \<Longrightarrow> INT_MIN \<le> k \<and> k \<le> INT_MAX"
  by (auto simp: string_to_int_def Let_def split: option.splits prod.splits if_splits)

lemma string_to_mode_range:
  assumes "string_to_mode s = Ok m" shows "unat m \<le> 511"
proof -
  obtain neg n rest where n: "subject 8 s = Some (neg, n, rest)"
    using assms by (auto simp: string_to_mode_def split: option.splits)
  define v where "v = fst (strtoul_value neg n)"
  have "0 \<le> v" by (simp add: v_def strtoul_value_def limits)
  moreover have "v \<le> 511 \<and> m = word_of_int v"
    using assms by (auto simp: string_to_mode_def n v_def Let_def split: prod.splits if_splits)
  ultimately have v: "0 \<le> v" "v \<le> 511" "m = word_of_int v" by auto
  then have "uint m = v" by (simp add: word_of_int_inverse uint_word_of_int take_bit_int_eq_self)
  then show ?thesis using v by (simp add: unat_eq_nat_uint)
qed

lemma string_to_mode_octal:
  assumes "ds \<noteq> []" and "list_all (base_digit 8) ds"
  shows "string_to_mode ds =
    (if digits_value 8 ds \<le> 511 then Ok (word_of_nat (digits_value 8 ds)) else Exn ''out of range'')"
  by (auto simp: string_to_mode_def subject_digits [OF assms] strtoul_value_def limits throw_short Let_def)

lemma string_to_uint_digits:
  assumes "digits_only s"
  shows "string_to_uint s = (if int (digits_value 10 s) \<le> UINT_MAX then Ok (word_of_nat (digits_value 10 s))
                             else Exn ''out of range'')"
proof -
  have "subject 10 s = Some (False, digits_value 10 s, [])"
    using assms by (intro subject_digits) (auto simp: digits_only_def base_digit_10 list_all_iff)
  then show ?thesis
    by (auto simp: string_to_uint_def strtoul_value_def limits throw_short Let_def)
qed

lemma string_to_uid_Ok:
  "string_to_uid db s = Ok u \<longleftrightarrow>
     (if digits_only s then int (digits_value 10 s) \<le> UINT_MAX \<and> u = word_of_nat (digits_value 10 s)
      else db s = Some u)"
  by (auto simp: string_to_uid_def string_to_uint_digits split: option.splits)

lemma string_to_gid_Ok:
  "string_to_gid db s = Ok u \<longleftrightarrow>
     (if digits_only s then int (digits_value 10 s) \<le> UINT_MAX \<and> u = word_of_nat (digits_value 10 s)
      else db s = Some u)"
  by (auto simp: string_to_gid_def string_to_uint_digits split: option.splits)

section \<open>Properties\<close>

text \<open>
  C34. The integer parsers read back what is printed. \<open>string_to_int\<close> reads back every printed integer of 32 bits and rejects
  every other one; \<open>string_to_uint\<close> does so with the natural numbers of 32 bits. A minus sign is not rejected by the latter:
  \<open>strtoul\<close> negates modulo \<open>2 ^ 64\<close>, and the numbers from \<open>2 ^ 64 - 2 ^ 32 + 1\<close> on come out positive.
\<close>

theorem integers_roundtrip:
  "string_to_int (dec_int k) = (if - (2 ^ 31) \<le> k \<and> k < 2 ^ 31 then Ok k else Exn ''out of range'')
   \<and> string_to_uint (dec_nat n) = (if n < 2 ^ 32 then Ok (of_nat n) else Exn ''out of range'')
   \<and> string_to_uint (CHR ''-'' # dec_nat n) =
      (if n = 0 then Ok 0
       else if 2 ^ 64 - 2 ^ 32 < n \<and> n < 2 ^ 64 then Ok (of_nat (2 ^ 64 - n))
       else Exn ''out of range'')"
proof -
  have "word_of_int (18446744073709551616 - int n) = (word_of_nat (18446744073709551616 - n) :: uint)"
    if "n < 18446744073709551616"
    using that by (metis of_nat_diff of_nat_numeral of_int_of_nat_eq less_imp_le)
  then show ?thesis
    unfolding string_to_uint_dec string_to_uint_neg by (auto simp: string_to_int_dec limits)
qed

text \<open>
  C35. \<open>string_to_mode\<close> reads octal digits, exactly up to \<open>0777\<close>; whatever else it accepts is not
  above that either.
\<close>

theorem string_to_mode_correct:
  assumes "ds \<noteq> []" and "list_all (base_digit 8) ds"
  shows "string_to_mode ds = (if digits_value 8 ds \<le> 511 then Ok (of_nat (digits_value 8 ds)) else Exn ''out of range'')
    \<and> (\<forall>s m. string_to_mode s = Ok m \<longrightarrow> unat m \<le> 511)"
  using string_to_mode_octal [OF assms] string_to_mode_range by auto

theorem string_to_mode_correct_witness:
  "string_to_mode ''0022'' = Ok 18 \<and> string_to_mode ''1000'' = Exn ''out of range''"
  using string_to_mode_correct [of "''0022''"] string_to_mode_correct [of "''1000''"]
  by (simp add: base_digit_def isdigit_def code_of_def digits_value_def)

end
