(* ===== verification/ConfigValues.thy ===== *)
theory ConfigValues
  imports Exec Numbers
begin

text \<open>
  Configuration values (\<open>src/src/cinit/utils.c\<close>): \<open>read_file\<close>,
  \<open>load_value_as_string\<close> and the typed loaders over it. A setting is a file of the
  service's directory; an executable one is run and its output is the value. The file
  system, the memory allocator and the user and group data bases are parameters.
\<close>

section \<open>Files\<close>

text \<open>
  What \<open>stat\<close> and the accesses after it find under a name: a readable file with its bytes,
  a file that cannot be opened, an executable with the lines \<open>exec_cmd_with_line_callback\<close>
  delivers and its return value, or an error of \<open>stat\<close> other than \<open>ENOENT\<close>. A missing
  file is \<open>None\<close>.
\<close>

datatype setting =
    Plain "char list"
  | Unreadable string
  | Program "(std_output \<times> string) list" int
  | StatError string

type_synonym dir = "string \<Rightarrow> setting option"

record load_env =
  le_malloc :: bool
  le_strerror :: "errcode \<Rightarrow> string"
  le_getpwnam :: "string \<Rightarrow> uint option"
  le_getgrnam :: "string \<Rightarrow> uint option"

definition MAX_FILE_READ_SIZE :: nat where
  "MAX_FILE_READ_SIZE = 1048576"

text \<open>
  \<open>read_file\<close>: \<open>buf = NoBuf\<close> asks for an allocated buffer, otherwise \<open>bufsize\<close> bytes are
  there; what is stored is the C string at the start of the bytes read.
\<close>

definition read_file :: "load_env \<Rightarrow> setting \<Rightarrow> cbuf \<Rightarrow> nat \<Rightarrow> cbuf res" where
  "read_file env f buf bufsize =
     (if buf \<noteq> NoBuf \<and> bufsize = 0 then Halt (AssertFailed ''*buf == NULL || bufsize > 0'')
      else (case f of
        Plain content \<Rightarrow>
          (if buf = NoBuf then
             (if length content + 1 > MAX_FILE_READ_SIZE then throw_message ''file too big''
              else if \<not> le_malloc env then throw_message ''memory allocation failed''
              else Ok (Str (cstr content)))
           else if length content > bufsize - 1 then throw_message ''buffer too small''
           else Ok (Str (cstr content)))
      | Unreadable err \<Rightarrow> throw_message_errno ''could not open file'' err
      | _ \<Rightarrow> throw_message_errno ''could not open file'' []))"

definition could_not_load :: "string \<Rightarrow> string \<Rightarrow> string" where
  "could_not_load path msg = ''could not load '' @ quoted path @ '': '' @ msg"

definition load_value_as_string ::
  "load_env \<Rightarrow> dir \<Rightarrow> string \<Rightarrow> cbuf \<Rightarrow> nat \<Rightarrow> (bool \<times> cbuf) res" where
  "load_value_as_string env d path buf bufsize =
     (case d path of
        None \<Rightarrow> Ok (False, buf)
      | Some (StatError err) \<Rightarrow>
          throw_message (could_not_load path (''error getting file info: '' @ err))
      | Some (Program out rc) \<Rightarrow>
          bind_res (process_output (le_malloc env)
                      \<lparr>oc_err = None, oc_lines = 0, oc_alloc = (buf = NoBuf), oc_buf = buf,
                       oc_size = (if buf = NoBuf then 0 else bufsize)\<rparr> out) (\<lambda>ctx.
            if rc \<noteq> 0 then throw_message (could_not_load path (''command failed ('' @ dec_int rc @ '')''))
            else (case oc_err ctx of
                    Some e \<Rightarrow> throw_message (could_not_load path
                                 (''command output handling failed: '' @ le_strerror env e))
                  | None \<Rightarrow> Ok (True, oc_buf ctx)))
      | Some f \<Rightarrow>
          bind_res (catch_res (read_file env f buf bufsize) (\<lambda>e. throw_message (could_not_load path e)))
            (\<lambda>b. Ok (True, b)))"

section \<open>Typed values\<close>

text \<open>
  The common start of the scalar loaders: a local buffer of \<open>n\<close> bytes that nobody has
  written, cut to its first line and trimmed.
\<close>

definition load_line :: "load_env \<Rightarrow> dir \<Rightarrow> string \<Rightarrow> nat \<Rightarrow> string option res" where
  "load_line env d path n =
     bind_res (load_value_as_string env d path Unwritten n) (\<lambda>(is_set, b).
       if \<not> is_set then Ok None
       else (case b of Str s \<Rightarrow> Ok (Some (clean_value s))
             | _ \<Rightarrow> Halt (Undefined ''read of an unwritten buffer'')))"

definition convert :: "string \<Rightarrow> (string \<Rightarrow> 'a res) \<Rightarrow> string \<Rightarrow> 'a option res" where
  "convert path conv s =
     bind_res (catch_res (conv s) (\<lambda>e. throw_message (could_not_load path e))) (\<lambda>v. Ok (Some v))"

definition load_value_as_bool :: "load_env \<Rightarrow> dir \<Rightarrow> string \<Rightarrow> bool option res" where
  "load_value_as_bool env d path =
     bind_res (load_line env d path 32) (\<lambda>l.
       case l of None \<Rightarrow> Ok None
       | Some s \<Rightarrow> if s = [] then Ok (Some True) else convert path string_to_bool s)"

definition load_value_as_int :: "load_env \<Rightarrow> dir \<Rightarrow> string \<Rightarrow> int option res" where
  "load_value_as_int env d path =
     bind_res (load_line env d path 128) (\<lambda>l.
       case l of None \<Rightarrow> Ok None | Some s \<Rightarrow> convert path string_to_int s)"

definition load_value_as_uint :: "load_env \<Rightarrow> dir \<Rightarrow> string \<Rightarrow> uint option res" where
  "load_value_as_uint env d path =
     bind_res (load_line env d path 128) (\<lambda>l.
       case l of None \<Rightarrow> Ok None | Some s \<Rightarrow> convert path string_to_uint s)"

definition load_value_as_interval :: "load_env \<Rightarrow> dir \<Rightarrow> string \<Rightarrow> uint option res" where
  "load_value_as_interval env d path =
     bind_res (load_line env d path 128) (\<lambda>l.
       case l of None \<Rightarrow> Ok None | Some s \<Rightarrow> convert path string_to_interval s)"

definition load_value_as_uid :: "load_env \<Rightarrow> dir \<Rightarrow> string \<Rightarrow> uint option res" where
  "load_value_as_uid env d path =
     bind_res (load_line env d path 256) (\<lambda>l.
       case l of None \<Rightarrow> Ok None | Some s \<Rightarrow> convert path (string_to_uid (le_getpwnam env)) s)"

definition load_value_as_gid :: "load_env \<Rightarrow> dir \<Rightarrow> string \<Rightarrow> uint option res" where
  "load_value_as_gid env d path =
     bind_res (load_line env d path 256) (\<lambda>l.
       case l of None \<Rightarrow> Ok None | Some s \<Rightarrow> convert path (string_to_gid (le_getgrnam env)) s)"

definition load_value_as_mode :: "load_env \<Rightarrow> dir \<Rightarrow> string \<Rightarrow> uint option res" where
  "load_value_as_mode env d path =
     bind_res (load_line env d path 256) (\<lambda>l.
       case l of None \<Rightarrow> Ok None | Some s \<Rightarrow> convert path string_to_mode s)"

lemmas loader_defs =
  load_value_as_bool_def load_value_as_int_def load_value_as_uint_def load_value_as_interval_def
  load_value_as_uid_def load_value_as_gid_def load_value_as_mode_def

lemma convert_Ok: "convert path conv s = Ok r \<longleftrightarrow> (\<exists>v. conv s = Ok v \<and> r = Some v)"
  by (auto simp: convert_def bind_res_Ok catch_res_Ok)

section \<open>The loaders on missing, plain and executable settings\<close>

lemma load_line_missing [simp]: "d path = None \<Longrightarrow> load_line env d path n = Ok None"
  by (simp add: load_line_def load_value_as_string_def)

lemma load_line_plain:
  "d path = Some (Plain content) \<Longrightarrow> 0 < n \<Longrightarrow> length content < n \<Longrightarrow>
   load_line env d path n = Ok (Some (clean_value (cstr content)))"
  by (auto simp: load_line_def load_value_as_string_def read_file_def)

lemma load_line_plain_Ok:
  "d path = Some (Plain content) \<Longrightarrow> 0 < n \<Longrightarrow>
   load_line env d path n = Ok r \<longleftrightarrow> length content < n \<and> r = Some (clean_value (cstr content))"
  by (auto simp: load_line_def load_value_as_string_def read_file_def bind_res_Ok catch_res_Ok)

lemma out_inv_fixed: "0 < n \<Longrightarrow> out_inv \<lparr>oc_err = None, oc_lines = 0, oc_alloc = False, oc_buf = Unwritten, oc_size = n\<rparr> []"
  by (simp add: out_inv_def)

lemma load_line_program_Ok:
  assumes "d path = Some (Program out 0)" and "0 < n" and "stdout_lines out \<noteq> []"
  shows "load_line env d path n = Ok r \<longleftrightarrow>
           length (join_lines (stdout_lines out)) < n \<and> r = Some (clean_value (join_lines (stdout_lines out)))"
proof -
  let ?c = "\<lparr>oc_err = None, oc_lines = 0, oc_alloc = False, oc_buf = Unwritten, oc_size = n\<rparr>"
  obtain c' where c': "process_output (le_malloc env) ?c out = Ok c'" and i: "out_inv c' (stdout_lines out)"
    using process_output_inv [OF out_inv_fixed [OF assms(2)], of "le_malloc env" out] by auto
  have e: "oc_err c' = (if length (join_lines (stdout_lines out)) < n then None else Some ENOBUFS)"
    using process_output_fixed [OF _ out_inv_fixed [OF assms(2)] _ _ c'] assms(2) by simp
  show ?thesis
    using i e assms(3) c'
    by (auto simp: load_line_def load_value_as_string_def assms(1) out_inv_def bind_res_Ok split: if_splits)
qed

text \<open>
  A program that writes nothing to its standard output leaves the local buffer unwritten,
  and the loader goes on to read it.
\<close>

lemma load_line_silent:
  assumes "d path = Some (Program out 0)" and "stdout_lines out = []"
  shows "load_line env d path n = Halt (Undefined ''read of an unwritten buffer'')"
proof -
  have "process_output mem c out = Ok c" for mem c
    using assms(2)
    by (induction out) (auto simp: process_line_def stdout_lines_def split: if_splits)
  then show ?thesis by (simp add: load_line_def load_value_as_string_def assms(1))
qed

text \<open>An allocated buffer: the content of a plain file up to 1 MB.\<close>

lemma load_string_plain:
  "d path = Some (Plain content) \<Longrightarrow>
   load_value_as_string env d path NoBuf 0 = Ok r \<longleftrightarrow>
     length content < MAX_FILE_READ_SIZE \<and> le_malloc env \<and> r = (True, Str (cstr content))"
  by (auto simp: load_value_as_string_def read_file_def bind_res_Ok catch_res_Ok)

lemma load_string_program_Ok:
  assumes "d path = Some (Program out rc)" and "load_value_as_string env d path NoBuf 0 = Ok (b, buf)"
  shows "rc = 0 \<and> b \<and> (if stdout_lines out = [] then buf = NoBuf else buf = Str (join_lines (stdout_lines out)))"
proof -
  let ?c = "\<lparr>oc_err = None, oc_lines = 0, oc_alloc = True, oc_buf = NoBuf, oc_size = 0\<rparr>"
  have "out_inv ?c []" by (simp add: out_inv_def)
  then obtain c' where c': "process_output (le_malloc env) ?c out = Ok c'" "out_inv c' (stdout_lines out)"
      "oc_alloc c'"
    using process_output_inv [of ?c "[]" "le_malloc env" out] by auto
  with assms show ?thesis
    by (auto simp: load_value_as_string_def out_inv_def split: if_splits option.splits)
qed

text \<open>An environment with memory and without any user or group.\<close>

definition env0 :: load_env where
  "env0 = \<lparr>le_malloc = True, le_strerror = (\<lambda>_. []), le_getpwnam = (\<lambda>_. None), le_getgrnam = (\<lambda>_. None)\<rparr>"

section \<open>Properties\<close>

text \<open>
  C26. A scalar setting that is a program which succeeds and writes something is read exactly like a plain
  file with the joined lines of its standard output, errors included.
\<close>

theorem executable_setting_as_plain:
  assumes "d path = Some (Program out 0)" and "stdout_lines out \<noteq> []" and "0 < n"
    and "NUL \<notin> set (join_lines (stdout_lines out))" and "d' path = Some (Plain (join_lines (stdout_lines out)))"
  shows "load_line env d path n = Ok r \<longleftrightarrow> load_line env d' path n = Ok r"
  using load_line_program_Ok [where d = d, OF assms(1,3,2), of env r] load_line_plain_Ok [where d = d', OF assms(5,3), of env r] assms(4)
  by (simp add: cstr_id)

theorem executable_setting_as_plain_witness:
  "load_line env0 (\<lambda>p. Some (Program [(STDOUT, ''yes''), (STDERR, ''e'')] 0)) ''sync'' 32 = Ok (Some ''yes'')
   \<longleftrightarrow> load_line env0 (\<lambda>p. Some (Plain ''yes'')) ''sync'' 32 = Ok (Some ''yes'')"
  using executable_setting_as_plain [of "\<lambda>p. Some (Program [(STDOUT, ''yes''), (STDERR, ''e'')] 0)" "''sync''"
      "[(STDOUT, ''yes''), (STDERR, ''e'')]" 32 "\<lambda>p. Some (Plain ''yes'')" env0 "Some ''yes''"]
  by (simp add: stdout_lines_def)

text \<open>
  C28. A scalar setting that is a program which succeeds without writing to its standard output makes every typed
  loader read a buffer that was never written.
\<close>

theorem silent_program_undefined:
  assumes "d path = Some (Program out 0)" and "stdout_lines out = []"
  shows "load_value_as_bool env d path = Halt (Undefined ''read of an unwritten buffer'')
    \<and> load_value_as_int env d path = Halt (Undefined ''read of an unwritten buffer'')
    \<and> load_value_as_uint env d path = Halt (Undefined ''read of an unwritten buffer'')
    \<and> load_value_as_interval env d path = Halt (Undefined ''read of an unwritten buffer'')
    \<and> load_value_as_uid env d path = Halt (Undefined ''read of an unwritten buffer'')
    \<and> load_value_as_gid env d path = Halt (Undefined ''read of an unwritten buffer'')
    \<and> load_value_as_mode env d path = Halt (Undefined ''read of an unwritten buffer'')"
  using load_line_silent [where d = d, OF assms] by (simp add: loader_defs)

theorem silent_program_undefined_witness:
  "\<exists>env. load_value_as_bool env (\<lambda>p. Some (Program [(STDERR, ''warning'')] 0)) ''sync''
     = Halt (Undefined ''read of an unwritten buffer'')"
  using silent_program_undefined [of "\<lambda>p. Some (Program [(STDERR, ''warning'')] 0)" "''sync''" "[(STDERR, ''warning'')]"]
  by (simp add: stdout_lines_def)

end
