(* ===== verification/Services.thy ===== *)
theory Services
  imports ConfigValues
begin

text \<open>
  The global context of \<open>src/src/cinit/cinit.c\<close>: the service record, the table of 64
  services, the start order, and the operations on the table (\<open>alloc_service_index\<close>,
  \<open>find_service\<close>, \<open>find_service_by_pid\<close>, \<open>unload_service\<close>, \<open>unload_services\<close>,
  \<open>add_to_start_order\<close>, \<open>chdir_to_service\<close>). The build is the shipped one, with
  \<open>SINGLE_CHILD_STDOUT_STDERR_STREAM\<close>, so a service has one output descriptor.
\<close>

section \<open>Data\<close>

type_synonym msec = "64 word"

definition MAX_NUM_SERVICES :: nat where "MAX_NUM_SERVICES = 64"
definition MAX_NUM_SERVICE_RUN_PARAMS :: nat where "MAX_NUM_SERVICE_RUN_PARAMS = 32"
definition MAX_NUM_SERVICE_ENV_VARS :: nat where "MAX_NUM_SERVICE_ENV_VARS = 32"
definition SERVICE_SGID_LIST_SIZE :: nat where "SERVICE_SGID_LIST_SIZE = 32"
definition NAME_SIZE :: nat where "NAME_SIZE = 256"
definition SERVICE_DEFAULT_MIN_RUNNING_TIME :: uint where "SERVICE_DEFAULT_MIN_RUNNING_TIME = 500"

lemmas sizes = MAX_NUM_SERVICES_def MAX_NUM_SERVICE_RUN_PARAMS_def MAX_NUM_SERVICE_ENV_VARS_def
  SERVICE_SGID_LIST_SIZE_def NAME_SIZE_def

text \<open>
  \<open>service_t\<close>. A counted array is the list of its used entries (an entry of
  \<open>environment\<close> can be \<open>NULL\<close>).
\<close>

record service =
  srv_name :: string
  disabled :: bool
  is_service_group :: bool
  run_abs_path :: "string option"
  param_list :: "string list"
  environment :: "string option list"
  environment_extra :: "string list"
  srv_uid :: uint
  srv_gid :: uint
  sgid_list :: "uint list"
  srv_umask :: uint
  priority :: int
  working_directory :: string
  respawn :: bool
  sync :: bool
  ignore_failure :: bool
  shutdown_on_terminate :: bool
  min_running_time :: uint
  ready_timeout :: uint
  interval :: uint
  pid :: int
  start_time :: msec
  output_fd :: int
  logger_exit :: bool
  logger_started :: bool
  restart_requested :: bool

text \<open>\<open>memset (&SRV (sid), 0, sizeof (SRV (sid)))\<close>.\<close>

definition zero_service :: service where
  "zero_service = \<lparr>srv_name = [], disabled = False, is_service_group = False, run_abs_path = None,
     param_list = [], environment = [], environment_extra = [], srv_uid = 0, srv_gid = 0,
     sgid_list = [], srv_umask = 0, priority = 0, working_directory = [], respawn = False,
     sync = False, ignore_failure = False, shutdown_on_terminate = False, min_running_time = 0,
     ready_timeout = 0, interval = 0, pid = 0, start_time = 0, output_fd = 0, logger_exit = False,
     logger_started = False, restart_requested = False\<rparr>"

lemma zero_service_name [simp]: "srv_name zero_service = []"
  by (simp add: zero_service_def)

text \<open>
  What the process does to its surroundings is recorded as a list of actions, oldest first.
\<close>

datatype action =
    Stdout string               \<comment> \<open>bytes written by \<open>log_stdout\<close>\<close>
  | Stderr string
  | Forked nat int              \<comment> \<open>service index and PID of the child\<close>
  | Signalled int int           \<comment> \<open>\<open>kill (pid, sig)\<close>\<close>
  | RanProgram nat string string  \<comment> \<open>service index, program, argument\<close>
  | LoggerStarted nat
  | LoggerJoined nat
  | ClosedFd int
  | Slept msec
  | LoadRequest string int      \<comment> \<open>a call of \<open>load_service_with_deps\<close>: name, dependent index\<close>
  | Unlinked string
  | BecameProgram string "string list"  \<comment> \<open>a successful \<open>execve\<close> of the process itself\<close>
  | Exited int

text \<open>
  \<open>context_t\<close>, with the flag \<open>do_shutdown\<close> and the process state the code relies on: the
  working directory, the number of system calls made so far, and the actions.
\<close>

record cinit =
  progname :: string
  services_root :: string
  log_prefix_length :: int
  debug :: bool
  services_gracetime :: uint
  default_srv_ready_timeout :: uint
  default_srv_uid :: uint
  default_srv_gid :: uint
  default_srv_sgid_list :: "uint list"
  default_srv_umask :: uint
  services :: "service list"
  start_order :: "int list"
  exit_code :: int
  do_shutdown :: bool
  cwd :: string
  ticks :: nat
  actions :: "action list"

definition g_ctx :: cinit where
  "g_ctx = \<lparr>progname = ''cinit'', services_root = ''/etc/services.d'', log_prefix_length = 5,
     debug = False, services_gracetime = 5000, default_srv_ready_timeout = 10000,
     default_srv_uid = 1000, default_srv_gid = 1000, default_srv_sgid_list = [],
     default_srv_umask = 18, services = replicate MAX_NUM_SERVICES zero_service,
     start_order = replicate MAX_NUM_SERVICES 0, exit_code = 0, do_shutdown = False,
     cwd = ''/'', ticks = 0, actions = []\<rparr>"

text \<open>The loop of \<open>main\<close> that clears the start order.\<close>

definition init_start_order :: "cinit \<Rightarrow> cinit" where
  "init_start_order c = c\<lparr>start_order := replicate MAX_NUM_SERVICES (- 1)\<rparr>"

definition main_ctx :: cinit where
  "main_ctx = init_start_order g_ctx"

abbreviation srv :: "cinit \<Rightarrow> nat \<Rightarrow> service" where
  "srv c sid \<equiv> services c ! sid"

definition upd_srv :: "nat \<Rightarrow> (service \<Rightarrow> service) \<Rightarrow> cinit \<Rightarrow> cinit" where
  "upd_srv sid f c = c\<lparr>services := (services c)[sid := f (services c ! sid)]\<rparr>"

section \<open>Iterating and searching\<close>

text \<open>\<open>FOR_EACH_SERVICE\<close> visits the indices below the first entry without a name.\<close>

definition num_services :: "cinit \<Rightarrow> nat" where
  "num_services c = length (takeWhile (\<lambda>s. srv_name s \<noteq> []) (services c))"

definition for_each_service :: "cinit \<Rightarrow> nat list" where
  "for_each_service c = [0..<num_services c]"

definition find_index :: "(service \<Rightarrow> bool) \<Rightarrow> cinit \<Rightarrow> nat option" where
  "find_index P c = List.find (\<lambda>sid. P (srv c sid)) (for_each_service c)"

text \<open>The result \<open>-1\<close> of the C functions is \<open>None\<close>.\<close>

definition alloc_service_index :: "cinit \<Rightarrow> nat option" where
  "alloc_service_index c = List.find (\<lambda>sid. srv_name (srv c sid) = []) [0..<MAX_NUM_SERVICES]"

definition find_service :: "string \<Rightarrow> cinit \<Rightarrow> nat option res" where
  "find_service service c =
     (if service = [] then Halt (AssertFailed ''service != NULL && service[0] != 0'')
      else Ok (find_index (\<lambda>s. srv_name s = service) c))"

definition find_service_by_pid :: "int \<Rightarrow> cinit \<Rightarrow> nat option" where
  "find_service_by_pid p c = find_index (\<lambda>s. pid s = p) c"

definition is_service_started :: "nat \<Rightarrow> cinit \<Rightarrow> bool" where
  "is_service_started sid c \<longleftrightarrow> pid (srv c sid) \<noteq> 0"

definition unload_service :: "nat \<Rightarrow> cinit \<Rightarrow> cinit" where
  "unload_service sid c = upd_srv sid (\<lambda>_. zero_service) c"

text \<open>The loop evaluates the name of the next entry after the current one is cleared.\<close>

function unload_services :: "nat \<Rightarrow> cinit \<Rightarrow> cinit" where
  "unload_services s c =
     (if s < length (services c) \<and> srv_name (srv c s) \<noteq> [] then unload_services (Suc s) (unload_service s c)
      else c)"
  by pat_completeness auto
termination
  by (relation "measure (\<lambda>(s, c). length (services c) - s)") (auto simp: unload_service_def upd_srv_def)

declare unload_services.simps [simp del]

section \<open>The start order\<close>

text \<open>
  \<open>for (int j = DIM - 1; j > i; j--) start_order[j] = start_order[j - 1];
  start_order[i] = service;\<close> -- the last entry falls out of the table.
\<close>

definition insert_order :: "nat \<Rightarrow> int \<Rightarrow> int list \<Rightarrow> int list" where
  "insert_order i service order = take i order @ service # butlast (drop i order)"

function add_to_start_order_from :: "nat \<Rightarrow> int \<Rightarrow> int \<Rightarrow> int list \<Rightarrow> int list" where
  "add_to_start_order_from i service before_service order =
     (if i < length order then
        (if order ! i = - 1 then order[i := service]
         else if order ! i = before_service then insert_order i service order
         else add_to_start_order_from (Suc i) service before_service order)
      else order)"
  by pat_completeness auto
termination by (relation "measure (\<lambda>(i, s, b, order). length order - i)") auto

declare add_to_start_order_from.simps [simp del]

definition add_to_start_order :: "int \<Rightarrow> int \<Rightarrow> cinit \<Rightarrow> cinit" where
  "add_to_start_order service before_service c =
     c\<lparr>start_order := add_to_start_order_from 0 service before_service (start_order c)\<rparr>"

section \<open>The disk\<close>

datatype chdir_answer = ChdirOk | Enoent | Eacces | OtherError string

text \<open>
  What the file system answers, by directory and name: \<open>chdir\<close>, the settings of a
  directory, \<open>access\<close> for existence and execution, \<open>realpath\<close> (or its error), and the entries of
  \<open>readdir\<close> with the mark of regular files (or the error of \<open>opendir\<close>).
\<close>

record disk =
  dk_chdir :: "string \<Rightarrow> chdir_answer"
  dk_settings :: "string \<Rightarrow> dir"
  dk_exists :: "string \<Rightarrow> string \<Rightarrow> bool"
  dk_executable :: "string \<Rightarrow> string \<Rightarrow> bool"
  dk_realpath :: "string \<Rightarrow> string \<Rightarrow> string + string"
  dk_entries :: "string \<Rightarrow> string + (string \<times> bool) list"

definition service_dir :: "string \<Rightarrow> string \<Rightarrow> string" where
  "service_dir root name = root @ ''/'' @ name"

definition throw_chdir :: "chdir_answer \<Rightarrow> 'a res" where
  "throw_chdir a =
     (case a of
        Enoent \<Rightarrow> throw_message ''service directory not found''
      | Eacces \<Rightarrow> throw_message ''permission denied on service directory''
      | OtherError e \<Rightarrow> throw_message_errno ''could not access service directory'' e
      | ChdirOk \<Rightarrow> throw_message_errno ''could not access service directory'' [])"

definition chdir_to_service :: "disk \<Rightarrow> string \<Rightarrow> cinit \<Rightarrow> unit res \<times> cinit" where
  "chdir_to_service dk service c =
     (if service = [] then (Halt (AssertFailed ''service != NULL && service[0] != 0''), c)
      else
        (let root = services_root c; path = service_dir root service in
         if dk_chdir dk root \<noteq> ChdirOk then (throw_chdir (dk_chdir dk root), c)
         else if dk_chdir dk path \<noteq> ChdirOk then (throw_chdir (dk_chdir dk path), c\<lparr>cwd := root\<rparr>)
         else (Ok (), c\<lparr>cwd := path\<rparr>)))"

section \<open>The table invariant\<close>

text \<open>
  The named entries are a prefix of the table and the others are clear; the names are
  different and fit their array.
\<close>

definition table_ok :: "cinit \<Rightarrow> bool" where
  "table_ok c \<longleftrightarrow>
     length (services c) = MAX_NUM_SERVICES
     \<and> (\<forall>sid < MAX_NUM_SERVICES. num_services c \<le> sid \<longrightarrow> srv c sid = zero_service)
     \<and> distinct (map srv_name (take (num_services c) (services c)))
     \<and> (\<forall>sid < MAX_NUM_SERVICES. length (srv_name (srv c sid)) < NAME_SIZE)"

text \<open>Every entry of the start order is \<open>-1\<close> or the index of a loaded service.\<close>

definition order_ok :: "cinit \<Rightarrow> bool" where
  "order_ok c \<longleftrightarrow> length (start_order c) = MAX_NUM_SERVICES
     \<and> (\<forall>x\<in>set (start_order c). x = - 1 \<or> 0 \<le> x \<and> nat x < num_services c)"

lemma num_services_le: "num_services c \<le> length (services c)"
  by (simp add: num_services_def length_takeWhile_le)

lemma named_below: "sid < num_services c \<Longrightarrow> srv_name (srv c sid) \<noteq> []"
proof -
  let ?n = "takeWhile (\<lambda>s. srv_name s \<noteq> []) (services c)"
  assume "sid < num_services c"
  then have l: "sid < length ?n" by (simp add: num_services_def)
  then have "srv_name (?n ! sid) \<noteq> []" using nth_mem [OF l] set_takeWhileD by fastforce
  then show ?thesis using takeWhile_nth [OF l] by simp
qed

lemma unnamed_at: "num_services c < length (services c) \<Longrightarrow> srv_name (srv c (num_services c)) = []"
  unfolding num_services_def by (rule nth_length_takeWhile [where P = "\<lambda>s. srv_name s \<noteq> []", simplified])

lemma find_index_Some:
  "find_index P c = Some sid \<Longrightarrow> sid < num_services c \<and> P (srv c sid) \<and> (\<forall>j < sid. \<not> P (srv c j))"
  by (auto simp: find_index_def for_each_service_def find_Some_iff)

lemma find_index_None: "find_index P c = None \<longleftrightarrow> (\<forall>sid < num_services c. \<not> P (srv c sid))"
  by (auto simp: find_index_def for_each_service_def find_None_iff)

lemma alloc_service_index_eq:
  "table_ok c \<Longrightarrow> alloc_service_index c = (if num_services c < MAX_NUM_SERVICES then Some (num_services c) else None)"
proof -
  assume ok: "table_ok c"
  have le: "num_services c \<le> MAX_NUM_SERVICES" using ok num_services_le [of c] by (simp add: table_ok_def)
  show ?thesis
  proof (cases "num_services c < MAX_NUM_SERVICES")
    case True
    have "List.find (\<lambda>sid. srv_name (srv c sid) = []) [0..<MAX_NUM_SERVICES] = Some (num_services c)"
      unfolding find_Some_iff
      using True ok by (intro exI [of _ "num_services c"]) (auto simp: table_ok_def dest: named_below)
    then show ?thesis using True by (simp add: alloc_service_index_def)
  next
    case False
    then have "\<forall>sid \<in> set [0..<MAX_NUM_SERVICES]. srv_name (srv c sid) \<noteq> []"
      using le False named_below [of _ c] by force
    then show ?thesis using False by (auto simp: alloc_service_index_def find_None_iff)
  qed
qed

lemma table_ok_g_ctx: "table_ok g_ctx \<and> num_services g_ctx = 0"
  by (simp add: table_ok_def g_ctx_def num_services_def sizes)

lemma table_ok_main_ctx: "table_ok main_ctx \<and> num_services main_ctx = 0"
  by (simp add: table_ok_def main_ctx_def init_start_order_def g_ctx_def num_services_def sizes)

lemma num_services_eqI:
  assumes "n \<le> length (services c)" and "\<forall>i < n. srv_name (srv c i) \<noteq> []"
    and "n < length (services c) \<longrightarrow> srv_name (srv c n) = []"
  shows "num_services c = n"
proof -
  have "takeWhile (\<lambda>s. srv_name s \<noteq> []) (services c) = take n (services c)"
    using assms by (intro takeWhile_eq_take_P_nth) auto
  then show ?thesis using assms(1) by (simp add: num_services_def)
qed

text \<open>Filling the first free entry with a new name keeps the table in shape.\<close>

lemma table_ok_add:
  assumes ok: "table_ok c" and free: "num_services c < MAX_NUM_SERVICES"
    and name: "srv_name s \<noteq> []" "length (srv_name s) < NAME_SIZE"
    and new: "\<forall>sid < num_services c. srv_name (srv c sid) \<noteq> srv_name s"
  shows "table_ok (upd_srv (num_services c) (\<lambda>_. s) c)
    \<and> num_services (upd_srv (num_services c) (\<lambda>_. s) c) = Suc (num_services c)"
proof -
  let ?n = "num_services c" and ?c = "upd_srv (num_services c) (\<lambda>_. s) c"
  have len: "length (services c) = MAX_NUM_SERVICES" using ok by (simp add: table_ok_def)
  have sv: "srv ?c i = (if i = ?n then s else srv c i)" if "i < MAX_NUM_SERVICES" for i
    using that len by (simp add: upd_srv_def)
  have n: "num_services ?c = Suc ?n"
  proof (rule num_services_eqI)
    show "Suc ?n \<le> length (services ?c)" using free len by (simp add: upd_srv_def)
    show "\<forall>i < Suc ?n. srv_name (srv ?c i) \<noteq> []"
      using name free named_below by (auto simp: sv less_Suc_eq)
    show "Suc ?n < length (services ?c) \<longrightarrow> srv_name (srv ?c (Suc ?n)) = []"
      using ok len by (auto simp: table_ok_def upd_srv_def)
  qed
  have "take (Suc ?n) (services ?c) = take ?n (services c) @ [s]"
    using free len by (simp add: upd_srv_def take_Suc_conv_app_nth)
  moreover have "srv_name s \<notin> srv_name ` set (take ?n (services c))"
    using new free len by (force simp: in_set_conv_nth)
  ultimately have d: "distinct (map srv_name (take (Suc ?n) (services ?c)))"
    using ok by (simp add: table_ok_def)
  show ?thesis
    using ok name(2) d len unfolding table_ok_def n
    by (auto simp: sv) (simp_all add: upd_srv_def)
qed

lemma find_service_unique:
  assumes "table_ok c" and "i < num_services c" "j < num_services c" and "srv_name (srv c i) = srv_name (srv c j)"
  shows "i = j"
proof -
  have "distinct (map srv_name (take (num_services c) (services c)))" using assms(1) by (simp add: table_ok_def)
  moreover have "i < length (take (num_services c) (services c))" "j < length (take (num_services c) (services c))"
    using assms(2,3) num_services_le [of c] by simp_all
  ultimately show ?thesis using assms by (auto simp: distinct_conv_nth)
qed

section \<open>Unloading everything\<close>

lemma unload_services_prefix:
  assumes "services c = replicate s zero_service @ named @ rest"
    and "\<forall>x\<in>set named. srv_name x \<noteq> []" and "rest \<noteq> [] \<longrightarrow> srv_name (hd rest) = []"
  shows "services (unload_services s c) = replicate (s + length named) zero_service @ rest"
  using assms
proof (induction named arbitrary: s c)
  case Nil
  then have "\<not> (s < length (services c) \<and> srv_name (srv c s) \<noteq> [])"
    by (cases rest) (auto simp: nth_append)
  then show ?case using Nil by (subst unload_services.simps) auto
next
  case (Cons x named)
  have "services (unload_service s c) = replicate (Suc s) zero_service @ named @ rest"
    using Cons.prems by (simp add: unload_service_def upd_srv_def list_update_append replicate_app_Cons_same)
  then have "services (unload_services (Suc s) (unload_service s c)) = replicate (Suc s + length named) zero_service @ rest"
    using Cons by simp
  moreover have "s < length (services c) \<and> srv_name (srv c s) \<noteq> []"
    using Cons.prems by (auto simp: nth_append)
  ultimately show ?case by (subst unload_services.simps) simp
qed

lemma unload_services_rest:
  assumes "table_ok c"
  shows "\<exists>r. services (unload_services 0 c) = replicate (num_services c) zero_service @ r
    \<and> r = drop (num_services c) (services c)"
proof -
  define n where "n = takeWhile (\<lambda>s. srv_name s \<noteq> []) (services c)"
  define r where "r = dropWhile (\<lambda>s. srv_name s \<noteq> []) (services c)"
  have s: "services c = replicate 0 zero_service @ n @ r" by (simp add: n_def r_def)
  have n: "\<forall>x\<in>set n. srv_name x \<noteq> []"
    unfolding n_def by (auto dest: set_takeWhileD)
  have r: "r \<noteq> [] \<longrightarrow> srv_name (hd r) = []"
    using hd_dropWhile [of "\<lambda>s. srv_name s \<noteq> []" "services c"] by (auto simp: r_def)
  have len: "length n = num_services c" by (simp add: n_def num_services_def)
  have "services (unload_services 0 c) = replicate (num_services c) zero_service @ r"
    using unload_services_prefix [OF s n r] by (simp add: len)
  moreover have "r = drop (num_services c) (services c)" by (simp add: s len [symmetric])
  ultimately show ?thesis by blast
qed

text \<open>
  \<open>unload_services\<close> clears every entry of the table, although its loop tests the name of an entry after the one
  before it has been cleared.
\<close>

lemma unload_services_clears:
  assumes "table_ok c"
  shows "services (unload_services 0 c) = replicate MAX_NUM_SERVICES zero_service"
proof -
  let ?u = "unload_services 0 c"
  obtain r where s: "services ?u = replicate (num_services c) zero_service @ r"
    and r: "r = drop (num_services c) (services c)"
    using unload_services_rest [OF assms] by blast
  have len: "length (services c) = MAX_NUM_SERVICES" using assms by (simp add: table_ok_def)
  have "r = replicate (MAX_NUM_SERVICES - num_services c) zero_service"
  proof (rule nth_equalityI)
    show "length r = length (replicate (MAX_NUM_SERVICES - num_services c) zero_service)" by (simp add: r len)
    fix i assume "i < length r"
    then show "r ! i = replicate (MAX_NUM_SERVICES - num_services c) zero_service ! i"
      using assms len by (auto simp: r table_ok_def)
  qed
  moreover have "num_services c \<le> MAX_NUM_SERVICES" using num_services_le [of c] len by simp
  ultimately show ?thesis by (simp add: s replicate_add [symmetric])
qed

text \<open>
  \<open>find_service\<close> finds exactly the loaded services: the index it returns is the only one with that name, and \<open>-1\<close> means
  that there is none.
\<close>

lemma find_service_finds:
  assumes "table_ok c" and "name \<noteq> []"
  shows "find_service name c = Ok (Some sid) \<longleftrightarrow> sid < num_services c \<and> srv_name (srv c sid) = name"
proof (cases "find_index (\<lambda>s. srv_name s = name) c")
  case None
  then have "\<forall>i < num_services c. srv_name (srv c i) \<noteq> name" by (simp add: find_index_None)
  then show ?thesis using None assms(2) by (auto simp: find_service_def)
next
  case (Some i)
  then show ?thesis using assms find_service_unique by (auto simp: find_service_def dest!: find_index_Some)
qed

end
