(* ===== verification/Runtime.thy ===== *)
theory Runtime
  imports Services
begin

text \<open>
  The kernel below the supervisor. Every system call of \<open>src/src/cinit/cinit.c\<close> that can
  block, fail or be interrupted takes one tick of a clock, and an oracle of type \<open>os\<close> answers the
  call of that tick; a signal delivered by then runs its handler (\<open>sigint\<close>, \<open>sigterm\<close>).
  On this the theory models \<open>get_time\<close>, \<open>msleep\<close>, \<open>exec_service_cmd\<close>, the logging macros and the
  signal names.
\<close>

section \<open>The oracle\<close>

datatype clock_answer = Monotonic int int | NotPermitted | ClockError

text \<open>
  \<open>waitpid\<close>: no child is left (\<open>ECHILD\<close>), none has changed its state (\<open>0\<close>, with \<open>WNOHANG\<close>),
  a child was reaped, or the call was interrupted.
\<close>

datatype reaped = NoChild | StillRunning | Reaped int wstatus | Interrupted

record os =
  os_signal :: "nat \<Rightarrow> int option"
  os_clock :: "nat \<Rightarrow> clock_answer"
  os_uptime :: "nat \<Rightarrow> string + msec"            \<comment> \<open>\<open>/proc/uptime\<close>, or why it is not read\<close>
  os_forkpty :: "nat \<Rightarrow> (int \<times> int) option"   \<comment> \<open>PID and master descriptor\<close>
  os_waitpid :: "nat \<Rightarrow> int \<Rightarrow> reaped"
  os_kill :: "nat \<Rightarrow> bool"
  os_exec :: "nat \<Rightarrow> exec_env"
  os_malloc :: "nat \<Rightarrow> bool"
  os_pthread_create :: "nat \<Rightarrow> string option"  \<comment> \<open>the error, if any\<close>
  os_pthread_join :: "nat \<Rightarrow> string option"
  os_read :: "nat \<Rightarrow> char list option"            \<comment> \<open>bytes read from the command pipe\<close>
  os_strerror :: "nat \<Rightarrow> string"

definition SIGINT :: int where "SIGINT = 2"
definition SIGKILL :: int where "SIGKILL = 9"
definition SIGTERM :: int where "SIGTERM = 15"

section \<open>Logging\<close>

definition say :: "action \<Rightarrow> cinit \<Rightarrow> cinit" where
  "say a c = c\<lparr>actions := actions c @ [a]\<rparr>"

text \<open>\<open>"[%-*s] "\<close>\<close>

definition pad :: "int \<Rightarrow> string \<Rightarrow> string" where
  "pad width s = s @ replicate (nat width - length s) (CHR '' '')"

definition log_prefix :: "int \<Rightarrow> string \<Rightarrow> string" where
  "log_prefix width name = ''['' @ pad width name @ ''] ''"

definition log :: "string \<Rightarrow> cinit \<Rightarrow> cinit" where
  "log msg c = say (Stdout (log_prefix (log_prefix_length c) (progname c) @ msg @ [LF])) c"

definition log_err :: "string \<Rightarrow> cinit \<Rightarrow> cinit" where
  "log_err msg c =
     say (Stderr (log_prefix (log_prefix_length c) (progname c) @ ''ERROR: '' @ msg @ [LF])) c"

definition log_fatal :: "string \<Rightarrow> cinit \<Rightarrow> cinit" where
  "log_fatal msg c =
     say (Stderr (log_prefix (log_prefix_length c) (progname c) @ ''FATAL: '' @ msg @ [LF])) c"

definition log_debug :: "string \<Rightarrow> cinit \<Rightarrow> cinit" where
  "log_debug msg c = (if debug c then log msg c else c)"

section \<open>Signals\<close>

definition request_shutdown :: "cinit \<Rightarrow> cinit" where
  "request_shutdown c = c\<lparr>do_shutdown := True\<rparr>"

definition sigint :: "cinit \<Rightarrow> cinit" where
  "sigint c = request_shutdown (log ''SIGINT received, shutting down...'' c)"

definition sigterm :: "cinit \<Rightarrow> cinit" where
  "sigterm c = request_shutdown (log ''SIGTERM received, shutting down...'' c)"

definition deliver :: "int option \<Rightarrow> cinit \<Rightarrow> cinit" where
  "deliver s c = (if s = Some SIGINT then sigint c else if s = Some SIGTERM then sigterm c else c)"

definition tick :: "os \<Rightarrow> cinit \<Rightarrow> cinit" where
  "tick os c = deliver (os_signal os (ticks c)) (c\<lparr>ticks := Suc (ticks c)\<rparr>)"

definition signal_names :: "(int \<times> string) list" where
  "signal_names =
     [(1, ''SIGHUP''), (2, ''SIGINT''), (3, ''SIGQUIT''), (4, ''SIGILL''), (5, ''SIGTRAP''),
      (6, ''SIGABRT''), (7, ''SIGBUS''), (8, ''SIGFPE''), (9, ''SIGKILL''), (10, ''SIGUSR1''),
      (11, ''SIGSEGV''), (12, ''SIGUSR2''), (13, ''SIGPIPE''), (14, ''SIGALRM''), (15, ''SIGTERM''),
      (16, ''SIGSTKFLT''), (17, ''SIGCHLD''), (18, ''SIGCONT''), (19, ''SIGSTOP''), (20, ''SIGTSTP''),
      (21, ''SIGTTIN''), (22, ''SIGTTOU''), (23, ''SIGURG''), (24, ''SIGXCPU''), (25, ''SIGXFSZ''),
      (26, ''SIGVTALRM''), (27, ''SIGPROF''), (28, ''SIGWINCH''), (29, ''SIGPOLL''), (30, ''SIGPWR'')]"

definition signal_to_str :: "int \<Rightarrow> string" where
  "signal_to_str sig = (case map_of signal_names sig of Some s \<Rightarrow> s | None \<Rightarrow> ''UNKNOWN'')"

section \<open>Time\<close>

definition no_time :: "os \<Rightarrow> string \<Rightarrow> cinit \<Rightarrow> msec res \<times> cinit" where
  "no_time os why c =
     (Halt (Aborted ''Could not get time''), log_fatal (''Could not get time: '' @ why @ ''.'') (tick os c))"

definition get_time :: "os \<Rightarrow> cinit \<Rightarrow> msec res \<times> cinit" where
  "get_time os c =
     (case os_clock os (ticks c) of
        Monotonic sec nsec \<Rightarrow> (Ok (of_int (sec * 1000 + nsec div 1000000)), tick os c)
      | ClockError \<Rightarrow> no_time os (os_strerror os (ticks c)) c
      | NotPermitted \<Rightarrow>
          (case os_uptime os (ticks c) of
             Inr t \<Rightarrow> (Ok t, tick os c)
           | Inl why \<Rightarrow> no_time os why c))"

text \<open>
  The time \<open>nanosleep\<close> is given; it is called again with what is left after an
  interruption, so the whole time passes.
\<close>

definition timespec_of :: "msec \<Rightarrow> msec \<times> msec" where
  "timespec_of ms = (ms div 1000, (ms mod 1000) * 1000000)"

definition msleep :: "os \<Rightarrow> msec \<Rightarrow> cinit \<Rightarrow> cinit" where
  "msleep os ms c = say (Slept ms) (tick os c)"

section \<open>Helper programs of a service\<close>

definition say_line :: "std_output \<times> string \<Rightarrow> cinit \<Rightarrow> cinit" where
  "say_line sl c = say (case fst sl of STDOUT \<Rightarrow> Stdout (snd sl) | STDERR \<Rightarrow> Stderr (snd sl)) c"

definition exec_service_cmd :: "os \<Rightarrow> nat \<Rightarrow> string \<Rightarrow> string \<Rightarrow> string \<Rightarrow> cinit \<Rightarrow> int res \<times> cinit" where
  "exec_service_cmd os sid cmd cmd_path arg c =
     (if MAX_NUM_SERVICES \<le> sid then (Halt (AssertFailed ''Invalid service ID''), c)
      else
        (let c1 = say (RanProgram sid cmd_path arg) (tick os c);
             r = (if debug c
                  then exec_cmd (os_exec os (ticks c)) False
                         (Some (take 511 (log_prefix (log_prefix_length c) (srv_name (srv c sid)) @ cmd @ '': '')))
                  else exec_cmd (os_exec os (ticks c)) True None) in
         case r of
           Ok x \<Rightarrow>
             (case er_ret x of
                Some rc \<Rightarrow> (Ok rc, fold say_line (er_lines x) c1)
              | None \<Rightarrow> (Halt (Hangs cmd_path), fold say_line (er_lines x) c1))
         | Exn e \<Rightarrow> (Exn e, c1)
         | Halt h \<Rightarrow> (Halt h, c1)))"

section \<open>The frame of these calls\<close>

text \<open>The actions that matter to other processes.\<close>

fun loud :: "action \<Rightarrow> bool" where
  "loud (Signalled p sig) = True"
| "loud (Forked sid p) = True"
| "loud _ = False"

definition quiet_actions :: "cinit \<Rightarrow> cinit \<Rightarrow> bool" where
  "quiet_actions c c' \<longleftrightarrow> (\<exists>new. actions c' = actions c @ new \<and> (\<forall>a\<in>set new. \<not> loud a))"

text \<open>
  What none of these calls touches: the service table, the start order, the options and the
  working directory. They send no signal and start no service, and a shutdown request is never withdrawn. The clock
  does not run backwards.
\<close>

definition same_core :: "cinit \<Rightarrow> cinit \<Rightarrow> bool" where
  "same_core c c' \<longleftrightarrow>
     services c' = services c \<and> start_order c' = start_order c \<and> services_root c' = services_root c
     \<and> services_gracetime c' = services_gracetime c \<and> debug c' = debug c \<and> cwd c' = cwd c
     \<and> exit_code c' = exit_code c \<and> (do_shutdown c \<longrightarrow> do_shutdown c') \<and> ticks c \<le> ticks c'
     \<and> quiet_actions c c'"

lemma quiet_actions_refl [simp]: "quiet_actions c c"
  by (simp add: quiet_actions_def)

lemma quiet_actions_trans: "quiet_actions a b \<Longrightarrow> quiet_actions b c \<Longrightarrow> quiet_actions a c"
  unfolding quiet_actions_def by (metis append_assoc set_append Un_iff)

lemma same_core_refl [simp, intro]: "same_core c c"
  by (simp add: same_core_def)

lemma same_core_trans: "same_core a b \<Longrightarrow> same_core b c \<Longrightarrow> same_core a c"
  unfolding same_core_def by (auto intro: quiet_actions_trans)

lemma same_core_say [frame_simps]: "\<not> loud a \<Longrightarrow> same_core c (say a c)"
  by (simp add: same_core_def say_def quiet_actions_def)

lemma same_core_log [frame_simps]:
  "same_core c (log m c)" "same_core c (log_err m c)" "same_core c (log_fatal m c)" "same_core c (log_debug m c)"
  by (simp_all add: log_def log_err_def log_fatal_def log_debug_def same_core_say)

lemma same_core_tick [frame_simps]: "same_core c (tick os c)"
  by (simp add: tick_def deliver_def sigint_def sigterm_def request_shutdown_def same_core_def log_def say_def
      quiet_actions_def)

lemma ticks_tick [simp]: "ticks (tick os c) = Suc (ticks c)"
  by (simp add: tick_def deliver_def sigint_def sigterm_def request_shutdown_def log_def say_def)

lemma same_core_get_time [frame_simps]: "get_time os c = (r, c') \<Longrightarrow> same_core c c'"
  by (auto simp: get_time_def no_time_def split: clock_answer.splits sum.splits
      intro: frame_simps same_core_trans [OF same_core_tick])

lemma same_core_msleep [frame_simps]: "same_core c (msleep os ms c)"
  unfolding msleep_def by (rule same_core_trans [OF same_core_tick same_core_say]) simp

lemma same_core_fold: "(\<And>x c. same_core c (f x c)) \<Longrightarrow> same_core c (fold f xs c)"
  by (induction xs arbitrary: c) (auto intro: same_core_trans)

lemma same_core_say_line: "same_core c (say_line sl c)"
  unfolding say_line_def by (rule same_core_say) (simp split: std_output.split)

lemma same_core_exec [frame_simps]:
  "exec_service_cmd os sid cmd path arg c = (r, c') \<Longrightarrow> same_core c c'"
proof -
  assume e: "exec_service_cmd os sid cmd path arg c = (r, c')"
  let ?c1 = "say (RanProgram sid path arg) (tick os c)"
  have 1: "same_core c ?c1" by (rule same_core_trans [OF same_core_tick same_core_say]) simp
  have 2: "same_core c (fold say_line ls ?c1)" for ls
    by (rule same_core_trans [OF 1], rule same_core_fold, rule same_core_say_line)
  show ?thesis
    using e 1 2 by (auto simp: exec_service_cmd_def Let_def split: if_splits res.splits option.splits)
qed

lemma bind_st_throw [simp]:
  "bind_st (throw_message m, s) f = (throw_message m, s)"
  "bind_st (throw_message_errno m err, s) f = (throw_message_errno m err, s)"
  by (simp_all add: throw_message_def throw_message_errno_def)

text \<open>The time handed to \<open>nanosleep\<close> is the time asked for, and its fields are in range.\<close>

lemma timespec_of_exact:
  "unat (fst (timespec_of ms)) * 1000 + unat (snd (timespec_of ms)) div 1000000 = unat ms
   \<and> unat (snd (timespec_of ms)) < 1000000000"
proof -
  have l: "unat (ms mod 1000) < 1000" by (simp add: unat_mod)
  then have m: "unat ((ms mod 1000) * 1000000) = unat (ms mod 1000) * 1000000"
    by (subst unat_mult_lem [THEN iffD1]) simp_all
  show ?thesis using l by (simp add: timespec_of_def m unat_div unat_mod)
qed

section \<open>A sample kernel\<close>

text \<open>
  Nothing fails, every call takes a second, and \<open>w\<close> tells what \<open>waitpid\<close> reports; for the examples at
  the properties.
\<close>

definition sample_os :: "(nat \<Rightarrow> reaped) \<Rightarrow> os" where
  "sample_os w = \<lparr>os_signal = (\<lambda>_. None), os_clock = (\<lambda>t. Monotonic (int t) 0), os_uptime = (\<lambda>_. Inl []),
     os_forkpty = (\<lambda>t. Some (100 + int t, 10)), os_waitpid = (\<lambda>t _. w t), os_kill = (\<lambda>_. True),
     os_exec = (\<lambda>_. \<lparr>ee_pipe_out = None, ee_pipe_err = None, ee_fork = 42, ee_alloc = True, ee_script = [],
                     ee_wait = WaitStatus (WExited 0)\<rparr>),
     os_malloc = (\<lambda>_. True), os_pthread_create = (\<lambda>_. None), os_pthread_join = (\<lambda>_. None),
     os_read = (\<lambda>_. None), os_strerror = (\<lambda>_. [])\<rparr>"

end
