(* ===== verification/Child.thy ===== *)
theory Child
  imports Runtime
begin

text \<open>
  \<open>fork_and_exec\<close> of \<open>src/src/cinit/cinit.c\<close>: what the child does between \<open>forkpty\<close> and \<open>execve\<close>,
  and what the parent keeps.
\<close>

section \<open>The child\<close>

datatype child_call =
    SetPgrp
  | SetPriority int
  | SetUmask uint
  | SetGroups "uint list"
  | SetGid uint
  | SetUid uint
  | ChDir string
  | ExecVe string "string list" "string list"

datatype child_fate = RunsProgram | ExitsWith int

text \<open>\<open>argv[0]\<close> is what follows the last slash, or the whole path; then come the parameters.\<close>

definition base_name :: "string \<Rightarrow> string" where
  "base_name path = (if CHR ''/'' \<in> set path then rev (takeWhile (\<lambda>c. c \<noteq> CHR ''/'') (rev path)) else path)"

definition service_argv :: "string \<Rightarrow> service \<Rightarrow> string list" where
  "service_argv argv0 s = base_name argv0 # param_list s"

text \<open>
  The array handed to \<open>execve\<close>, with its \<open>NULL\<close> entries, and the strings \<open>execve\<close> reads from it.
\<close>

definition environment_array :: "string list \<Rightarrow> service \<Rightarrow> string option list" where
  "environment_array environ s =
     (if environment s \<noteq> [] then environment s @ [None]
      else if environment_extra s \<noteq> [] then map Some environ @ map Some (environment_extra s) @ [None]
      else map Some environ @ [None])"

definition service_environ :: "string list \<Rightarrow> service \<Rightarrow> string list" where
  "service_environ environ s = map the (takeWhile (\<lambda>e. e \<noteq> None) (environment_array environ s))"

text \<open>The calls in front of \<open>execve\<close>, in order; those of \<open>setpgrp\<close> and \<open>umask\<close> are not checked.\<close>

definition child_calls :: "service \<Rightarrow> child_call list" where
  "child_calls s =
     (if priority s \<noteq> 0 then [SetPriority (priority s)] else [])
     @ [SetUmask (srv_umask s), SetGroups (sgid_list s)]
     @ (if srv_gid s > 0 then [SetGid (srv_gid s)] else [])
     @ (if srv_uid s > 0 then [SetUid (srv_uid s)] else [])
     @ (if working_directory s \<noteq> [] then [ChDir (working_directory s)] else [])"

fun checked :: "child_call \<Rightarrow> bool" where
  "checked SetPgrp = False"
| "checked (SetUmask m) = False"
| "checked _ = True"

text \<open>Runs the calls up to the first checked one that fails.\<close>

fun run_calls :: "(child_call \<Rightarrow> bool) \<Rightarrow> child_call list \<Rightarrow> child_call list \<times> bool" where
  "run_calls ok [] = ([], True)"
| "run_calls ok (k # ks) =
     (if checked k \<and> \<not> ok k then ([k], False)
      else (case run_calls ok ks of (l, b) \<Rightarrow> (k # l, b)))"

definition service_child :: "(child_call \<Rightarrow> bool) \<Rightarrow> string list \<Rightarrow> service \<Rightarrow> child_call list \<times> child_fate" where
  "service_child ok environ s =
     (case run_abs_path s of
        None \<Rightarrow> ([SetPgrp], ExitsWith 50)
      | Some argv0 \<Rightarrow>
          (let ex = ExecVe argv0 (service_argv argv0 s) (service_environ environ s) in
           case run_calls ok (SetPgrp # child_calls s) of
             (l, False) \<Rightarrow> (l, ExitsWith 50)
           | (l, True) \<Rightarrow> (l @ [ex], if ok ex then RunsProgram else ExitsWith 126)))"

section \<open>The parent\<close>

definition fork_and_exec :: "os \<Rightarrow> nat \<Rightarrow> cinit \<Rightarrow> int res \<times> cinit" where
  "fork_and_exec os sid c =
     (if MAX_NUM_SERVICES \<le> sid then (Halt (AssertFailed ''Invalid service ID''), c)
      else
        (case os_forkpty os (ticks c) of
           None \<Rightarrow> (Ok 0, tick os c)
         | Some (p, pty_master) \<Rightarrow>
             (Ok p, upd_srv sid (\<lambda>s. s\<lparr>output_fd := pty_master\<rparr>) (say (Forked sid p) (tick os c)))))"

section \<open>What the child does\<close>

lemma run_calls_all: "run_calls ok ks = (l, True) \<Longrightarrow> l = ks \<and> (\<forall>k\<in>set ks. checked k \<longrightarrow> ok k)"
  by (induction ks arbitrary: l) (auto split: if_splits prod.splits)

lemma run_calls_some: "run_calls ok ks = (l, b) \<Longrightarrow> prefix l ks"
  by (induction ks arbitrary: l) (auto split: if_splits prod.splits)

lemma child_calls_no_exec: "ExecVe p a e \<notin> set (child_calls s)"
  by (auto simp: child_calls_def split: if_splits)

lemma service_child_runs:
  assumes "service_child ok environ s = (l, RunsProgram)"
  obtains argv0 where "run_abs_path s = Some argv0"
    "l = SetPgrp # child_calls s @ [ExecVe argv0 (service_argv argv0 s) (service_environ environ s)]"
    "\<forall>k\<in>set l. checked k \<longrightarrow> ok k"
proof -
  obtain argv0 where r: "run_abs_path s = Some argv0" using assms by (auto simp: service_child_def split: option.splits)
  obtain l1 b where rc: "run_calls ok (SetPgrp # child_calls s) = (l1, b)" by fastforce
  with assms r have b: "b" "l = l1 @ [ExecVe argv0 (service_argv argv0 s) (service_environ environ s)]"
    "ok (ExecVe argv0 (service_argv argv0 s) (service_environ environ s))"
    by (auto simp: service_child_def Let_def simp del: run_calls.simps split: bool.splits if_splits)
  with run_calls_all [of ok "SetPgrp # child_calls s" l1] rc that [OF r] show thesis by auto
qed

lemma service_child_stops:
  assumes "service_child ok environ s = (l, ExitsWith n)"
  shows "(n = 50 \<and> (\<forall>p a e. ExecVe p a e \<notin> set l))
    \<or> (n = 126 \<and> (\<exists>p a e. last l = ExecVe p a e \<and> \<not> ok (ExecVe p a e)))"
proof (cases "run_abs_path s")
  case None
  with assms show ?thesis by (auto simp: service_child_def)
next
  case (Some argv0)
  obtain l1 b where rc: "run_calls ok (SetPgrp # child_calls s) = (l1, b)" by fastforce
  have "ExecVe p a e \<notin> set l1" for p a e
    using run_calls_some [OF rc] child_calls_no_exec [of p a e s] set_mono_prefix by fastforce
  with assms Some rc show ?thesis
    by (cases b) (auto simp: service_child_def Let_def simp del: run_calls.simps split: if_splits)
qed

section \<open>Properties\<close>

text \<open>
  C8. The program of a service runs only after its groups, then its group, then its user and its working
  directory are set, each call with success; when one of these calls fails, no \<open>execve\<close> is tried.
\<close>

theorem privileges_dropped_before_program:
  assumes "service_child ok environ s = (l, fate)"
  shows "case fate of
      RunsProgram \<Rightarrow> \<exists>argv0. run_abs_path s = Some argv0
        \<and> (let ks = [SetGroups (sgid_list s)] @ (if srv_gid s > 0 then [SetGid (srv_gid s)] else [])
               @ (if srv_uid s > 0 then [SetUid (srv_uid s)] else [])
               @ (if working_directory s \<noteq> [] then [ChDir (working_directory s)] else [])
               @ [ExecVe argv0 (service_argv argv0 s) (service_environ environ s)]
           in suffix ks l \<and> list_all ok ks)
    | ExitsWith n \<Rightarrow> n = 126 \<and> (\<exists>p a e. last l = ExecVe p a e \<and> \<not> ok (ExecVe p a e))
        \<or> n = 50 \<and> (\<forall>p a e. ExecVe p a e \<notin> set l)"
proof (cases fate)
  case RunsProgram
  with assms obtain argv0 where r: "run_abs_path s = Some argv0"
    and l: "l = SetPgrp # child_calls s @ [ExecVe argv0 (service_argv argv0 s) (service_environ environ s)]"
    and ok: "\<forall>k\<in>set l. checked k \<longrightarrow> ok k"
    by (auto elim: service_child_runs)
  let ?pre = "SetPgrp # (if priority s \<noteq> 0 then [SetPriority (priority s)] else []) @ [SetUmask (srv_umask s)]"
  let ?ks = "[SetGroups (sgid_list s)] @ (if srv_gid s > 0 then [SetGid (srv_gid s)] else [])
               @ (if srv_uid s > 0 then [SetUid (srv_uid s)] else [])
               @ (if working_directory s \<noteq> [] then [ChDir (working_directory s)] else [])
               @ [ExecVe argv0 (service_argv argv0 s) (service_environ environ s)]"
  have "l = ?pre @ ?ks" by (simp add: l child_calls_def)
  then have "suffix ?ks l" by (rule suffixI)
  moreover have "set ?ks \<subseteq> set l" using \<open>suffix ?ks l\<close> by (rule set_mono_suffix)
  moreover have "\<forall>k\<in>set ?ks. checked k" by auto
  ultimately have "list_all ok ?ks" using ok unfolding list_all_iff by blast
  with \<open>suffix ?ks l\<close> RunsProgram r show ?thesis by (simp add: Let_def)
next
  case (ExitsWith n)
  with service_child_stops [of ok environ s l n] assms show ?thesis by auto
qed

theorem privileges_dropped_before_program_witness:
  "suffix [SetGroups [5], SetGid 1000, SetUid 1000, ExecVe ''/s/run'' [''run''] [''A=1'']]
     (fst (service_child (\<lambda>_. True) [''A=1'']
       (zero_service\<lparr>run_abs_path := Some ''/s/run'', srv_uid := 1000, srv_gid := 1000, sgid_list := [5]\<rparr>)))"
  (is "suffix ?ks (fst ?r)")
proof -
  have r: "?r = (fst ?r, RunsProgram)" by (rule prod_eqI) (simp_all, code_simp)
  from privileges_dropped_before_program [OF r] show ?thesis
    by (simp add: service_argv_def base_name_def service_environ_def environment_array_def zero_service_def)
qed

end
