(* ===== verification/LoadService.thy ===== *)
theory LoadService
  imports Services
begin

text \<open>
  \<open>load_service\<close> of \<open>src/src/cinit/cinit.c\<close>: a service directory read into an entry of
  the service table. \<open>fill_service\<close> is the body of its \<open>Try\<close> block, in the order of the
  code, and \<open>load_service\<close> the function around it; when the body throws, the entry is
  cleared and the exception goes on.
\<close>

section \<open>List-valued settings\<close>

text \<open>
  \<open>remove_all_char (buf, CR); split (trim (buf), LF, ...)\<close>; the callers skip empty tokens.
\<close>

definition setting_tokens :: "string \<Rightarrow> string list" where
  "setting_tokens s = split_str LF (trim_str isspace (remove_all_str CR s))"

definition could_not_load_list :: "string \<Rightarrow> string \<Rightarrow> string" where
  "could_not_load_list key msg = ''could not load '' @ quoted key @ '': '' @ msg"

text \<open>
  The shared frame: load the text, tokenize it, check the number of tokens (empty ones
  included), run \<open>body\<close> over the non-empty tokens, and rethrow its exceptions with the name
  of the setting. \<open>None\<close>: there is no text.
\<close>

definition load_tokens ::
  "load_env \<Rightarrow> dir \<Rightarrow> string \<Rightarrow> nat \<Rightarrow> string \<Rightarrow> (string list \<Rightarrow> 'a res) \<Rightarrow> 'a option res" where
  "load_tokens env d key limit too_much body =
     bind_res (load_value_as_string env d key NoBuf 0) (\<lambda>(_, buf).
       case buf of
         Str s \<Rightarrow>
           (let tokens = setting_tokens s in
            bind_res (catch_res
              (if \<not> le_malloc env then throw_message ''out of memory''
               else if length tokens > limit then throw_message too_much
               else body (filter (\<lambda>t. t \<noteq> []) tokens))
              (\<lambda>e. throw_message (could_not_load_list key e))) (\<lambda>x. Ok (Some x)))
       | _ \<Rightarrow> Ok None)"

definition load_params :: "load_env \<Rightarrow> dir \<Rightarrow> string list res" where
  "load_params env d =
     bind_res (load_tokens env d ''params'' MAX_NUM_SERVICE_RUN_PARAMS ''too much parameters'' Ok)
       (\<lambda>r. Ok (case r of None \<Rightarrow> [] | Some ps \<Rightarrow> ps))"

text \<open>The format checks on one \<open>name=value\<close> entry.\<close>

definition check_env_entry :: "string \<Rightarrow> unit res" where
  "check_env_entry e =
     (if CHR ''='' \<notin> set e then throw_message ''invalid environment variable format''
      else if isdigit (hd e) then throw_message ''invalid environment variable name''
      else if list_ex (\<lambda>c. \<not> isalnum c \<and> c \<noteq> CHR ''_'') (takeWhile (\<lambda>c. c \<noteq> CHR ''='') e)
        then throw_message ''invalid environment variable name''
      else Ok ())"

fun check_env :: "string list \<Rightarrow> string list res" where
  "check_env [] = Ok []"
| "check_env (e # es) = bind_res (check_env_entry e) (\<lambda>_. bind_res (check_env es) (\<lambda>r. Ok (e # r)))"

text \<open>An \<open>environment\<close> file without entries stands for an empty environment.\<close>

definition load_environment :: "load_env \<Rightarrow> dir \<Rightarrow> string option list res" where
  "load_environment env d =
     bind_res (load_tokens env d ''environment'' MAX_NUM_SERVICE_ENV_VARS
                 ''too much environment variables'' check_env)
       (\<lambda>r. Ok (case r of None \<Rightarrow> [] | Some [] \<Rightarrow> [None] | Some es \<Rightarrow> map Some es))"

definition load_environment_extra :: "load_env \<Rightarrow> dir \<Rightarrow> string list res" where
  "load_environment_extra env d =
     bind_res (load_tokens env d ''environment_extra'' MAX_NUM_SERVICE_ENV_VARS
                 ''too much environment variables'' check_env)
       (\<lambda>r. Ok (case r of None \<Rightarrow> [] | Some es \<Rightarrow> es))"

text \<open>
  Supplementary groups are written behind the groups already in the list; the test on the
  number of tokens does not count those, and the array has 32 entries.
\<close>

fun add_sgids :: "(string \<Rightarrow> uint option) \<Rightarrow> uint list \<Rightarrow> string list \<Rightarrow> uint list res" where
  "add_sgids getgrnam gs [] = Ok gs"
| "add_sgids getgrnam gs (t # ts) =
     bind_res (string_to_gid getgrnam t) (\<lambda>g.
       if length gs < SERVICE_SGID_LIST_SIZE then add_sgids getgrnam (gs @ [g]) ts
       else Halt (Undefined ''write behind the end of sgid_list''))"

definition load_sgid :: "load_env \<Rightarrow> dir \<Rightarrow> uint list \<Rightarrow> uint list res" where
  "load_sgid env d defaults =
     bind_res (load_tokens env d ''sgid'' SERVICE_SGID_LIST_SIZE ''too much supplementary groups''
                 (add_sgids (le_getgrnam env) defaults))
       (\<lambda>r. Ok (case r of None \<Rightarrow> defaults | Some gs \<Rightarrow> gs))"

definition load_workdir :: "load_env \<Rightarrow> dir \<Rightarrow> string res" where
  "load_workdir env d =
     bind_res (load_value_as_string env d ''workdir'' (Str []) NAME_SIZE) (\<lambda>(_, buf).
       case buf of Str s \<Rightarrow> Ok (first_line s)
       | _ \<Rightarrow> Halt (Undefined ''read of an unwritten buffer''))"

text \<open>A setting that is not there leaves the field as it is.\<close>

definition keep :: "'a \<Rightarrow> 'a option res \<Rightarrow> 'a res" where
  "keep dflt r = bind_res r (\<lambda>v. Ok (case v of None \<Rightarrow> dflt | Some x \<Rightarrow> x))"

section \<open>Filling an entry\<close>

definition initial_service :: "cinit \<Rightarrow> service" where
  "initial_service c = zero_service\<lparr>output_fd := - 1,
     srv_uid := default_srv_uid c, srv_gid := default_srv_gid c,
     sgid_list := default_srv_sgid_list c, srv_umask := default_srv_umask c,
     ready_timeout := default_srv_ready_timeout c,
     min_running_time := SERVICE_DEFAULT_MIN_RUNNING_TIME\<rparr>"

definition validate_flags :: "service \<Rightarrow> unit res" where
  "validate_flags s =
     (if respawn s \<and> sync s then throw_message (quoted ''respawn'' @ '' and '' @ quoted ''sync'' @ '' flags are exclusive'')
      else if respawn s \<and> interval s > 0 then throw_message ''interval cannot be used with respawned service''
      else Ok ())"

text \<open>The scalar settings at the end of the block, in order, with the validation.\<close>

definition load_settings :: "load_env \<Rightarrow> dir \<Rightarrow> uint \<Rightarrow> service \<Rightarrow> service res" where
  "load_settings env d default_ready_timeout s =
     bind_res (keep (srv_umask s) (load_value_as_mode env d ''umask'')) (\<lambda>um.
     bind_res (keep (priority s) (load_value_as_int env d ''priority'')) (\<lambda>pr.
     bind_res (load_workdir env d) (\<lambda>wd.
     bind_res (keep (respawn s) (load_value_as_bool env d ''respawn'')) (\<lambda>rs.
     bind_res (keep (sync s) (load_value_as_bool env d ''sync'')) (\<lambda>sy.
     bind_res (keep (ignore_failure s) (load_value_as_bool env d ''ignore_failure'')) (\<lambda>ig.
     bind_res (keep (shutdown_on_terminate s) (load_value_as_bool env d ''shutdown_on_terminate'')) (\<lambda>sh.
     bind_res (keep (min_running_time s) (load_value_as_uint env d ''min_running_time'')) (\<lambda>mr.
     bind_res (keep (ready_timeout s) (load_value_as_uint env d ''ready_timeout'')) (\<lambda>rt.
     bind_res (keep (interval s) (load_value_as_interval env d ''interval'')) (\<lambda>iv.
       (let s' = s\<lparr>srv_umask := um, priority := pr, working_directory := wd, respawn := rs, sync := sy,
                   ignore_failure := ig, shutdown_on_terminate := sh, min_running_time := mr,
                   ready_timeout := rt, interval := iv\<rparr> in
        bind_res (validate_flags s') (\<lambda>_.
          Ok (s'\<lparr>ready_timeout := max rt default_ready_timeout, pid := 0\<rparr>)))))))))))))"

text \<open>Everything that is loaded for a program, from \<open>realpath\<close> on.\<close>

definition fill_program :: "load_env \<Rightarrow> disk \<Rightarrow> cinit \<Rightarrow> service \<Rightarrow> service res" where
  "fill_program env dk c s =
     (let path = cwd c; d = dk_settings dk path in
      case dk_realpath dk path ''run'' of
        Inl err \<Rightarrow> throw_message_errno ''could not get realpath of run program'' err
      | Inr run \<Rightarrow>
          bind_res (load_params env d) (\<lambda>ps.
          bind_res (load_environment env d) (\<lambda>en.
          bind_res (load_environment_extra env d) (\<lambda>ex.
          bind_res (keep (srv_uid s) (load_value_as_uid env d ''uid'')) (\<lambda>u.
          bind_res (keep (srv_gid s) (load_value_as_gid env d ''gid'')) (\<lambda>g.
          bind_res (load_sgid env d (sgid_list s)) (\<lambda>sg.
            load_settings env d (default_srv_ready_timeout c)
              (s\<lparr>run_abs_path := Some run, param_list := ps, environment := en,
                 environment_extra := ex, srv_uid := u, srv_gid := g, sgid_list := sg\<rparr>))))))))"

definition fill_service :: "load_env \<Rightarrow> disk \<Rightarrow> cinit \<Rightarrow> string \<Rightarrow> service res" where
  "fill_service env dk c service =
     (let path = cwd c; d = dk_settings dk path;
          s0 = (initial_service c)\<lparr>is_service_group := \<not> dk_exists dk path ''run''\<rparr> in
      bind_res (keep (disabled s0) (load_value_as_bool env d ''disabled'')) (\<lambda>dis.
        let s1 = s0\<lparr>disabled := dis\<rparr> in
        if is_service_group s1 \<or> disabled s1 then Ok (s1\<lparr>srv_name := service\<rparr>)
        else if \<not> dk_executable dk path ''run'' then throw_message ''run file not executable''
        else bind_res (fill_program env dk c s1) (\<lambda>s2. Ok (s2\<lparr>srv_name := service\<rparr>))))"

definition load_service :: "load_env \<Rightarrow> disk \<Rightarrow> string \<Rightarrow> cinit \<Rightarrow> nat res \<times> cinit" where
  "load_service env dk service c =
     (case find_service service c of
        Halt h \<Rightarrow> (Halt h, c)
      | Exn e \<Rightarrow> (Exn e, c)
      | Ok (Some sid) \<Rightarrow> (Ok sid, c)
      | Ok None \<Rightarrow>
          if length service \<ge> NAME_SIZE then (throw_message ''name too long'', c)
          else bind_st (chdir_to_service dk service c) (\<lambda>_ c1.
            case alloc_service_index c1 of
              None \<Rightarrow> (throw_message ''maximum number of services reached'', c1)
            | Some sid \<Rightarrow>
                (case fill_service env dk c1 service of
                   Ok s \<Rightarrow> (Ok sid, upd_srv sid (\<lambda>_. s) c1)
                 | Exn e \<Rightarrow> (throw_message e, unload_service sid c1)
                 | Halt h \<Rightarrow> (Halt h, c1))))"

section \<open>Lists\<close>

lemma load_tokens_Ok:
  assumes "load_tokens env d key limit tm body = Ok r"
  shows "r = None \<or> (\<exists>s x. body (filter (\<lambda>t. t \<noteq> []) (setting_tokens s)) = Ok x \<and> r = Some x
           \<and> length (setting_tokens s) \<le> limit)"
proof -
  obtain a b where l: "load_value_as_string env d key NoBuf 0 = Ok (a, b)"
    using assms by (auto simp: load_tokens_def bind_res_Ok)
  show ?thesis
    using assms
    by (cases b) (auto simp: load_tokens_def l bind_res_Ok catch_res_Ok Let_def not_less split: if_splits)
qed

lemma tokens_bound: "length ts \<le> n \<Longrightarrow> length (filter P ts) \<le> n"
  using length_filter_le [of P ts] by linarith

lemma check_env_Ok: "check_env es = Ok r \<longleftrightarrow> r = es \<and> (\<forall>e\<in>set es. check_env_entry e = Ok ())"
  by (induction es arbitrary: r) (auto simp: bind_res_Ok)

lemma takeWhile_eq_split: "c \<in> set e \<Longrightarrow> e = takeWhile (\<lambda>x. x \<noteq> c) e @ c # tl (dropWhile (\<lambda>x. x \<noteq> c) e)"
  by (induction e) auto

lemma check_env_entry_Ok:
  "check_env_entry e = Ok () \<longleftrightarrow>
     (\<exists>n v. e = n @ CHR ''='' # v \<and> (\<forall>c\<in>set n. isalnum c \<or> c = CHR ''_'') \<and> (n = [] \<or> \<not> isdigit (hd n)))"
    (is "?L \<longleftrightarrow> ?R")
proof
  assume L: ?L
  let ?n = "takeWhile (\<lambda>c. c \<noteq> CHR ''='') e"
  have "CHR ''='' \<in> set e" using L by (auto simp: check_env_entry_def split: if_splits)
  note s = takeWhile_eq_split [OF this]
  have "\<forall>c\<in>set ?n. isalnum c \<or> c = CHR ''_''"
    using L by (auto simp: check_env_entry_def list_ex_iff split: if_splits)
  moreover have "?n = [] \<or> \<not> isdigit (hd ?n)"
    using L by (cases e) (auto simp: check_env_entry_def split: if_splits)
  ultimately show ?R using s by blast
next
  have d: "\<not> isdigit (CHR ''='')" by (simp add: isdigit_def code_of_def)
  have q: "\<not> isalnum (CHR ''='')" by (simp add: isalnum_def isdigit_def isupper_def islower_def code_of_def)
  assume ?R
  then obtain n v where e: "e = n @ CHR ''='' # v" and n: "\<forall>c\<in>set n. isalnum c \<or> c = CHR ''_''"
    and h: "n = [] \<or> \<not> isdigit (hd n)" by blast
  have "CHR ''='' \<notin> set n" using n q by auto
  then have "takeWhile (\<lambda>c. c \<noteq> CHR ''='') e = n"
    unfolding e by (subst takeWhile_append2) auto
  moreover have "\<not> isdigit (hd e)" using h d by (cases n) (auto simp: e)
  ultimately show ?L using n by (auto simp: check_env_entry_def e list_ex_iff)
qed

lemma add_sgids_Ok:
  "add_sgids db gs ts = Ok r \<Longrightarrow> \<exists>new. r = gs @ new \<and> length new = length ts
     \<and> (ts = [] \<or> length r \<le> SERVICE_SGID_LIST_SIZE)"
proof (induction ts arbitrary: gs)
  case (Cons t ts)
  then obtain g where "add_sgids db (gs @ [g]) ts = Ok r" and l: "length gs < SERVICE_SGID_LIST_SIZE"
    by (auto simp: bind_res_Ok split: if_splits)
  with Cons.IH [OF this(1)] show ?case by auto
qed simp

lemma add_sgids_overflow:
  assumes "\<forall>t\<in>set ts. \<exists>g. string_to_gid db t = Ok g" and "SERVICE_SGID_LIST_SIZE < length gs + length ts"
    and "length gs \<le> SERVICE_SGID_LIST_SIZE"
  shows "add_sgids db gs ts = Halt (Undefined ''write behind the end of sgid_list'')"
  using assms by (induction ts arbitrary: gs) auto

lemma keep_Ok: "keep dflt r = Ok x \<longleftrightarrow> r = Ok None \<and> x = dflt \<or> (\<exists>y. r = Ok (Some y) \<and> x = y)"
  by (auto simp: keep_def bind_res_Ok split: option.splits)

lemma load_workdir_length: "load_workdir env d = Ok s \<Longrightarrow> length s < NAME_SIZE"
proof -
  assume w: "load_workdir env d = Ok s"
  then obtain b buf where lb: "load_value_as_string env d ''workdir'' (Str []) NAME_SIZE = Ok (b, buf)"
    by (auto simp: load_workdir_def bind_res_Ok)
  then obtain str where buf: "buf = Str str" and s: "s = first_line str"
    using w by (cases buf) (auto simp: load_workdir_def)
  note l = lb [unfolded buf]
  have fl: "length (first_line t) \<le> length t" for t :: string
    by (simp add: first_line_def length_takeWhile_le)
  have cs: "length (cstr t) \<le> length t" for t by (simp add: cstr_def length_takeWhile_le)
  have "length str < NAME_SIZE"
  proof (cases "d ''workdir''")
    case None
    with l show ?thesis by (auto simp: load_value_as_string_def NAME_SIZE_def)
  next
    case (Some f)
    show ?thesis
    proof (cases f)
      case (Plain content)
      with l Some cs [of content] show ?thesis
        by (auto simp: load_value_as_string_def read_file_def bind_res_Ok catch_res_Ok NAME_SIZE_def split: if_splits)
    next
      case (Program out rc)
      let ?c = "\<lparr>oc_err = None, oc_lines = 0, oc_alloc = False, oc_buf = Str [], oc_size = NAME_SIZE\<rparr>"
      have i: "out_inv ?c []" by (simp add: out_inv_def NAME_SIZE_def)
      obtain c' where c': "process_output (le_malloc env) ?c out = Ok c'" and o': "out_inv c' (stdout_lines out)"
        using process_output_inv [OF i, of "le_malloc env" out] by auto
      have sz: "stdout_lines out \<noteq> [] \<Longrightarrow> oc_err c' = None \<Longrightarrow> length (join_lines (stdout_lines out)) < NAME_SIZE"
        using process_output_fixed [OF _ i _ _ c'] by (auto simp: NAME_SIZE_def split: if_splits)
      have "stdout_lines out = [] \<Longrightarrow> process_output mem k out = Ok k" for mem k
        by (induction out) (auto simp: process_line_def stdout_lines_def split: if_splits)
      with l Some Program c' o' sz show ?thesis
        by (cases "stdout_lines out = []")
          (auto simp: load_value_as_string_def out_inv_def NAME_SIZE_def split: if_splits option.splits)
    qed (use l Some in \<open>auto simp: load_value_as_string_def read_file_def bind_res_Ok catch_res_Ok split: if_splits\<close>)
  qed
  then have "length (first_line str) < NAME_SIZE" using fl [of str] by linarith
  then show ?thesis by (simp add: s)
qed

section \<open>What a loaded service satisfies\<close>

definition program_ok :: "cinit \<Rightarrow> service \<Rightarrow> bool" where
  "program_ok c s \<longleftrightarrow>
     run_abs_path s \<noteq> None
     \<and> length (param_list s) \<le> MAX_NUM_SERVICE_RUN_PARAMS \<and> (\<forall>p\<in>set (param_list s). p \<noteq> [])
     \<and> length (environment s) \<le> MAX_NUM_SERVICE_ENV_VARS
     \<and> length (environment_extra s) \<le> MAX_NUM_SERVICE_ENV_VARS
     \<and> (\<forall>e\<in>set (environment_extra s). check_env_entry e = Ok ())
     \<and> (environment s = [None] \<or> (\<forall>e\<in>set (environment s). \<exists>v. e = Some v \<and> check_env_entry v = Ok ()))
     \<and> (\<exists>new. sgid_list s = default_srv_sgid_list c @ new)
     \<and> length (working_directory s) < NAME_SIZE
     \<and> \<not> (respawn s \<and> sync s) \<and> \<not> (respawn s \<and> interval s > 0)
     \<and> default_srv_ready_timeout c \<le> ready_timeout s"

definition loaded_ok :: "cinit \<Rightarrow> string \<Rightarrow> service \<Rightarrow> bool" where
  "loaded_ok c name s \<longleftrightarrow>
     srv_name s = name \<and> pid s = 0 \<and> \<not> logger_started s \<and> \<not> restart_requested s \<and> output_fd s = - 1
     \<and> (length (default_srv_sgid_list c) \<le> SERVICE_SGID_LIST_SIZE \<longrightarrow> length (sgid_list s) \<le> SERVICE_SGID_LIST_SIZE)
     \<and> (unat (default_srv_umask c) \<le> 511 \<longrightarrow> unat (srv_umask s) \<le> 511)
     \<and> (if is_service_group s \<or> disabled s
        then \<not> respawn s \<and> interval s = 0 \<and> run_abs_path s = None
        else program_ok c s)"

lemma load_params_Ok:
  "load_params env d = Ok ps \<Longrightarrow> length ps \<le> MAX_NUM_SERVICE_RUN_PARAMS \<and> (\<forall>p\<in>set ps. p \<noteq> [])"
  by (auto simp: load_params_def bind_res_Ok sizes dest!: load_tokens_Ok intro: tokens_bound)

lemma load_environment_extra_Ok:
  "load_environment_extra env d = Ok es \<Longrightarrow>
   length es \<le> MAX_NUM_SERVICE_ENV_VARS \<and> (\<forall>e\<in>set es. check_env_entry e = Ok ())"
  by (auto simp: load_environment_extra_def bind_res_Ok check_env_Ok sizes dest!: load_tokens_Ok intro: tokens_bound)

lemma load_environment_Ok:
  assumes "load_environment env d = Ok es"
  shows "length es \<le> MAX_NUM_SERVICE_ENV_VARS
    \<and> (es = [None] \<or> (\<forall>e\<in>set es. \<exists>v. e = Some v \<and> check_env_entry v = Ok ()))"
proof -
  obtain r where r: "load_tokens env d ''environment'' MAX_NUM_SERVICE_ENV_VARS
      ''too much environment variables'' check_env = Ok r"
    and es: "es = (case r of None \<Rightarrow> [] | Some [] \<Rightarrow> [None] | Some es \<Rightarrow> map Some es)"
    using assms by (auto simp: load_environment_def bind_res_Ok)
  show ?thesis
  proof (cases r)
    case None
    with es show ?thesis by simp
  next
    case (Some xs)
    then obtain s where "check_env (filter (\<lambda>t. t \<noteq> []) (setting_tokens s)) = Ok xs"
      "length (setting_tokens s) \<le> MAX_NUM_SERVICE_ENV_VARS"
      using load_tokens_Ok [OF r] by auto
    then have "length xs \<le> MAX_NUM_SERVICE_ENV_VARS" "\<forall>e\<in>set xs. check_env_entry e = Ok ()"
      by (auto simp: check_env_Ok intro: tokens_bound)
    with es Some show ?thesis by (cases xs) (auto simp: sizes)
  qed
qed

lemma load_sgid_Ok:
  assumes "load_sgid env d gs = Ok r"
  shows "(\<exists>new. r = gs @ new) \<and> (length gs \<le> SERVICE_SGID_LIST_SIZE \<longrightarrow> length r \<le> SERVICE_SGID_LIST_SIZE)"
  using assms
  by (auto simp: load_sgid_def bind_res_Ok dest!: load_tokens_Ok add_sgids_Ok)

lemma load_value_as_mode_Ok: "load_value_as_mode env d path = Ok (Some m) \<Longrightarrow> unat m \<le> 511"
  by (auto simp: load_value_as_mode_def bind_res_Ok convert_Ok split: option.splits dest: string_to_mode_range)

lemma validate_flags_Ok:
  "validate_flags s = Ok () \<longleftrightarrow> \<not> (respawn s \<and> sync s) \<and> \<not> (respawn s \<and> interval s > 0)"
  by (auto simp: validate_flags_def)

lemma load_settings_Ok:
  assumes "load_settings env d t s = Ok s'"
  shows "\<not> (respawn s' \<and> sync s') \<and> \<not> (respawn s' \<and> interval s' > 0) \<and> t \<le> ready_timeout s'
    \<and> length (working_directory s') < NAME_SIZE \<and> pid s' = 0
    \<and> (unat (srv_umask s) \<le> 511 \<longrightarrow> unat (srv_umask s') \<le> 511)"
    and "run_abs_path s' = run_abs_path s \<and> param_list s' = param_list s \<and> environment s' = environment s
    \<and> environment_extra s' = environment_extra s \<and> sgid_list s' = sgid_list s
    \<and> is_service_group s' = is_service_group s \<and> disabled s' = disabled s
    \<and> srv_uid s' = srv_uid s \<and> srv_gid s' = srv_gid s
    \<and> logger_started s' = logger_started s \<and> restart_requested s' = restart_requested s
    \<and> output_fd s' = output_fd s"
proof -
  obtain um pr wd rs sy ig sh mr rt iv s1 where
    um: "keep (srv_umask s) (load_value_as_mode env d ''umask'') = Ok um" and
    wd: "load_workdir env d = Ok wd" and
    s1: "s1 = s\<lparr>srv_umask := um, priority := pr, working_directory := wd, respawn := rs, sync := sy,
                   ignore_failure := ig, shutdown_on_terminate := sh, min_running_time := mr,
                   ready_timeout := rt, interval := iv\<rparr>" and
    v: "validate_flags s1 = Ok ()" and
    s': "s' = s1\<lparr>ready_timeout := max rt t, pid := 0\<rparr>"
    using assms by (auto simp: load_settings_def bind_res_Ok Let_def)
  have "unat (srv_umask s) \<le> 511 \<longrightarrow> unat um \<le> 511"
    using um load_value_as_mode_Ok [of env d "''umask''"] by (auto simp: keep_Ok)
  with v load_workdir_length [OF wd]
  show "\<not> (respawn s' \<and> sync s') \<and> \<not> (respawn s' \<and> interval s' > 0) \<and> t \<le> ready_timeout s'
    \<and> length (working_directory s') < NAME_SIZE \<and> pid s' = 0
    \<and> (unat (srv_umask s) \<le> 511 \<longrightarrow> unat (srv_umask s') \<le> 511)"
    by (simp add: s' s1 validate_flags_Ok)
  show "run_abs_path s' = run_abs_path s \<and> param_list s' = param_list s \<and> environment s' = environment s
    \<and> environment_extra s' = environment_extra s \<and> sgid_list s' = sgid_list s
    \<and> is_service_group s' = is_service_group s \<and> disabled s' = disabled s
    \<and> srv_uid s' = srv_uid s \<and> srv_gid s' = srv_gid s
    \<and> logger_started s' = logger_started s \<and> restart_requested s' = restart_requested s
    \<and> output_fd s' = output_fd s"
    by (simp add: s' s1)
qed

lemma fill_program_Ok:
  assumes "fill_program env dk c s = Ok s'" and "sgid_list s = default_srv_sgid_list c"
  shows "program_ok c s'"
    and "length (default_srv_sgid_list c) \<le> SERVICE_SGID_LIST_SIZE \<longrightarrow> length (sgid_list s') \<le> SERVICE_SGID_LIST_SIZE"
    and "pid s' = 0 \<and> is_service_group s' = is_service_group s \<and> disabled s' = disabled s
      \<and> logger_started s' = logger_started s \<and> restart_requested s' = restart_requested s
      \<and> output_fd s' = output_fd s \<and> (unat (srv_umask s) \<le> 511 \<longrightarrow> unat (srv_umask s') \<le> 511)"
proof -
  let ?d = "dk_settings dk (cwd c)"
  obtain run ps en ex u g sg where
    ps: "load_params env ?d = Ok ps" and en: "load_environment env ?d = Ok en" and
    ex: "load_environment_extra env ?d = Ok ex" and sg: "load_sgid env ?d (sgid_list s) = Ok sg" and
    st: "load_settings env ?d (default_srv_ready_timeout c)
      (s\<lparr>run_abs_path := Some run, param_list := ps, environment := en,
         environment_extra := ex, srv_uid := u, srv_gid := g, sgid_list := sg\<rparr>) = Ok s'"
    using assms(1) by (auto simp: fill_program_def Let_def bind_res_Ok split: sum.splits)
  note S = load_settings_Ok [OF st]
  show "program_ok c s'"
    using S load_params_Ok [OF ps] load_environment_Ok [OF en] load_environment_extra_Ok [OF ex]
      load_sgid_Ok [OF sg] assms(2)
    by (simp add: program_ok_def)
  show "length (default_srv_sgid_list c) \<le> SERVICE_SGID_LIST_SIZE \<longrightarrow> length (sgid_list s') \<le> SERVICE_SGID_LIST_SIZE"
    using S load_sgid_Ok [OF sg] assms(2) by simp
  show "pid s' = 0 \<and> is_service_group s' = is_service_group s \<and> disabled s' = disabled s
      \<and> logger_started s' = logger_started s \<and> restart_requested s' = restart_requested s
      \<and> output_fd s' = output_fd s \<and> (unat (srv_umask s) \<le> 511 \<longrightarrow> unat (srv_umask s') \<le> 511)"
    using S by simp
qed

lemma fill_service_Ok:
  assumes "fill_service env dk c name = Ok s" shows "loaded_ok c name s"
proof -
  define s0 where "s0 = (initial_service c)\<lparr>is_service_group := \<not> dk_exists dk (cwd c) ''run''\<rparr>"
  have i: "pid s0 = 0 \<and> \<not> logger_started s0 \<and> \<not> restart_requested s0 \<and> output_fd s0 = - 1
      \<and> sgid_list s0 = default_srv_sgid_list c \<and> srv_umask s0 = default_srv_umask c
      \<and> \<not> respawn s0 \<and> interval s0 = 0 \<and> run_abs_path s0 = None"
    by (simp add: s0_def initial_service_def zero_service_def)
  obtain dis where dis: "
      (let s1 = s0\<lparr>disabled := dis\<rparr> in
        if is_service_group s1 \<or> disabled s1 then Ok (s1\<lparr>srv_name := name\<rparr>)
        else if \<not> dk_executable dk (cwd c) ''run'' then throw_message ''run file not executable''
        else bind_res (fill_program env dk c s1) (\<lambda>s2. Ok (s2\<lparr>srv_name := name\<rparr>))) = Ok s"
    using assms by (auto simp: fill_service_def Let_def s0_def bind_res_Ok)
  show ?thesis
  proof (cases "is_service_group s0 \<or> dis")
    case True
    with dis i show ?thesis by (auto simp: loaded_ok_def Let_def)
  next
    case False
    then obtain s2 where f: "fill_program env dk c (s0\<lparr>disabled := dis\<rparr>) = Ok s2"
      and s: "s = s2\<lparr>srv_name := name\<rparr>"
      using dis by (auto simp: Let_def bind_res_Ok split: if_splits)
    have g: "sgid_list (s0\<lparr>disabled := dis\<rparr>) = default_srv_sgid_list c" using i by simp
    show ?thesis
      using fill_program_Ok [OF f g] False i by (simp add: loaded_ok_def program_ok_def s)
  qed
qed

section \<open>The effect on the table\<close>

lemma find_service_Ok:
  "find_service name c = Ok r \<Longrightarrow> name \<noteq> [] \<and> r = find_index (\<lambda>s. srv_name s = name) c"
  by (auto simp: find_service_def split: if_splits)

lemma find_service_cases:
  assumes "name \<noteq> []"
  obtains (known) sid where "find_service name c = Ok (Some sid)" "sid < num_services c" "srv_name (srv c sid) = name"
  | (unknown) "find_service name c = Ok None" "\<forall>sid < num_services c. srv_name (srv c sid) \<noteq> name"
proof (cases "find_index (\<lambda>s. srv_name s = name) c")
  case None
  then show ?thesis using unknown assms by (simp add: find_service_def find_index_None)
next
  case (Some sid)
  then show ?thesis using known assms by (auto simp: find_service_def dest: find_index_Some)
qed

lemma chdir_to_service_frame:
  assumes "chdir_to_service dk name c = (r, c')"
  shows "\<exists>w. c' = c\<lparr>cwd := w\<rparr> \<and> (r = Ok () \<longrightarrow> w = service_dir (services_root c) name)"
proof -
  have t: "throw_chdir a \<noteq> Ok ()" for a
    by (cases a) (simp_all add: throw_chdir_def throw_message_def throw_message_errno_def)
  have k: "c = c\<lparr>cwd := cwd c\<rparr>" by simp
  consider "name = []" | "name \<noteq> []" "dk_chdir dk (services_root c) \<noteq> ChdirOk"
    | "name \<noteq> []" "dk_chdir dk (services_root c) = ChdirOk"
      "dk_chdir dk (service_dir (services_root c) name) \<noteq> ChdirOk"
    | "name \<noteq> []" "dk_chdir dk (services_root c) = ChdirOk"
      "dk_chdir dk (service_dir (services_root c) name) = ChdirOk"
    by blast
  then show ?thesis
  proof cases
    case 1
    with assms k show ?thesis by (metis Pair_inject chdir_to_service_def res.distinct(3))
  next
    case 2
    with assms have "r = throw_chdir (dk_chdir dk (services_root c))" "c' = c"
      by (auto simp: chdir_to_service_def Let_def)
    with t k show ?thesis by metis
  next
    case 3
    with assms have "r = throw_chdir (dk_chdir dk (service_dir (services_root c) name))"
      "c' = c\<lparr>cwd := services_root c\<rparr>"
      by (auto simp: chdir_to_service_def Let_def)
    with t show ?thesis by metis
  next
    case 4
    with assms have "c' = c\<lparr>cwd := service_dir (services_root c) name\<rparr>"
      by (auto simp: chdir_to_service_def Let_def)
    then show ?thesis by blast
  qed
qed

lemma loaded_ok_cwd [simp]: "loaded_ok (c\<lparr>cwd := w\<rparr>) name s = loaded_ok c name s"
  unfolding loaded_ok_def program_ok_def by simp

lemma table_ok_cwd [simp]:
  "table_ok (c\<lparr>cwd := w\<rparr>) = table_ok c" "num_services (c\<lparr>cwd := w\<rparr>) = num_services c"
  by (simp_all add: table_ok_def num_services_def)

lemma table_ok_actions [simp]:
  "table_ok (c\<lparr>actions := w\<rparr>) = table_ok c" "num_services (c\<lparr>actions := w\<rparr>) = num_services c"
  by (simp_all add: table_ok_def num_services_def)

lemma table_ok_order [simp]:
  "table_ok (c\<lparr>start_order := w\<rparr>) = table_ok c" "num_services (c\<lparr>start_order := w\<rparr>) = num_services c"
  by (simp_all add: table_ok_def num_services_def)

lemma unload_free: "table_ok c \<Longrightarrow> services (unload_service (num_services c) c) = services c"
  by (cases "num_services c < MAX_NUM_SERVICES")
    (auto simp: unload_service_def upd_srv_def table_ok_def list_update_beyond intro!: list_update_same_conv [THEN iffD2])

text \<open>
  Three outcomes: the service was known; it was added behind the others, as its directory
  says; or an exception was thrown and the table is what it was.
\<close>

lemma load_service_table:
  assumes "table_ok c" and "name \<noteq> []" and "load_service env dk name c = (r, c')"
  shows "case r of
     Ok sid \<Rightarrow> (sid < num_services c \<and> srv_name (srv c sid) = name \<and> c' = c)
        \<or> (sid = num_services c \<and> table_ok c' \<and> num_services c' = Suc (num_services c)
            \<and> (\<forall>j < num_services c. srv c' j = srv c j) \<and> loaded_ok c name (srv c' sid)
            \<and> (\<forall>j < num_services c. srv_name (srv c j) \<noteq> name)
            \<and> cwd c' = service_dir (services_root c) name
            \<and> start_order c' = start_order c \<and> actions c' = actions c \<and> services_root c' = services_root c)
   | Exn e \<Rightarrow> services c' = services c \<and> start_order c' = start_order c
   | Halt h \<Rightarrow> True"
  using assms(2)
proof (cases rule: find_service_cases [where c = c])
  case (known sid)
  with assms show ?thesis by (auto simp: load_service_def)
next
  case unknown
  show ?thesis
  proof (cases "length name \<ge> NAME_SIZE")
    case True
    with assms unknown show ?thesis
      by (auto simp: load_service_def throw_message_def)
  next
    case False
    obtain r1 c1 where ch: "chdir_to_service dk name c = (r1, c1)" by fastforce
    then obtain w where c1: "c1 = c\<lparr>cwd := w\<rparr>" and w: "r1 = Ok () \<Longrightarrow> w = service_dir (services_root c) name"
      using chdir_to_service_frame by blast
    have al: "alloc_service_index c1 = (if num_services c < MAX_NUM_SERVICES then Some (num_services c) else None)"
      using assms(1) alloc_service_index_eq [of c1] by (simp add: c1)
    show ?thesis
    proof (cases "r1 = Ok () \<and> num_services c < MAX_NUM_SERVICES")
      case False': False
      with False assms unknown ch al c1 show ?thesis
        by (cases r1) (auto simp: load_service_def throw_message_def split: res.splits if_splits)
    next
      case True
      then have free: "num_services c1 < MAX_NUM_SERVICES" and w': "w = service_dir (services_root c) name"
        using w by (auto simp: c1)
      have ls: "load_service env dk name c = (case fill_service env dk c1 name of
                   Ok s \<Rightarrow> (Ok (num_services c), upd_srv (num_services c) (\<lambda>_. s) c1)
                 | Exn e \<Rightarrow> (throw_message e, unload_service (num_services c) c1)
                 | Halt h \<Rightarrow> (Halt h, c1))"
        using False unknown ch al True by (simp add: load_service_def)
      show ?thesis
      proof (cases "fill_service env dk c1 name")
        case (Ok s)
        have lo: "loaded_ok c name s"
          using fill_service_Ok [OF Ok] by (simp add: c1)
        have len: "length (services c) = MAX_NUM_SERVICES" using assms(1) by (simp add: table_ok_def)
        have "table_ok (upd_srv (num_services c1) (\<lambda>_. s) c1) \<and> num_services (upd_srv (num_services c1) (\<lambda>_. s) c1) = Suc (num_services c1)"
          using lo assms(1,2) free False unknown
          by (intro table_ok_add) (auto simp: c1 loaded_ok_def)
        with Ok lo assms(3) ls free len w' unknown show ?thesis
          by (auto simp: c1 upd_srv_def)
      next
        case (Exn e)
        with assms ls c1 unload_free [of c1] show ?thesis
          by (auto simp: throw_message_def unload_service_def upd_srv_def)
      next
        case (Halt h)
        with assms ls show ?thesis by auto
      qed
    qed
  qed
qed

lemma add_sgids_fits:
  assumes "\<forall>t\<in>set ts. \<exists>g. string_to_gid db t = Ok g" and "length gs + length ts \<le> SERVICE_SGID_LIST_SIZE"
  shows "\<exists>new. add_sgids db gs ts = Ok (gs @ new)"
  using assms
proof (induction ts arbitrary: gs)
  case (Cons t ts)
  then obtain g where g: "string_to_gid db t = Ok g" by auto
  moreover have "\<exists>new. add_sgids db (gs @ [g]) ts = Ok ((gs @ [g]) @ new)"
    by (rule Cons.IH) (use Cons.prems in simp_all)
  ultimately show ?case using Cons.prems by auto
qed simp

text \<open>A service directory with a program that is respawned.\<close>

definition sample_disk :: disk where
  "sample_disk = \<lparr>dk_chdir = (\<lambda>_. ChdirOk), dk_settings = (\<lambda>_. [''respawn'' \<mapsto> Plain []]),
     dk_exists = (\<lambda>_ f. f = ''run''), dk_executable = (\<lambda>_ f. f = ''run''),
     dk_realpath = (\<lambda>w f. Inr (w @ ''/'' @ f)), dk_entries = (\<lambda>_. Inr [])\<rparr>"

lemma sample_fill: "\<exists>s. fill_service env0 sample_disk c name = Ok s \<and> respawn s"
  by (simp add: fill_service_def fill_program_def sample_disk_def keep_def loader_defs load_params_def
      load_environment_def load_environment_extra_def load_sgid_def load_settings_def load_workdir_def
      load_tokens_def load_value_as_string_def load_line_plain initial_service_def zero_service_def
      validate_flags_def first_line_def clean_value_def trim_str_def Let_def)

lemma sample_load: "fst (load_service env0 sample_disk ''app'' g_ctx) = Ok 0"
proof -
  obtain c1 where c1: "chdir_to_service sample_disk ''app'' g_ctx = (Ok (), c1)" "c1 = g_ctx\<lparr>cwd := cwd c1\<rparr>"
    by (simp add: chdir_to_service_def sample_disk_def Let_def)
  have t: "table_ok c1" "num_services c1 = 0" using c1(2) table_ok_g_ctx by (metis table_ok_cwd)+
  have "find_service ''app'' g_ctx = Ok None"
    using table_ok_g_ctx by (simp add: find_service_def find_index_None)
  moreover obtain s where "fill_service env0 sample_disk c1 ''app'' = Ok s" using sample_fill by blast
  ultimately show ?thesis using c1(1) t by (simp add: load_service_def alloc_service_index_eq sizes)
qed

lemma sample_tokens: "setting_tokens ''10'' = [''10'']"
  by code_simp

section \<open>Properties\<close>

text \<open>
  C12. Loading a service that is not in the table puts it behind the others: its index is the number of
  services so far, the other entries and the start order are untouched, the table stays in shape, and the
  entry is a valid service (name, limits of the lists, exclusive flags, timeout not under the default,
  not running). When an exception is thrown the table and the start order are what they were.
\<close>

theorem load_service_adds_valid_entry:
  assumes "table_ok c" and "name \<noteq> []" and "\<forall>sid < num_services c. srv_name (srv c sid) \<noteq> name"
    and "load_service env dk name c = (r, c')"
  shows "case r of
      Ok sid \<Rightarrow> sid = num_services c \<and> num_services c' = Suc (num_services c) \<and> table_ok c'
        \<and> loaded_ok c name (srv c' sid) \<and> (\<forall>j < num_services c. srv c' j = srv c j) \<and> start_order c' = start_order c
    | Exn e \<Rightarrow> services c' = services c \<and> start_order c' = start_order c
    | Halt h \<Rightarrow> True"
  using load_service_table [OF assms(1,2,4)] assms(3) by (auto split: res.splits)

theorem load_service_adds_valid_entry_witness:
  "loaded_ok g_ctx ''app'' (srv (snd (load_service env0 sample_disk ''app'' g_ctx)) 0)"
  using load_service_adds_valid_entry [of g_ctx "''app''" env0 sample_disk "Ok 0"
      "snd (load_service env0 sample_disk ''app'' g_ctx)"] table_ok_g_ctx sample_load
  by (simp add: prod_eq_iff)

text \<open>
  C29. The groups of a service's \<open>sgid\<close> setting are appended to the default groups; when both together are
  more than 32 the code writes behind the end of \<open>sgid_list\<close>, although it tests the number of tokens.
\<close>

theorem sgid_list_overflow:
  assumes "load_value_as_string env d ''sgid'' NoBuf 0 = Ok (b, Str s)" and "le_malloc env"
    and "length (setting_tokens s) \<le> SERVICE_SGID_LIST_SIZE" and "length defaults \<le> SERVICE_SGID_LIST_SIZE"
    and "\<forall>t\<in>set (setting_tokens s). t \<noteq> [] \<longrightarrow> (\<exists>g. string_to_gid (le_getgrnam env) t = Ok g)"
  shows "if length defaults + length (filter (\<lambda>t. t \<noteq> []) (setting_tokens s)) \<le> SERVICE_SGID_LIST_SIZE
    then \<exists>new. load_sgid env d defaults = Ok (defaults @ new)
    else load_sgid env d defaults = Halt (Undefined ''write behind the end of sgid_list'')"
proof -
  let ?ts = "filter (\<lambda>t. t \<noteq> []) (setting_tokens s)"
  have conv: "\<forall>t\<in>set ?ts. \<exists>g. string_to_gid (le_getgrnam env) t = Ok g" using assms(5) by auto
  have l: "load_sgid env d defaults
      = (case add_sgids (le_getgrnam env) defaults ?ts of Ok gs \<Rightarrow> Ok gs
         | Exn e \<Rightarrow> throw_message (could_not_load_list ''sgid'' e) | Halt h \<Rightarrow> Halt h)"
    using assms(1-3) by (cases "add_sgids (le_getgrnam env) defaults ?ts")
      (simp_all add: load_sgid_def load_tokens_def Let_def throw_message_def)
  show ?thesis
    using l add_sgids_overflow [OF conv, of defaults] add_sgids_fits [OF conv, of defaults] assms(4) by auto
qed

theorem sgid_list_overflow_witness:
  "load_sgid env0 (\<lambda>p. Some (Plain ''10'')) (replicate 32 1) = Halt (Undefined ''write behind the end of sgid_list'')"
  using sgid_list_overflow [of env0 "\<lambda>p. Some (Plain ''10'')" True "''10''" "replicate 32 1"] sample_tokens
  by (simp add: sizes load_value_as_string_def read_file_def MAX_FILE_READ_SIZE_def env0_def cstr_def
      string_to_gid_Ok digits_only_def isdigit_def code_of_def digits_value_def UINT_MAX_def)

end
