(* ===== verification/Fuel.thy ===== *)
theory Fuel
  imports LoadService Runtime
begin

text \<open>
  Only the models of the program's unbounded loops can end with \<open>Halt NoFuel\<close>. The facts here, in the
  collection \<open>no_fuel\<close>, say that nothing below them does: reading a setting, running a
  helper program, loading one service directory, and the calls of \<open>Runtime\<close>.
\<close>

named_theorems no_fuel

lemma bind_res_no_fuel [no_fuel]:
  "bind_res r f = Halt NoFuel \<longleftrightarrow> r = Halt NoFuel \<or> (\<exists>x. r = Ok x \<and> f x = Halt NoFuel)"
  by (cases r) auto

lemma catch_res_no_fuel [no_fuel]:
  "catch_res r h = Halt NoFuel \<longleftrightarrow> r = Halt NoFuel \<or> (\<exists>e. r = Exn e \<and> h e = Halt NoFuel)"
  by (cases r) auto

lemma throw_no_fuel [no_fuel]: "throw_message m \<noteq> Halt NoFuel" "throw_message_errno m err \<noteq> Halt NoFuel"
  by (simp_all add: throw_message_def throw_message_errno_def)

section \<open>Settings\<close>

lemma strcat_no_fuel [no_fuel]: "strcat cap b s \<noteq> Halt NoFuel"
  by (simp add: strcat_def split: cbuf.splits)

lemma append_line_no_fuel [no_fuel]: "append_line ctx l \<noteq> Halt NoFuel"
  by (simp add: append_line_def no_fuel)

lemma buf_length_no_fuel [no_fuel]: "buf_length b \<noteq> Halt NoFuel"
  by (simp add: buf_length_def split: cbuf.splits)

lemma process_line_no_fuel [no_fuel]: "process_line mem ctx l \<noteq> Halt NoFuel"
  by (cases l) (simp add: process_line_def Let_def no_fuel)

lemma process_output_no_fuel [no_fuel]: "process_output mem ctx ls \<noteq> Halt NoFuel"
  by (induction ls arbitrary: ctx) (simp_all add: no_fuel)

lemma read_file_no_fuel [no_fuel]: "read_file env f b n \<noteq> Halt NoFuel"
  by (simp add: read_file_def no_fuel split: setting.splits)

lemma load_string_no_fuel [no_fuel]: "load_value_as_string env d path b n \<noteq> Halt NoFuel"
  by (simp add: load_value_as_string_def no_fuel split: option.splits setting.splits)

lemma load_line_no_fuel [no_fuel]: "load_line env d path n \<noteq> Halt NoFuel"
  by (simp add: load_line_def no_fuel split: cbuf.splits)

lemma conversions_no_fuel [no_fuel]:
  "string_to_bool s \<noteq> Halt NoFuel" "string_to_int s \<noteq> Halt NoFuel" "string_to_uint s \<noteq> Halt NoFuel"
  "string_to_mode s \<noteq> Halt NoFuel"
  by (simp_all add: string_to_bool_def string_to_int_def string_to_uint_def string_to_mode_def no_fuel Let_def
      split: option.splits prod.splits)

lemma conversions_no_fuel' [no_fuel]:
  "string_to_interval s \<noteq> Halt NoFuel" "string_to_uid db s \<noteq> Halt NoFuel" "string_to_gid db s \<noteq> Halt NoFuel"
  by (simp_all add: string_to_interval_def string_to_uid_def string_to_gid_def no_fuel split: option.splits)

lemma convert_no_fuel: "(\<And>s. conv s \<noteq> Halt NoFuel) \<Longrightarrow> convert path conv s \<noteq> Halt NoFuel"
  by (simp add: convert_def no_fuel)

lemma loaders_no_fuel [no_fuel]:
  "load_value_as_bool env d path \<noteq> Halt NoFuel" "load_value_as_int env d path \<noteq> Halt NoFuel"
  "load_value_as_uint env d path \<noteq> Halt NoFuel" "load_value_as_interval env d path \<noteq> Halt NoFuel"
  "load_value_as_uid env d path \<noteq> Halt NoFuel" "load_value_as_gid env d path \<noteq> Halt NoFuel"
  "load_value_as_mode env d path \<noteq> Halt NoFuel"
  by (simp_all add: loader_defs no_fuel convert_no_fuel split: option.splits)

section \<open>One service directory\<close>

lemma load_tokens_no_fuel:
  "(\<And>ts. body ts \<noteq> Halt NoFuel) \<Longrightarrow> load_tokens env d key limit tm body \<noteq> Halt NoFuel"
  by (simp add: load_tokens_def no_fuel Let_def split: cbuf.splits)

lemma check_env_no_fuel [no_fuel]: "check_env es \<noteq> Halt NoFuel"
  by (induction es) (simp_all add: check_env_entry_def no_fuel)

lemma add_sgids_no_fuel [no_fuel]: "add_sgids db gs ts \<noteq> Halt NoFuel"
  by (induction ts arbitrary: gs) (simp_all add: no_fuel)

lemma lists_no_fuel [no_fuel]:
  "load_params env d \<noteq> Halt NoFuel" "load_environment env d \<noteq> Halt NoFuel"
  "load_environment_extra env d \<noteq> Halt NoFuel" "load_sgid env d gs \<noteq> Halt NoFuel"
  by (simp_all add: load_params_def load_environment_def load_environment_extra_def load_sgid_def no_fuel
      load_tokens_no_fuel)

lemma keep_no_fuel: "r \<noteq> Halt NoFuel \<Longrightarrow> keep x r \<noteq> Halt NoFuel"
  by (simp add: keep_def no_fuel)

lemma load_workdir_no_fuel [no_fuel]: "load_workdir env d \<noteq> Halt NoFuel"
  by (simp add: load_workdir_def no_fuel split: cbuf.splits)

lemma load_settings_no_fuel [no_fuel]: "load_settings env d t s \<noteq> Halt NoFuel"
  by (simp add: load_settings_def validate_flags_def Let_def no_fuel keep_no_fuel)

lemma fill_service_no_fuel [no_fuel]: "fill_service env dk c name \<noteq> Halt NoFuel"
  by (simp add: fill_service_def fill_program_def Let_def no_fuel keep_no_fuel split: sum.splits)

lemma chdir_to_service_no_fuel [no_fuel]: "fst (chdir_to_service dk name c) \<noteq> Halt NoFuel"
  by (simp add: chdir_to_service_def throw_chdir_def Let_def no_fuel split: chdir_answer.splits)

lemma bind_st_no_fuel [no_fuel]:
  "fst (bind_st p f) = Halt NoFuel \<longleftrightarrow> fst p = Halt NoFuel \<or> (\<exists>x s. p = (Ok x, s) \<and> fst (f x s) = Halt NoFuel)"
  by (cases p; cases "fst p") auto

lemma load_service_no_fuel [no_fuel]: "fst (load_service env dk name c) \<noteq> Halt NoFuel"
  using fill_service_no_fuel [of env dk _ name]
  by (auto simp: load_service_def find_service_def no_fuel split: res.splits option.splits)

section \<open>Helper programs and time\<close>

lemma get_time_no_fuel [no_fuel]: "fst (get_time os c) \<noteq> Halt NoFuel"
  by (simp add: get_time_def no_time_def split: clock_answer.splits sum.splits)

lemma fd_step_no_fuel [no_fuel]: "fd_step e s \<noteq> Halt NoFuel"
  by (induction e s rule: fd_step.induct) (auto simp: Let_def split: read_result.splits prod.splits)

lemma process_fds_no_fuel [no_fuel]: "process_fds i fds es ss \<noteq> Halt NoFuel"
  by (induction i fds es ss rule: process_fds.induct) (simp_all add: no_fuel split: prod.splits)

lemma read_loop_no_fuel [no_fuel]: "read_loop cb fds ss its \<noteq> Halt NoFuel"
  by (induction cb fds ss its rule: read_loop.induct) (auto simp: no_fuel split: prod.splits if_splits)

lemma exec_cmd_no_fuel [no_fuel]: "exec_cmd env quiet pfx \<noteq> Halt NoFuel"
  by (simp add: exec_cmd_def log_prefixer_def read_lines_def no_fuel split: option.splits prod.splits)

lemma exec_service_cmd_no_fuel [no_fuel]: "fst (exec_service_cmd os sid cmd path arg c) \<noteq> Halt NoFuel"
proof -
  have n: "exec_cmd env q pfx = Halt h \<Longrightarrow> h \<noteq> NoFuel" for env q pfx h
    using exec_cmd_no_fuel by metis
  show ?thesis
    by (auto simp: exec_service_cmd_def Let_def split: res.splits option.splits dest: n)
qed

section \<open>Ending, with what holds then\<close>

text \<open>
  \<open>settles p Q\<close>: the fuel was enough, and \<open>Q\<close> holds after a normal return. The rules follow a program
  from its first call to its last, like a weakest precondition.
\<close>

definition settles :: "'a res \<times> 's \<Rightarrow> ('a \<Rightarrow> 's \<Rightarrow> bool) \<Rightarrow> bool" where
  "settles p Q \<longleftrightarrow> fst p \<noteq> Halt NoFuel \<and> (\<forall>x s. p = (Ok x, s) \<longrightarrow> Q x s)"

lemma settlesI: "fst p \<noteq> Halt NoFuel \<Longrightarrow> (\<And>x s. p = (Ok x, s) \<Longrightarrow> Q x s) \<Longrightarrow> settles p Q"
  by (simp add: settles_def)

lemma settles_simps [simp]:
  "settles (Ok x, s) Q \<longleftrightarrow> Q x s" "settles (Exn e, s) Q" "settles (Halt h, s) Q \<longleftrightarrow> h \<noteq> NoFuel"
  by (simp_all add: settles_def)

lemma settles_mono: "settles p Q \<Longrightarrow> (\<And>x s. Q x s \<Longrightarrow> R x s) \<Longrightarrow> settles p R"
  by (auto simp: settles_def)

lemma settles_bind: "settles (bind_st p f) Q \<longleftrightarrow> settles p (\<lambda>x s. settles (f x s) Q)"
  by (cases p; cases "fst p") (simp_all)

lemma settles_if [simp]: "settles (if b then p else q) Q \<longleftrightarrow> (b \<longrightarrow> settles p Q) \<and> (\<not> b \<longrightarrow> settles q Q)"
  by simp

lemma settles_True: "settles p (\<lambda>_ _. True) \<longleftrightarrow> fst p \<noteq> Halt NoFuel"
  by (simp add: settles_def)

end
