(* ===== verification/Supervisor.thy ===== *)
theory Supervisor
  imports Child Fuel
begin

text \<open>
  The life of a service in \<open>src/src/cinit/cinit.c\<close>: \<open>start_service\<close>, \<open>stop_service\<close>,
  \<open>handle_killed\<close> and \<open>child_handler\<close>. The locales \<open>reaping\<close>, \<open>stopping\<close> and \<open>service_life\<close> are the
  interface to the service table: what a property of the table has to satisfy to survive these
  operations. They are interpreted for the properties the rest of the development needs.
\<close>

section \<open>Starting\<close>

text \<open>The part of \<open>start_service\<close> that starts the logger thread.\<close>

definition start_logger :: "os \<Rightarrow> nat \<Rightarrow> cinit \<Rightarrow> unit res \<times> cinit" where
  "start_logger os sid c =
     (if logger_started (srv c sid)
      then (Halt (AssertFailed ''Logger thread already started for service''), c)
      else if \<not> os_malloc os (ticks c) then (throw_message ''out of memory'', c)
      else
        (let c1 = upd_srv sid (\<lambda>s. s\<lparr>logger_exit := False\<rparr>) c in
         case os_pthread_create os (ticks c1) of
           Some err \<Rightarrow>
             (throw_message (''Failed to create logger thread of service '' @ quoted (srv_name (srv c sid)) @ '': '' @ err),
              tick os c1)
         | None \<Rightarrow> (Ok (), upd_srv sid (\<lambda>s. s\<lparr>logger_started := True\<rparr>) (say (LoggerStarted sid) (tick os c1)))))"

text \<open>
  The thread: the lines of the output descriptor with the padded name in front, cut to the buffer of the prefix.
\<close>

definition service_logger :: "bool \<Rightarrow> nat \<Rightarrow> iteration list \<Rightarrow> cinit \<Rightarrow> ((std_output \<times> string) list \<times> loop_end) res" where
  "service_logger alloc sid script c =
     (if MAX_NUM_SERVICES \<le> sid then Halt (AssertFailed ''Invalid service ID'')
      else log_prefixer alloc (Some (take 511 (log_prefix (log_prefix_length c) (srv_name (srv c sid)))))
             (output_fd (srv c sid)) (- 1) True script)"

fun fork_attempts :: "os \<Rightarrow> nat \<Rightarrow> nat \<Rightarrow> cinit \<Rightarrow> unit res \<times> cinit" where
  "fork_attempts os 0 sid c = (throw_message_errno ''could not fork'' (os_strerror os (ticks c)), c)"
| "fork_attempts os (Suc n) sid c =
     bind_st (fork_and_exec os sid c) (\<lambda>p c1.
       let c2 = upd_srv sid (\<lambda>s. s\<lparr>pid := p\<rparr>) c1 in
       if p > 0 then
         bind_st (get_time os (log_debug (''started service '' @ quoted (srv_name (srv c2 sid)) @ ''.'') c2))
           (\<lambda>t c3. start_logger os sid (upd_srv sid (\<lambda>s. s\<lparr>start_time := t\<rparr>) c3))
       else fork_attempts os n sid (msleep os 500 c2))"

text \<open>The message of a start; a service that runs at an interval is started too often to be announced.\<close>

definition announce_start :: "nat \<Rightarrow> cinit \<Rightarrow> cinit" where
  "announce_start sid c =
     (let msg = ''starting service '' @ quoted (srv_name (srv c sid)) @ ''...'' in
      if interval (srv c sid) > 0 \<or> debug c then log_debug msg c else log msg c)"

definition start_service :: "os \<Rightarrow> disk \<Rightarrow> nat \<Rightarrow> cinit \<Rightarrow> unit res \<times> cinit" where
  "start_service os dk sid c =
     (if MAX_NUM_SERVICES \<le> sid then (Halt (AssertFailed ''Invalid service ID''), c)
      else if is_service_started sid c then (Ok (), c)
      else bind_st (chdir_to_service dk (srv_name (srv c sid)) (announce_start sid c))
             (\<lambda>_ c2. fork_attempts os 4 sid c2))"

lemma same_core_announce: "same_core c (announce_start sid c)"
  by (simp add: announce_start_def Let_def same_core_log)

section \<open>Stopping\<close>

text \<open>A call whose result is not looked at.\<close>

definition ignore :: "'a res \<times> 's \<Rightarrow> unit res \<times> 's" where
  "ignore p = bind_st p (\<lambda>_ c. (Ok (), c))"

definition kill :: "os \<Rightarrow> int \<Rightarrow> int \<Rightarrow> cinit \<Rightarrow> cinit" where
  "kill os p sig c = say (Signalled p sig) (tick os c)"

definition stop_service :: "os \<Rightarrow> disk \<Rightarrow> nat \<Rightarrow> cinit \<Rightarrow> unit res \<times> cinit" where
  "stop_service os dk sid c =
     (if MAX_NUM_SERVICES \<le> sid then (Halt (AssertFailed ''Invalid service ID''), c)
      else if pid (srv c sid) = 0 then (Ok (), c)
      else
        (let name = srv_name (srv c sid) in
         bind_st (chdir_to_service dk name (log (''stopping service '' @ quoted name @ ''...'') c)) (\<lambda>_ c1.
         bind_st (if dk_executable dk (cwd c1) ''kill''
                  then ignore (exec_service_cmd os sid ''./kill'' ''kill'' (dec_int (pid (srv c1 sid))) c1)
                  else (Ok (), c1)) (\<lambda>_ c2.
           (Ok (), kill os (pid (srv c2 sid)) SIGTERM c2)))))"

section \<open>Reaping\<close>

fun exit_text :: "string \<Rightarrow> wstatus \<Rightarrow> string" where
  "exit_text name (WExited n) = ''service '' @ quoted name @ '' exited (with status '' @ dec_int n @ '').''"
| "exit_text name (WSignaled n) = ''service '' @ quoted name @ '' exited (got signal '' @ signal_to_str n @ '').''"
| "exit_text name WOther = ''service '' @ quoted name @ '' exited.''"

text \<open>A normal exit of a service that runs at an interval is not worth a message.\<close>

definition log_exit :: "nat \<Rightarrow> wstatus \<Rightarrow> cinit \<Rightarrow> cinit" where
  "log_exit sid status c =
     (case status of
        WExited n \<Rightarrow> if n \<noteq> 0 \<or> interval (srv c sid) = 0 \<or> debug c
                     then log (exit_text (srv_name (srv c sid)) status) c else c
      | _ \<Rightarrow> log (exit_text (srv_name (srv c sid)) status) c)"

definition join_logger :: "os \<Rightarrow> nat \<Rightarrow> cinit \<Rightarrow> unit res \<times> cinit" where
  "join_logger os sid c =
     (if logger_started (srv c sid) then
        (let name = quoted (srv_name (srv c sid));
             c1 = upd_srv sid (\<lambda>s. s\<lparr>logger_exit := True\<rparr>)
                    (log_debug (''waiting termination of logger thread of service '' @ name @ ''...'') c) in
         case os_pthread_join os (ticks c1) of
           Some err \<Rightarrow> (Halt (AssertFailed ''Failed to join logger thread of service''), tick os c1)
         | None \<Rightarrow>
             (Ok (), upd_srv sid (\<lambda>s. s\<lparr>logger_started := False\<rparr>)
               (log_debug (''logger thread of service '' @ name @ '' successfully terminated.'')
                 (say (LoggerJoined sid) (tick os c1)))))
      else (Ok (), c))"

definition close_output :: "nat \<Rightarrow> cinit \<Rightarrow> cinit" where
  "close_output sid c =
     (if output_fd (srv c sid) \<ge> 0
      then upd_srv sid (\<lambda>s. s\<lparr>output_fd := - 1\<rparr>) (say (ClosedFd (output_fd (srv c sid))) c)
      else c)"

fun exit_status_of :: "int \<Rightarrow> wstatus \<Rightarrow> int" where
  "exit_status_of other (WExited n) = n"
| "exit_status_of other (WSignaled n) = 128 + n"
| "exit_status_of other WOther = other"

definition run_finish :: "os \<Rightarrow> disk \<Rightarrow> nat \<Rightarrow> wstatus \<Rightarrow> cinit \<Rightarrow> unit res \<times> cinit" where
  "run_finish os dk sid status c =
     try_catch
       (bind_st (chdir_to_service dk (srv_name (srv c sid)) c) (\<lambda>_ c1.
          if dk_executable dk (cwd c1) ''finish''
          then ignore (exec_service_cmd os sid ''./finish'' ''finish'' (dec_int (exit_status_of 126 status)) c1)
          else (Ok (), c1)))
       (\<lambda>e c1. (Ok (), log_err (''could not execute finish script of service ''
                          @ quoted (srv_name (srv c1 sid)) @ '': '' @ e @ ''.'') c1))"

definition trigger_shutdown :: "nat \<Rightarrow> wstatus \<Rightarrow> cinit \<Rightarrow> cinit" where
  "trigger_shutdown sid status c =
     (if \<not> do_shutdown c \<and> \<not> restart_requested (srv c sid) \<and> shutdown_on_terminate (srv c sid)
      then (request_shutdown (log (''service '' @ quoted (srv_name (srv c sid)) @ '' exited, shutting down...'') c))
             \<lparr>exit_code := exit_status_of 1 status\<rparr>
      else c)"

definition handle_killed :: "os \<Rightarrow> disk \<Rightarrow> int \<Rightarrow> wstatus \<Rightarrow> cinit \<Rightarrow> unit res \<times> cinit" where
  "handle_killed os dk killed status c =
     (if killed = - 1 \<or> killed = 0 then (Ok (), c)
      else
        (case find_service_by_pid killed c of
           None \<Rightarrow> (Ok (), c)
         | Some sid \<Rightarrow>
             bind_st (join_logger os sid (upd_srv sid (\<lambda>s. s\<lparr>pid := 0\<rparr>) (log_exit sid status c))) (\<lambda>_ c1.
             bind_st (run_finish os dk sid status (close_output sid c1)) (\<lambda>_ c2.
               (Ok (), trigger_shutdown sid status c2)))))"

text \<open>The return value and the status of \<open>waitpid\<close>.\<close>

fun reaped_pid :: "reaped \<Rightarrow> int" where
  "reaped_pid (Reaped p status) = p"
| "reaped_pid StillRunning = 0"
| "reaped_pid _ = - 1"

fun reaped_status :: "reaped \<Rightarrow> wstatus" where
  "reaped_status (Reaped p status) = status"
| "reaped_status _ = WOther"

text \<open>The inner loop of \<open>child_handler\<close>; it returns the last value of \<open>killed\<close>.\<close>

fun reap :: "os \<Rightarrow> disk \<Rightarrow> nat \<Rightarrow> cinit \<Rightarrow> int res \<times> cinit" where
  "reap os dk 0 c = (Halt NoFuel, c)"
| "reap os dk (Suc fuel) c =
     (let w = os_waitpid os (ticks c) (- 1); killed = reaped_pid w in
      bind_st (handle_killed os dk killed (reaped_status w) (tick os c)) (\<lambda>_ c1.
        if killed \<noteq> 0 \<and> killed \<noteq> - 1 then reap os dk fuel c1 else (Ok killed, c1)))"

text \<open>\<open>now\<close> and the difference are unsigned; \<open>period\<close> is converted to the same type.\<close>

definition period_over :: "os \<Rightarrow> int \<Rightarrow> msec \<Rightarrow> cinit \<Rightarrow> bool res \<times> cinit" where
  "period_over os period now c =
     (if period = 0 then (Ok True, c)
      else if period > 0 then bind_st (get_time os c) (\<lambda>t c1. (Ok (of_int period \<le> t - now), c1))
      else (Ok False, c))"

fun child_loop :: "os \<Rightarrow> disk \<Rightarrow> nat \<Rightarrow> msec \<Rightarrow> int \<Rightarrow> int \<Rightarrow> cinit \<Rightarrow> bool res \<times> cinit" where
  "child_loop os dk 0 now period service c = (Halt NoFuel, c)"
| "child_loop os dk (Suc fuel) now period service c =
     bind_st (reap os dk fuel c) (\<lambda>killed c1.
       if killed = - 1 then (Ok True, c1)
       else bind_st (period_over os period now c1) (\<lambda>stop c2.
         if stop then (Ok False, c2)
         else if service \<ge> 0 \<and> killed \<noteq> 0 then
           (if nat service < MAX_NUM_SERVICES then
              (if pid (srv c2 (nat service)) = 0 then (Ok False, c2)
               else child_loop os dk fuel now period service (msleep os 50 c2))
            else (Halt (AssertFailed ''Invalid service ID''), c2))
         else child_loop os dk fuel now period service (msleep os 50 c2)))"

definition child_handler :: "os \<Rightarrow> disk \<Rightarrow> nat \<Rightarrow> int \<Rightarrow> int \<Rightarrow> cinit \<Rightarrow> bool res \<times> cinit" where
  "child_handler os dk fuel period service c =
     bind_st (get_time os c) (\<lambda>now c1. child_loop os dk fuel now period service c1)"


section \<open>The interface to the service table\<close>

text \<open>
  What a state may become: the start order and the options stay, the names in the table stay, a shutdown request
  stays, the clock does not run backwards, \<open>J\<close> is kept, and every signal and every start of a process is one that \<open>K\<close> allows.
\<close>

definition evolves :: "(service list \<Rightarrow> bool) \<Rightarrow> (action \<Rightarrow> bool) \<Rightarrow> cinit \<Rightarrow> cinit \<Rightarrow> bool" where
  "evolves J K c c' \<longleftrightarrow>
     start_order c' = start_order c \<and> services_root c' = services_root c
     \<and> services_gracetime c' = services_gracetime c \<and> debug c' = debug c
     \<and> map srv_name (services c') = map srv_name (services c) \<and> (do_shutdown c \<longrightarrow> do_shutdown c')
     \<and> ticks c \<le> ticks c'
     \<and> (J (services c) \<longrightarrow> J (services c')
          \<and> (\<exists>new. actions c' = actions c @ new \<and> (\<forall>a\<in>set new. loud a \<longrightarrow> K a)))"

text \<open>The same for a call that returns; a halt ends the process and is not looked at.\<close>

definition runs :: "(service list \<Rightarrow> bool) \<Rightarrow> (action \<Rightarrow> bool) \<Rightarrow> cinit \<Rightarrow> 'a res \<times> cinit \<Rightarrow> bool" where
  "runs J K c p \<longleftrightarrow> ((\<forall>h. fst p \<noteq> Halt h) \<longrightarrow> evolves J K c (snd p))"

definition named :: "nat \<Rightarrow> cinit \<Rightarrow> bool" where
  "named sid c \<longleftrightarrow> sid < length (services c) \<and> srv_name (srv c sid) \<noteq> []"

definition forkpty_ok :: "os \<Rightarrow> bool" where
  "forkpty_ok os \<longleftrightarrow> (\<forall>t p fd. os_forkpty os t = Some (p, fd) \<longrightarrow> 0 < p)"

lemma evolves_refl [simp, intro]: "evolves J K c c"
  by (simp add: evolves_def)

lemma evolves_trans:
  assumes "evolves J K a b" and "evolves J K b c" shows "evolves J K a c"
proof -
  have "J (services a) \<longrightarrow> J (services c)
      \<and> (\<exists>new. actions c = actions a @ new \<and> (\<forall>a\<in>set new. loud a \<longrightarrow> K a))"
  proof
    assume j: "J (services a)"
    obtain n1 where n1: "actions b = actions a @ n1" "\<forall>a\<in>set n1. loud a \<longrightarrow> K a"
      and jb: "J (services b)" using assms(1) j unfolding evolves_def by blast
    obtain n2 where n2: "actions c = actions b @ n2" "\<forall>a\<in>set n2. loud a \<longrightarrow> K a"
      and jc: "J (services c)" using assms(2) jb unfolding evolves_def by blast
    have "actions c = actions a @ (n1 @ n2)" "\<forall>a\<in>set (n1 @ n2). loud a \<longrightarrow> K a"
      using n1 n2 by auto
    with jc show "J (services c) \<and> (\<exists>new. actions c = actions a @ new \<and> (\<forall>a\<in>set new. loud a \<longrightarrow> K a))"
      by blast
  qed
  with assms show ?thesis unfolding evolves_def by simp
qed

lemma evolves_core: "same_core c c' \<Longrightarrow> evolves J K c c'"
proof -
  assume s: "same_core c c'"
  then obtain new where new: "actions c' = actions c @ new" "\<forall>a\<in>set new. \<not> loud a"
    by (auto simp: same_core_def quiet_actions_def)
  with s new show ?thesis by (auto simp: evolves_def same_core_def)
qed

lemma evolves_named: "evolves J K c c' \<Longrightarrow> named sid c' = named sid c"
proof -
  assume "evolves J K c c'"
  then have m: "map srv_name (services c') = map srv_name (services c)" by (simp add: evolves_def)
  then have l: "length (services c') = length (services c)" by (metis length_map)
  then have "sid < length (services c) \<Longrightarrow> srv_name (srv c' sid) = srv_name (srv c sid)"
    using m by (metis nth_map)
  with l show ?thesis by (auto simp: named_def)
qed

lemma runs_simps [simp]:
  "runs J K c (Ok x, c') = evolves J K c c'" "runs J K c (Exn e, c') = evolves J K c c'"
  "runs J K c (Halt h, c')" "runs J K c (throw_message m, c') \<longleftrightarrow> length m < max_message \<longrightarrow> evolves J K c c'"
  by (auto simp: runs_def throw_message_def)

lemma runs_throw: "evolves J K c c' \<Longrightarrow> runs J K c (throw_message m, c')"
    "evolves J K c c' \<Longrightarrow> runs J K c (throw_message_errno m err, c')"
  by (simp_all add: runs_def)

lemma runs_bind:
  assumes "runs J K c p" and "\<And>x c1. p = (Ok x, c1) \<Longrightarrow> evolves J K c c1 \<Longrightarrow> runs J K c1 (f x c1)"
  shows "runs J K c (bind_st p f)"
proof -
  obtain r c1 where p: "p = (r, c1)" by fastforce
  show ?thesis
  proof (cases r)
    case (Ok x)
    with assms p have e: "evolves J K c c1" by simp
    with assms p Ok have "runs J K c1 (f x c1)" by simp
    with e show ?thesis unfolding p Ok runs_def by (auto intro: evolves_trans)
  qed (use assms p in simp_all)
qed

lemma runs_core: "evolves J K c c1 \<Longrightarrow> runs J K c1 p \<Longrightarrow> runs J K c p"
  unfolding runs_def using evolves_trans by blast

lemma runs_try:
  assumes "runs J K c p" and "\<And>e c1. p = (Exn e, c1) \<Longrightarrow> evolves J K c c1 \<Longrightarrow> runs J K c1 (h e c1)"
  shows "runs J K c (try_catch p h)"
proof -
  obtain r c1 where p: "p = (r, c1)" by fastforce
  show ?thesis
  proof (cases r)
    case (Exn e)
    with assms p have e: "evolves J K c c1" by simp
    with assms p Exn have "runs J K c1 (h e c1)" by simp
    with e show ?thesis unfolding p Exn by (auto intro: runs_core)
  qed (use assms p in simp_all)
qed

lemma runs_get_time: "runs J K c (get_time os c)"
  unfolding runs_def using same_core_get_time [of os c "fst (get_time os c)" "snd (get_time os c)"]
  by (simp add: evolves_core)

lemma runs_exec: "runs J K c (exec_service_cmd os sid cmd path arg c)"
  unfolding runs_def
  using same_core_exec [of os sid cmd path arg c "fst (exec_service_cmd os sid cmd path arg c)"
      "snd (exec_service_cmd os sid cmd path arg c)"]
  by (simp add: evolves_core)

lemma runs_chdir: "runs J K c (chdir_to_service dk name c)"
proof -
  obtain r c' where p: "chdir_to_service dk name c = (r, c')" by fastforce
  then obtain w where "c' = c\<lparr>cwd := w\<rparr>" using chdir_to_service_frame by blast
  then show ?thesis by (simp add: p runs_def evolves_def)
qed

lemma runs_ignore: "runs J K c p \<Longrightarrow> runs J K c (ignore p)"
  unfolding ignore_def by (rule runs_bind) simp_all

lemma services_upd [simp]:
  "services (upd_srv sid f c) = (services c)[sid := f (srv c sid)]" "actions (upd_srv sid f c) = actions c"
  "start_order (upd_srv sid f c) = start_order c" "do_shutdown (upd_srv sid f c) = do_shutdown c"
  "services_root (upd_srv sid f c) = services_root c" "debug (upd_srv sid f c) = debug c"
  "services_gracetime (upd_srv sid f c) = services_gracetime c" "ticks (upd_srv sid f c) = ticks c"
  by (simp_all add: upd_srv_def)

lemma services_same [simp]:
  "services (tick os c) = services c" "services (log m c) = services c" "services (log_debug m c) = services c"
  "services (log_err m c) = services c" "services (msleep os ms c) = services c" "services (say a c) = services c"
  using same_core_tick [of c os] same_core_log [of c m] same_core_msleep [of c os ms]
  by (simp_all add: same_core_def say_def)

text \<open>An update that keeps the name and whatever \<open>J\<close> demands.\<close>

lemma evolves_upd:
  assumes "srv_name (f (srv c sid)) = srv_name (srv c sid)"
    and "J (services c) \<Longrightarrow> J ((services c)[sid := f (srv c sid)])"
  shows "evolves J K c (upd_srv sid f c)"
proof -
  have "(map srv_name (services c))[sid := srv_name (srv c sid)] = map srv_name (services c)"
    by (metis length_map list_update_beyond list_update_id not_less nth_map)
  with assms show ?thesis by (auto simp: evolves_def map_update)
qed

lemma runs_run_finish: "runs J K c (run_finish os dk sid status c)"
  unfolding run_finish_def
  by (rule runs_try, rule runs_bind [OF runs_chdir])
    (simp_all add: runs_ignore runs_exec evolves_core same_core_log)

lemma evolves_trigger_shutdown: "evolves J K c (trigger_shutdown sid status c)"
proof -
  have "same_core c (log m c)" for m by (rule same_core_log)
  then have "evolves J K c (log m c)" for m by (rule evolves_core)
  then show ?thesis by (auto simp: trigger_shutdown_def request_shutdown_def evolves_def)
qed

text \<open>
  The service of a dead process: its PID is cleared, its logger joined and its output closed.
\<close>

lemma bury:
  assumes n: "named sid c" and j: "join_logger os sid (upd_srv sid (\<lambda>s. s\<lparr>pid := 0\<rparr>) c) = (Ok u, c1)"
  obtains fd b where "fd < 0" "services (close_output sid c1)
      = (services c)[sid := (srv c sid)\<lparr>pid := 0, logger_exit := b, logger_started := False, output_fd := fd\<rparr>]"
    "evolves (\<lambda>_. True) K c (close_output sid c1)"
proof -
  let ?c0 = "upd_srv sid (\<lambda>s. s\<lparr>pid := 0\<rparr>) c"
  have len: "sid < length (services c)" using n by (simp add: named_def)
  let ?T = "\<lambda>_::service list. True"
  have u: "evolves ?T K x (upd_srv sid f x)" if "\<And>s. srv_name (f s) = srv_name s" for f x
    by (rule evolves_upd) (simp_all add: that)
  have e0: "evolves ?T K c ?c0" by (rule u) simp
  have e1: "evolves ?T K ?c0 c1 \<and> (\<exists>b. services c1 = (services c)[sid := (srv c sid)\<lparr>pid := 0, logger_exit := b, logger_started := False\<rparr>])"
  proof (cases "logger_started (srv ?c0 sid)")
    case False
    then have c1: "c1 = ?c0" using j by (simp add: join_logger_def)
    have "(srv c sid)\<lparr>pid := 0\<rparr> = (srv c sid)\<lparr>pid := 0, logger_exit := logger_exit (srv c sid), logger_started := False\<rparr>"
      using False len by (cases "srv c sid") simp
    then have "services c1 = (services c)[sid := (srv c sid)\<lparr>pid := 0, logger_exit := logger_exit (srv c sid), logger_started := False\<rparr>]"
      using c1 by simp
    then show ?thesis using c1 evolves_refl by blast
  next
    case True
    define m1 m2 where "m1 = ''waiting termination of logger thread of service '' @ quoted (srv_name (srv ?c0 sid)) @ ''...''"
      and "m2 = ''logger thread of service '' @ quoted (srv_name (srv ?c0 sid)) @ '' successfully terminated.''"
    let ?x = "upd_srv sid (\<lambda>s. s\<lparr>logger_exit := True\<rparr>) (log_debug m1 ?c0)"
    let ?y = "log_debug m2 (say (LoggerJoined sid) (tick os ?x))"
    have c1: "c1 = upd_srv sid (\<lambda>s. s\<lparr>logger_started := False\<rparr>) ?y"
      using j True by (simp add: join_logger_def Let_def m1_def m2_def split: option.splits)
    have sx: "services ?x = (services c)[sid := (srv c sid)\<lparr>pid := 0, logger_exit := True\<rparr>]"
      using len by simp
    have qy: "same_core ?x ?y"
      by (rule same_core_trans [OF same_core_trans [OF same_core_tick same_core_say] same_core_log(4)]) simp
    have "services c1 = (services c)[sid := (srv c sid)\<lparr>pid := 0, logger_exit := True, logger_started := False\<rparr>]"
      using len by (simp add: c1)
    moreover have "evolves ?T K ?c0 ?x"
      by (rule evolves_trans [OF evolves_core [OF same_core_log(4)] u]) simp
    then have "evolves ?T K ?c0 ?y" using evolves_trans evolves_core [OF qy] by blast
    then have "evolves ?T K ?c0 c1" unfolding c1 by (rule evolves_trans [OF _ u]) simp
    ultimately show ?thesis by blast
  qed
  then obtain b where s1: "services c1 = (services c)[sid := (srv c sid)\<lparr>pid := 0, logger_exit := b, logger_started := False\<rparr>]"
    by blast
  have e2: "evolves ?T K c1 (close_output sid c1) \<and> (\<exists>fd < 0. services (close_output sid c1)
      = (services c)[sid := (srv c sid)\<lparr>pid := 0, logger_exit := b, logger_started := False, output_fd := fd\<rparr>])"
  proof (cases "output_fd (srv c1 sid) \<ge> 0")
    case True
    let ?z = "say (ClosedFd (output_fd (srv c1 sid))) c1"
    have z: "same_core c1 ?z" by (rule same_core_say) simp
    have cl: "close_output sid c1 = upd_srv sid (\<lambda>s. s\<lparr>output_fd := - 1\<rparr>) ?z" using True by (simp add: close_output_def)
    have "services (close_output sid c1) = (services c)[sid := (srv c sid)\<lparr>pid := 0, logger_exit := b, logger_started := False, output_fd := - 1\<rparr>]"
      using len z by (simp add: cl s1 same_core_def)
    moreover have "evolves ?T K c1 (close_output sid c1)"
      unfolding cl by (rule evolves_trans [OF evolves_core [OF z] u]) simp
    ultimately show ?thesis by (auto intro: exI [of _ "- 1"])
  next
    case False
    then have cl: "close_output sid c1 = c1" by (simp add: close_output_def)
    have "output_fd (srv c sid) < 0" using False s1 len by simp
    moreover have "(srv c sid)\<lparr>pid := 0, logger_exit := b, logger_started := False\<rparr>
        = (srv c sid)\<lparr>pid := 0, logger_exit := b, logger_started := False, output_fd := output_fd (srv c sid)\<rparr>"
      by (cases "srv c sid") simp
    ultimately show ?thesis using cl s1 by auto
  qed
  then obtain fd where fd: "fd < 0" "services (close_output sid c1)
      = (services c)[sid := (srv c sid)\<lparr>pid := 0, logger_exit := b, logger_started := False, output_fd := fd\<rparr>]"
    by blast
  have "evolves ?T K c (close_output sid c1)"
    using e0 e1 e2 evolves_trans by blast
  with fd that show thesis by blast
qed

lemma find_service_by_pid_named: "find_service_by_pid p c = Some sid \<Longrightarrow> named sid c \<and> pid (srv c sid) = p"
  using num_services_le [of c] named_below [of sid c]
  by (auto simp: find_service_by_pid_def named_def dest!: find_index_Some)

text \<open>
  The contracts a property \<open>J\<close> of the table has to meet. To survive reaping it has to allow a service to lose
  its process; to survive stopping, the processes of the services have to be ones that may be signalled;
  and to survive a whole run it has to allow a service to get a process.
\<close>

locale reaping =
  fixes J :: "service list \<Rightarrow> bool"
  assumes dead: "\<lbrakk>J ss; sid < length ss; srv_name (ss ! sid) \<noteq> []; fd < 0\<rbrakk>
      \<Longrightarrow> J (ss[sid := (ss ! sid)\<lparr>pid := 0, logger_exit := b, logger_started := False, output_fd := fd\<rparr>])"
begin

lemma runs_bury:
  assumes n: "named sid c" and j: "join_logger os sid (upd_srv sid (\<lambda>s. s\<lparr>pid := 0\<rparr>) c) = (Ok u, c1)"
  shows "evolves J K c (close_output sid c1)"
proof -
  obtain fd b where fd: "fd < 0" "services (close_output sid c1)
      = (services c)[sid := (srv c sid)\<lparr>pid := 0, logger_exit := b, logger_started := False, output_fd := fd\<rparr>]"
    and e: "evolves (\<lambda>_. True) K c (close_output sid c1)"
    using bury [OF n j] by blast
  have "J (services c) \<Longrightarrow> J (services (close_output sid c1))"
    using n fd(1) unfolding fd(2) named_def by (intro dead) simp_all
  with e show ?thesis by (auto simp: evolves_def)
qed

lemma runs_handle_killed: "runs J K c (handle_killed os dk killed status c)"
proof -
  have main: "runs J K c (bind_st (join_logger os sid (upd_srv sid (\<lambda>s. s\<lparr>pid := 0\<rparr>) (log_exit sid status c))) (\<lambda>_ c1.
             bind_st (run_finish os dk sid status (close_output sid c1)) (\<lambda>_ c2.
               (Ok (), trigger_shutdown sid status c2))))" if "named sid c" for sid
  proof -
    let ?l = "log_exit sid status c"
    have sl: "same_core c ?l" by (simp add: log_exit_def same_core_log split: wstatus.split)
    have e1: "evolves J K c ?l" by (rule evolves_core [OF sl])
    have nl: "named sid ?l" using evolves_named [OF e1] that by simp
    obtain r c1 where j: "join_logger os sid (upd_srv sid (\<lambda>s. s\<lparr>pid := 0\<rparr>) ?l) = (r, c1)" by fastforce
    show ?thesis
    proof (cases r)
      case (Ok u)
      have e2: "evolves J K ?l (close_output sid c1)" by (rule runs_bury [OF nl j [unfolded Ok]])
      have "runs J K (close_output sid c1) (bind_st (run_finish os dk sid status (close_output sid c1)) (\<lambda>_ c2.
               (Ok (), trigger_shutdown sid status c2)))"
        by (rule runs_bind [OF runs_run_finish]) (simp add: evolves_trigger_shutdown)
      then show ?thesis using evolves_trans [OF e1 e2] by (simp add: j Ok runs_core)
    next
      case (Exn e)
      then show ?thesis using j by (auto simp: join_logger_def Let_def split: if_splits option.splits)
    next
      case (Halt h)
      then show ?thesis by (simp add: j)
    qed
  qed
  show ?thesis
    using main find_service_by_pid_named [of killed c]
    by (auto simp: handle_killed_def split: option.split)
qed

lemma runs_reap: "runs J K c (reap os dk fuel c)"
proof (induction fuel arbitrary: c)
  case (Suc fuel)
  let ?w = "os_waitpid os (ticks c) (- 1)"
  have "runs J K (tick os c) (bind_st (handle_killed os dk (reaped_pid ?w) (reaped_status ?w) (tick os c)) (\<lambda>_ c1.
        if reaped_pid ?w \<noteq> 0 \<and> reaped_pid ?w \<noteq> - 1 then reap os dk fuel c1 else (Ok (reaped_pid ?w), c1)))"
    by (rule runs_bind [OF runs_handle_killed]) (simp add: Suc)
  then show ?case by (simp add: Let_def runs_core [OF evolves_core [OF same_core_tick]])
qed simp

lemma runs_child_loop: "runs J K c (child_loop os dk fuel now period service c)"
proof (induction fuel arbitrary: c)
  case (Suc fuel)
  have p: "runs J K c1 (period_over os period now c1)" for c1
    unfolding period_over_def by (auto intro!: runs_bind [OF runs_get_time])
  have e: "evolves J K c2 (msleep os 50 c2)" for c2 by (rule evolves_core [OF same_core_msleep])
  have "runs J K c2 (child_loop os dk fuel now period service (msleep os 50 c2))" for c2
    by (rule runs_core [OF e Suc.IH])
  then show ?case
    by (auto intro!: runs_bind [OF runs_reap] runs_bind [OF p])
qed simp

lemma runs_child_handler: "runs J K c (child_handler os dk fuel period service c)"
  unfolding child_handler_def by (rule runs_bind [OF runs_get_time runs_child_loop])

end

locale stopping = reaping +
  fixes K :: "action \<Rightarrow> bool"
  assumes signal: "\<lbrakk>J ss; sid < length ss; srv_name (ss ! sid) \<noteq> []; pid (ss ! sid) \<noteq> 0\<rbrakk> \<Longrightarrow> K (Signalled (pid (ss ! sid)) SIGTERM)"
begin

lemma runs_stop_service:
  assumes "named sid c" shows "runs J K c (stop_service os dk sid c)"
proof -
  define name where "name = srv_name (srv c sid)"
  define c1 where "c1 = log (''stopping service '' @ quoted name @ ''...'') c"
  have sc: "same_core c c1" by (simp add: c1_def same_core_log)
  have e1: "evolves J K c c1" by (rule evolves_core [OF sc])
  have last: "runs J K c2 (Ok (), kill os (pid (srv c2 sid)) SIGTERM c2)"
    if n: "named sid c2" and p: "pid (srv c2 sid) \<noteq> 0" for c2
  proof -
    have t: "same_core c2 (tick os c2)" by (rule same_core_tick)
    let ?k = "kill os (pid (srv c2 sid)) SIGTERM c2"
    have e: "evolves J K (tick os c2) ?k" if "J (services c2) \<Longrightarrow> K (Signalled (pid (srv c2 sid)) SIGTERM)"
      using that t by (auto simp: evolves_def kill_def say_def same_core_def)
    have "J (services c2) \<Longrightarrow> K (Signalled (pid (srv c2 sid)) SIGTERM)" using n p unfolding named_def by (intro signal) simp_all
    then show ?thesis using evolves_trans [OF evolves_core [OF t] e] by simp
  qed
  have main: "runs J K c1 (bind_st (chdir_to_service dk name c1) (\<lambda>_ c1.
         bind_st (if dk_executable dk (cwd c1) ''kill''
                  then ignore (exec_service_cmd os sid ''./kill'' ''kill'' (dec_int (pid (srv c1 sid))) c1)
                  else (Ok (), c1)) (\<lambda>_ c2. (Ok (), kill os (pid (srv c2 sid)) SIGTERM c2))))"
    if p: "pid (srv c sid) \<noteq> 0"
  proof (rule runs_bind [OF runs_chdir])
    fix x c2 assume ch: "chdir_to_service dk name c1 = (Ok x, c2)" and e2: "evolves J K c1 c2"
    obtain w where "c2 = c1\<lparr>cwd := w\<rparr>" using chdir_to_service_frame [OF ch] by blast
    then have s2: "services c2 = services c" using sc by (simp add: same_core_def)
    show "runs J K c2 (bind_st (if dk_executable dk (cwd c2) ''kill''
                  then ignore (exec_service_cmd os sid ''./kill'' ''kill'' (dec_int (pid (srv c2 sid))) c2)
                  else (Ok (), c2)) (\<lambda>_ c2. (Ok (), kill os (pid (srv c2 sid)) SIGTERM c2)))"
      (is "runs J K c2 (bind_st ?p _)")
    proof (rule runs_bind)
      show "runs J K c2 ?p" by (simp add: runs_ignore runs_exec)
      fix y c3 assume q: "?p = (Ok y, c3)"
      have "services c3 = services c"
      proof (cases "dk_executable dk (cwd c2) ''kill''")
        case True
        then obtain z where "exec_service_cmd os sid ''./kill'' ''kill'' (dec_int (pid (srv c2 sid))) c2 = (Ok z, c3)"
          using q by (auto simp: ignore_def bind_st_Ok)
        then show ?thesis using same_core_exec s2 unfolding same_core_def by fastforce
      qed (use q s2 in simp)
      then show "runs J K c3 (Ok (), kill os (pid (srv c3 sid)) SIGTERM c3)"
        using last [of c3] assms p by (simp add: named_def)
    qed
  qed
  have "stop_service os dk sid c =
      (if MAX_NUM_SERVICES \<le> sid then (Halt (AssertFailed ''Invalid service ID''), c)
       else if pid (srv c sid) = 0 then (Ok (), c)
       else bind_st (chdir_to_service dk name c1) (\<lambda>_ c1.
         bind_st (if dk_executable dk (cwd c1) ''kill''
                  then ignore (exec_service_cmd os sid ''./kill'' ''kill'' (dec_int (pid (srv c1 sid))) c1)
                  else (Ok (), c1)) (\<lambda>_ c2. (Ok (), kill os (pid (srv c2 sid)) SIGTERM c2))))"
    by (simp only: stop_service_def Let_def c1_def name_def)
  then show ?thesis using main by (auto intro: runs_core [OF e1])
qed

end

locale service_life = stopping +
  assumes forked: "\<lbrakk>J ss; sid < length ss; srv_name (ss ! sid) \<noteq> []; pid (ss ! sid) = 0; 0 < p\<rbrakk>
      \<Longrightarrow> J (ss[sid := (ss ! sid)\<lparr>output_fd := fd, pid := p\<rparr>])"
    and fork_action: "\<lbrakk>J ss; sid < length ss; srv_name (ss ! sid) \<noteq> []; 0 < p\<rbrakk> \<Longrightarrow> K (Forked sid p)"
    and started_at: "\<lbrakk>J ss; sid < length ss; srv_name (ss ! sid) \<noteq> []\<rbrakk> \<Longrightarrow> J (ss[sid := (ss ! sid)\<lparr>start_time := t\<rparr>])"
    and exit_flag: "\<lbrakk>J ss; sid < length ss; srv_name (ss ! sid) \<noteq> []\<rbrakk> \<Longrightarrow> J (ss[sid := (ss ! sid)\<lparr>logger_exit := b\<rparr>])"
    and restart_flag: "\<lbrakk>J ss; sid < length ss; srv_name (ss ! sid) \<noteq> []\<rbrakk> \<Longrightarrow> J (ss[sid := (ss ! sid)\<lparr>restart_requested := b\<rparr>])"
    and logging: "\<lbrakk>J ss; sid < length ss; srv_name (ss ! sid) \<noteq> []; pid (ss ! sid) \<noteq> 0\<rbrakk>
      \<Longrightarrow> J (ss[sid := (ss ! sid)\<lparr>logger_started := True\<rparr>])"
begin

lemma evolves_start_time: "named sid c \<Longrightarrow> evolves J K c (upd_srv sid (\<lambda>s. s\<lparr>start_time := t\<rparr>) c)"
  by (rule evolves_upd) (auto simp: named_def intro: started_at)

lemma evolves_restart: "named sid c \<Longrightarrow> evolves J K c (upd_srv sid (\<lambda>s. s\<lparr>restart_requested := b\<rparr>) c)"
  by (rule evolves_upd) (auto simp: named_def intro: restart_flag)

lemma runs_start_logger:
  assumes n: "named sid c" and p: "pid (srv c sid) \<noteq> 0" shows "runs J K c (start_logger os sid c)"
proof -
  let ?c1 = "upd_srv sid (\<lambda>s. s\<lparr>logger_exit := False\<rparr>) c"
  have e1: "evolves J K c ?c1" by (rule evolves_upd) (use n in \<open>auto simp: named_def intro: exit_flag\<close>)
  have e2: "evolves J K c (tick os ?c1)" by (rule evolves_trans [OF e1 evolves_core [OF same_core_tick]])
  let ?c2 = "say (LoggerStarted sid) (tick os ?c1)"
  have e3: "evolves J K c ?c2" by (rule evolves_trans [OF e2 evolves_core [OF same_core_say]]) simp
  have "evolves J K ?c2 (upd_srv sid (\<lambda>s. s\<lparr>logger_started := True\<rparr>) ?c2)"
  proof (rule evolves_upd)
    assume "J (services ?c2)"
    with n p show "J ((services ?c2)[sid := (srv ?c2 sid)\<lparr>logger_started := True\<rparr>])"
      unfolding named_def by (intro logging) simp_all
  qed simp
  then have "evolves J K c (upd_srv sid (\<lambda>s. s\<lparr>logger_started := True\<rparr>) ?c2)" using e3 evolves_trans by blast
  with e2 show ?thesis by (simp add: start_logger_def Let_def split: option.split)
qed

lemma runs_forked:
  assumes ok: "forkpty_ok os" and n: "named sid c" and p0: "pid (srv c sid) = 0"
    and f: "fork_and_exec os sid c = (Ok p, c1)"
  shows "evolves J K c (upd_srv sid (\<lambda>s. s\<lparr>pid := p\<rparr>) c1) \<and> named sid (upd_srv sid (\<lambda>s. s\<lparr>pid := p\<rparr>) c1)
    \<and> pid (srv (upd_srv sid (\<lambda>s. s\<lparr>pid := p\<rparr>) c1) sid) = p"
proof -
  let ?c2 = "upd_srv sid (\<lambda>s. s\<lparr>pid := p\<rparr>) c1"
  have st: "services (tick os c) = services c" using same_core_tick [of c os] by (simp add: same_core_def)
  have len: "sid < length (services c)" using n by (simp add: named_def)
  have "evolves J K c ?c2 \<and> sid < length (services c1)"
  proof (cases "os_forkpty os (ticks c)")
    case None
    then have c1: "c1 = tick os c" "p = 0" using f by (auto simp: fork_and_exec_def split: if_splits)
    have "(srv c sid)\<lparr>pid := 0\<rparr> = srv c sid" using p0 by (cases "srv c sid") simp
    moreover have "(tick os c)\<lparr>services := services c\<rparr> = tick os c"
      by (subst services_same(1) [of os c, symmetric]) (simp del: services_same)
    ultimately have "?c2 = tick os c" by (simp only: c1 upd_srv_def services_same list_update_id)
    then show ?thesis using c1 st len evolves_core [OF same_core_tick] by simp
  next
    case (Some q)
    then obtain fd where q: "os_forkpty os (ticks c) = Some (p, fd)"
      and c1: "c1 = upd_srv sid (\<lambda>s. s\<lparr>output_fd := fd\<rparr>) (say (Forked sid p) (tick os c))"
      using f by (auto simp: fork_and_exec_def split: if_splits prod.splits)
    let ?c0 = "say (Forked sid p) (tick os c)"
    have pos: "0 < p" using ok q unfolding forkpty_ok_def by blast
    have t0: "evolves J K c (tick os c)" by (rule evolves_core [OF same_core_tick])
    have "J (services c) \<Longrightarrow> K (Forked sid p)" using n pos fork_action [of "services c" sid p] by (simp add: named_def)
    then have "evolves J K (tick os c) ?c0" using st by (auto simp: evolves_def say_def)
    then have e0: "evolves J K c ?c0" by (rule evolves_trans [OF t0])
    have s0: "services ?c0 = services c" using st by (simp add: say_def)
    have c2: "?c2 = upd_srv sid (\<lambda>s. s\<lparr>output_fd := fd, pid := p\<rparr>) ?c0"
      using len s0 by (simp add: c1 upd_srv_def)
    have "evolves J K ?c0 (upd_srv sid (\<lambda>s. s\<lparr>output_fd := fd, pid := p\<rparr>) ?c0)"
      by (rule evolves_upd) (use n p0 pos s0 in \<open>auto simp: named_def intro: forked\<close>)
    then show ?thesis using e0 evolves_trans len s0 unfolding c2 by (auto simp: c1)
  qed
  moreover from this have "named sid ?c2" using evolves_named n by blast
  ultimately show ?thesis by simp
qed

lemma runs_fork_attempts:
  "forkpty_ok os \<Longrightarrow> named sid c \<Longrightarrow> pid (srv c sid) = 0 \<Longrightarrow> runs J K c (fork_attempts os n sid c)"
proof (induction n arbitrary: c)
  case 0
  then show ?case by (simp add: runs_throw)
next
  case (Suc n)
  obtain r c1 where f: "fork_and_exec os sid c = (r, c1)" by fastforce
  show ?case
  proof (cases r)
    case (Ok p)
    let ?c2 = "upd_srv sid (\<lambda>s. s\<lparr>pid := p\<rparr>) c1"
    let ?m = "''started service '' @ quoted (srv_name (srv ?c2 sid)) @ ''.''"
    have e2: "evolves J K c ?c2" and n2: "named sid ?c2" and p2: "pid (srv ?c2 sid) = p"
      using runs_forked [OF Suc.prems f [unfolded Ok]] by auto
    show ?thesis
    proof (cases "p > 0")
      case True
      have go: "runs J K (log_debug ?m ?c2)
          (bind_st (get_time os (log_debug ?m ?c2)) (\<lambda>t c3. start_logger os sid (upd_srv sid (\<lambda>s. s\<lparr>start_time := t\<rparr>) c3)))"
      proof (rule runs_bind [OF runs_get_time])
        fix t c3 assume g: "get_time os (log_debug ?m ?c2) = (Ok t, c3)" and e3: "evolves J K (log_debug ?m ?c2) c3"
        have s3: "services c3 = services ?c2"
          using same_core_get_time [OF g] same_core_log(4) [of ?c2 ?m] by (simp add: same_core_def)
        have n3: "named sid c3" using n2 unfolding named_def s3 .
        have e4: "evolves J K c3 (upd_srv sid (\<lambda>s. s\<lparr>start_time := t\<rparr>) c3)" by (rule evolves_start_time [OF n3])
        have n4: "named sid (upd_srv sid (\<lambda>s. s\<lparr>start_time := t\<rparr>) c3)" using evolves_named [OF e4] n3 by simp
        have "pid (srv (upd_srv sid (\<lambda>s. s\<lparr>start_time := t\<rparr>) c3) sid) \<noteq> 0"
          using n3 s3 p2 True by (simp add: named_def)
        then show "runs J K c3 (start_logger os sid (upd_srv sid (\<lambda>s. s\<lparr>start_time := t\<rparr>) c3))"
          by (rule runs_core [OF e4 runs_start_logger [OF n4]])
      qed
      have "evolves J K c (log_debug ?m ?c2)" by (rule evolves_trans [OF e2 evolves_core [OF same_core_log(4)]])
      then have "runs J K c (bind_st (get_time os (log_debug ?m ?c2)) (\<lambda>t c3. start_logger os sid (upd_srv sid (\<lambda>s. s\<lparr>start_time := t\<rparr>) c3)))"
        by (rule runs_core [OF _ go])
      then show ?thesis using True by (simp add: f Ok Let_def)
    next
      case False
      have "p = 0"
        using f Ok False Suc.prems(1) by (auto simp: fork_and_exec_def forkpty_ok_def split: if_splits option.splits)
      let ?c3 = "msleep os 500 ?c2"
      have e3: "evolves J K c ?c3" by (rule evolves_trans [OF e2 evolves_core [OF same_core_msleep]])
      have "pid (srv ?c3 sid) = 0"
        using same_core_msleep [of ?c2 os 500] p2 \<open>p = 0\<close> by (simp add: same_core_def)
      then have "runs J K ?c3 (fork_attempts os n sid ?c3)"
        using Suc.IH [OF Suc.prems(1)] evolves_named [OF e3] Suc.prems(2) by blast
      then have "runs J K c (fork_attempts os n sid ?c3)" by (rule runs_core [OF e3])
      then show ?thesis using False by (simp add: f Ok Let_def)
    qed
  next
    case (Exn e)
    then show ?thesis using f by (auto simp: fork_and_exec_def split: if_splits option.splits)
  next
    case (Halt h)
    then show ?thesis by (simp add: f)
  qed
qed

lemma runs_start_service:
  assumes "forkpty_ok os" and "named sid c" shows "runs J K c (start_service os dk sid c)"
proof -
  define c1 where "c1 = announce_start sid c"
  have sc: "same_core c c1" by (simp add: c1_def same_core_announce)
  have e1: "evolves J K c c1" by (rule evolves_core [OF sc])
  have "runs J K c1 (bind_st (chdir_to_service dk (srv_name (srv c sid)) c1) (\<lambda>_ c2. fork_attempts os 4 sid c2))"
    if "pid (srv c sid) = 0"
  proof (rule runs_bind [OF runs_chdir])
    fix x c2 assume ch: "chdir_to_service dk (srv_name (srv c sid)) c1 = (Ok x, c2)" and e2: "evolves J K c1 c2"
    obtain w where "c2 = c1\<lparr>cwd := w\<rparr>" using chdir_to_service_frame [OF ch] by blast
    then have "services c2 = services c" using sc by (simp add: same_core_def)
    then show "runs J K c2 (fork_attempts os 4 sid c2)"
      using runs_fork_attempts [OF assms(1)] assms(2) that by (simp add: named_def)
  qed
  moreover have "start_service os dk sid c =
      (if MAX_NUM_SERVICES \<le> sid then (Halt (AssertFailed ''Invalid service ID''), c)
       else if pid (srv c sid) \<noteq> 0 then (Ok (), c)
       else bind_st (chdir_to_service dk (srv_name (srv c sid)) c1) (\<lambda>_ c2. fork_attempts os 4 sid c2))"
    by (simp only: start_service_def is_service_started_def c1_def)
  ultimately show ?thesis by (auto intro: runs_core [OF e1])
qed

end

section \<open>Two properties of the table\<close>

text \<open>
  A service without a process has no logger and no open output descriptor; PIDs are not negative,
  so the only processes that are signalled are single ones.
\<close>

definition live_ok :: "service list \<Rightarrow> bool" where
  "live_ok ss \<longleftrightarrow> (\<forall>s\<in>set ss. srv_name s \<noteq> [] \<longrightarrow>
     0 \<le> pid s \<and> (pid s = 0 \<longrightarrow> \<not> logger_started s \<and> output_fd s < 0))"

fun single_process :: "action \<Rightarrow> bool" where
  "single_process (Signalled p sig) \<longleftrightarrow> 0 < p"
| "single_process (Forked sid p) \<longleftrightarrow> 0 < p"
| "single_process _ \<longleftrightarrow> True"

lemma live_ok_upd:
  "live_ok ss \<Longrightarrow> (srv_name s \<noteq> [] \<longrightarrow> 0 \<le> pid s \<and> (pid s = 0 \<longrightarrow> \<not> logger_started s \<and> output_fd s < 0))
   \<Longrightarrow> live_ok (ss[sid := s])"
  unfolding live_ok_def using set_update_subset_insert by fastforce

lemma live_ok_nth:
  "live_ok ss \<Longrightarrow> sid < length ss \<Longrightarrow> srv_name (ss ! sid) \<noteq> [] \<Longrightarrow>
   0 \<le> pid (ss ! sid) \<and> (pid (ss ! sid) = 0 \<longrightarrow> \<not> logger_started (ss ! sid) \<and> output_fd (ss ! sid) < 0)"
  unfolding live_ok_def by (meson nth_mem)

interpretation live: service_life live_ok single_process
proof unfold_locales
  fix ss and sid :: nat
  assume *: "live_ok ss" "sid < length ss" "srv_name (ss ! sid) \<noteq> []"
  note n = live_ok_nth [OF *]
  show "live_ok (ss[sid := (ss ! sid)\<lparr>start_time := t\<rparr>])" for t
    by (rule live_ok_upd [OF *(1)]) (use n in simp)
  show "live_ok (ss[sid := (ss ! sid)\<lparr>logger_exit := b\<rparr>])" for b
    by (rule live_ok_upd [OF *(1)]) (use n in simp)
  show "live_ok (ss[sid := (ss ! sid)\<lparr>restart_requested := b\<rparr>])" for b
    by (rule live_ok_upd [OF *(1)]) (use n in simp)
  show "live_ok (ss[sid := (ss ! sid)\<lparr>output_fd := fd, pid := p\<rparr>])" if "0 < p" for fd p
    by (rule live_ok_upd [OF *(1)]) (use that in simp)
  show "live_ok (ss[sid := (ss ! sid)\<lparr>logger_started := True\<rparr>])" if "pid (ss ! sid) \<noteq> 0"
    by (rule live_ok_upd [OF *(1)]) (use n that in simp)
  show "live_ok (ss[sid := (ss ! sid)\<lparr>pid := 0, logger_exit := b, logger_started := False, output_fd := fd\<rparr>])"
    if "fd < 0" for fd b
    by (rule live_ok_upd [OF *(1)]) (use that in simp)
  show "single_process (Signalled (pid (ss ! sid)) SIGTERM)" if "pid (ss ! sid) \<noteq> 0" using n that by simp
  show "single_process (Forked sid p)" if "0 < p" for p using that by simp
qed

text \<open>
  The configuration of the services, as it was loaded: only the fields of a running service change, and
  only in entries that are in use.
\<close>

definition config_of :: "service \<Rightarrow> service" where
  "config_of s = s\<lparr>pid := 0, start_time := 0, output_fd := 0, logger_exit := False, logger_started := False,
                   restart_requested := False\<rparr>"

definition same_config :: "service list \<Rightarrow> service list \<Rightarrow> bool" where
  "same_config ss0 ss \<longleftrightarrow> length ss = length ss0
     \<and> (\<forall>i < length ss. config_of (ss ! i) = config_of (ss0 ! i) \<and> (srv_name (ss0 ! i) = [] \<longrightarrow> ss ! i = ss0 ! i))"

lemma config_of_name: "config_of s = config_of s' \<Longrightarrow> srv_name s = srv_name s'"
proof -
  assume "config_of s = config_of s'"
  then have "srv_name (config_of s) = srv_name (config_of s')" by simp
  then show ?thesis by (simp add: config_of_def)
qed

lemma same_config_upd:
  assumes "same_config ss0 ss" and "srv_name (ss ! sid) \<noteq> []" and "config_of s = config_of (ss ! sid)"
  shows "same_config ss0 (ss[sid := s])"
proof (cases "sid < length ss")
  case True
  have "srv_name (ss0 ! sid) \<noteq> []" using assms(1,2) True by (auto simp: same_config_def)
  then show ?thesis
    using assms True by (auto simp: same_config_def nth_list_update)
next
  case False
  then show ?thesis using assms(1) by (simp add: list_update_beyond)
qed

interpretation config: service_life "same_config ss0" "\<lambda>_. True" for ss0
proof unfold_locales
  fix ss and sid :: nat
  assume *: "same_config ss0 ss" "sid < length ss" "srv_name (ss ! sid) \<noteq> []"
  note upd = same_config_upd [OF *(1,3)]
  show "same_config ss0 (ss[sid := (ss ! sid)\<lparr>start_time := t\<rparr>])" for t by (rule upd) (simp add: config_of_def)
  show "same_config ss0 (ss[sid := (ss ! sid)\<lparr>logger_exit := b\<rparr>])" for b by (rule upd) (simp add: config_of_def)
  show "same_config ss0 (ss[sid := (ss ! sid)\<lparr>restart_requested := b\<rparr>])" for b by (rule upd) (simp add: config_of_def)
  show "same_config ss0 (ss[sid := (ss ! sid)\<lparr>output_fd := fd, pid := p\<rparr>])" for fd p by (rule upd) (simp add: config_of_def)
  show "same_config ss0 (ss[sid := (ss ! sid)\<lparr>logger_started := True\<rparr>])" by (rule upd) (simp add: config_of_def)
  show "same_config ss0 (ss[sid := (ss ! sid)\<lparr>pid := 0, logger_exit := b, logger_started := False, output_fd := fd\<rparr>])" for fd b
    by (rule upd) (simp add: config_of_def)
qed simp_all

lemma same_config_refl [simp]: "same_config ss ss"
  by (simp add: same_config_def)

text \<open>With the configuration the shape of the table stays.\<close>

lemma same_config_table:
  assumes "same_config (services c) (services c')" and "table_ok c"
  shows "table_ok c' \<and> num_services c' = num_services c"
proof -
  have names: "map srv_name (services c') = map srv_name (services c)"
  proof (rule nth_equalityI)
    show "length (map srv_name (services c')) = length (map srv_name (services c))"
      using assms(1) by (simp add: same_config_def)
    fix i assume i: "i < length (map srv_name (services c'))"
    then have "config_of (srv c' i) = config_of (srv c i)" using assms(1) by (simp add: same_config_def)
    from config_of_name [OF this] show "map srv_name (services c') ! i = map srv_name (services c) ! i"
      using i assms(1) by (simp add: same_config_def)
  qed
  have len: "length (services c') = length (services c)" using assms(1) by (simp add: same_config_def)
  have nm: "srv_name (srv c' i) = srv_name (srv c i)" if "i < length (services c)" for i
    using names that len by (metis nth_map)
  have n: "num_services c' = num_services c"
  proof (rule num_services_eqI)
    show "num_services c \<le> length (services c')" using num_services_le len by simp
    show "\<forall>i < num_services c. srv_name (srv c' i) \<noteq> []"
      using nm named_below num_services_le order.strict_trans2 by metis
    show "num_services c < length (services c') \<longrightarrow> srv_name (srv c' (num_services c)) = []"
      using nm unnamed_at len by simp
  qed
  have "srv c' i = zero_service" if "i < MAX_NUM_SERVICES" "num_services c \<le> i" for i
    using assms that by (auto simp: same_config_def table_ok_def)
  moreover have "map srv_name (take (num_services c) (services c')) = map srv_name (take (num_services c) (services c))"
    using names by (metis take_map)
  ultimately show ?thesis
    using assms(2) len nm n by (simp add: table_ok_def)
qed

section \<open>Processes only go away\<close>

text \<open>Every service has the process it had at first, or none.\<close>

definition same_or_dead :: "service list \<Rightarrow> service list \<Rightarrow> bool" where
  "same_or_dead ss0 ss \<longleftrightarrow> length ss = length ss0
     \<and> (\<forall>i < length ss0. srv_name (ss ! i) = srv_name (ss0 ! i) \<and> (pid (ss ! i) = 0 \<or> pid (ss ! i) = pid (ss0 ! i)))"

interpretation dying: reaping "same_or_dead ss0" for ss0
  by unfold_locales (auto simp: same_or_dead_def nth_list_update)

lemma same_or_dead_refl [simp]: "same_or_dead ss ss"
  by (simp add: same_or_dead_def)

section \<open>What the operations do\<close>

text \<open>The assertion of \<open>start_service\<close> on the logger thread cannot fail.\<close>

lemma fork_attempts_logger:
  "sid < length (services c) \<Longrightarrow> \<not> logger_started (srv c sid) \<Longrightarrow>
   fst (fork_attempts os n sid c) \<noteq> Halt (AssertFailed ''Logger thread already started for service'')"
proof (induction n arbitrary: c)
  case 0
  then show ?case by (simp add: throw_message_errno_def)
next
  case (Suc n)
  obtain r c1 where f: "fork_and_exec os sid c = (r, c1)" by fastforce
  show ?case
  proof (cases r)
    case (Ok p)
    let ?c2 = "upd_srv sid (\<lambda>s. s\<lparr>pid := p\<rparr>) c1"
    have len: "sid < length (services ?c2)" and lg: "\<not> logger_started (srv ?c2 sid)"
      using f Ok Suc.prems by (auto simp: fork_and_exec_def split: if_splits option.splits prod.splits)
    define m where "m = ''started service '' @ quoted (srv_name (srv ?c2 sid)) @ ''.''"
    show ?thesis
    proof (cases "p > 0")
      case True
      obtain rt c3 where g: "get_time os (log_debug m ?c2) = (rt, c3)" by fastforce
      have s3: "services c3 = services ?c2" using same_core_get_time [OF g] by (simp add: same_core_def)
      show ?thesis
      proof (cases rt)
        case (Ok t)
        have nl: "\<not> logger_started (srv (upd_srv sid (\<lambda>s. s\<lparr>start_time := t\<rparr>) c3) sid)"
          using s3 len lg by simp
        have "fst (start_logger os sid x) \<noteq> Halt (AssertFailed ''Logger thread already started for service'')"
          if "\<not> logger_started (srv x sid)" for x
          using that by (simp add: start_logger_def Let_def throw_message_def split: option.split)
        with nl g Ok True show ?thesis using f \<open>r = Ok p\<close> by (simp add: Let_def m_def)
      next
        case (Exn e)
        with g True f \<open>r = Ok p\<close> show ?thesis by (simp add: Let_def m_def)
      next
        case (Halt h)
        then have "h = Aborted ''Could not get time''"
          using g by (auto simp: get_time_def no_time_def split: clock_answer.splits sum.splits)
        with g Halt True f \<open>r = Ok p\<close> show ?thesis by (simp add: Let_def m_def)
      qed
    next
      case False
      have "fst (fork_attempts os n sid (msleep os 500 ?c2)) \<noteq> Halt (AssertFailed ''Logger thread already started for service'')"
        using Suc.IH len lg by simp
      with False f Ok show ?thesis by (simp add: Let_def)
    qed
  next
    case (Exn e)
    with f show ?thesis by simp
  next
    case (Halt h)
    with f show ?thesis by (auto simp: fork_and_exec_def split: if_splits option.splits prod.splits)
  qed
qed

lemma start_service_logger:
  assumes "live_ok (services c)" and "named sid c"
  shows "fst (start_service os dk sid c) \<noteq> Halt (AssertFailed ''Logger thread already started for service'')"
proof (cases "MAX_NUM_SERVICES \<le> sid \<or> pid (srv c sid) \<noteq> 0")
  case True
  then show ?thesis by (auto simp: start_service_def is_service_started_def)
next
  case False
  define c1 where "c1 = announce_start sid c"
  have s1: "services c1 = services c" using same_core_announce [of c sid] by (simp add: c1_def same_core_def)
  have eq: "start_service os dk sid c = bind_st (chdir_to_service dk (srv_name (srv c sid)) c1) (\<lambda>_. fork_attempts os 4 sid)"
    using False by (simp add: start_service_def is_service_started_def c1_def)
  obtain r c2 where ch: "chdir_to_service dk (srv_name (srv c sid)) c1 = (r, c2)" by fastforce
  obtain w where "c2 = c1\<lparr>cwd := w\<rparr>" using chdir_to_service_frame [OF ch] by blast
  then have s2: "services c2 = services c" using s1 by simp
  have lg: "\<not> logger_started (srv c sid)" "sid < length (services c)"
    using assms False live_ok_nth [OF assms(1), of sid] by (auto simp: named_def)
  have "r \<noteq> Halt (AssertFailed ''Logger thread already started for service'')"
    using ch by (auto simp: chdir_to_service_def throw_chdir_def throw_message_def throw_message_errno_def Let_def
        split: if_splits chdir_answer.splits)
  then show ?thesis
    using fork_attempts_logger [of sid c2 os 4] lg s2 by (cases r) (simp_all add: eq ch)
qed

text \<open>A service that died: what \<open>handle_killed\<close> makes of it.\<close>

lemma runs_services:
  assumes "\<And>J. runs J K c p" and "p = (r, c')" and "\<forall>h. r \<noteq> Halt h"
  shows "services c' = services c"
  using assms(1) [of "\<lambda>ss. ss = services c"] assms(2,3) by (auto simp: runs_def evolves_def)

lemma try_catch_not_Exn: "(\<And>e c. fst (h e c) = Ok ()) \<Longrightarrow> fst (try_catch p h) = Ok () \<or> (\<exists>x. fst (try_catch p h) = Halt x)"
  by (cases p; cases "fst p") auto

lemma run_finish_frame:
  assumes "run_finish os dk sid status c = (Ok u, c')"
  shows "services c' = services c \<and> exit_code c' = exit_code c \<and> (do_shutdown c \<longrightarrow> do_shutdown c')"
proof -
  have s: "services c' = services c"
    using runs_services [OF runs_run_finish assms] by simp
  have e: "evolves (\<lambda>_. True) (\<lambda>_. True) c c'"
    using runs_run_finish [of "\<lambda>_. True" "\<lambda>_. True" c os dk sid status] by (simp add: assms runs_def)
  obtain r1 c1 where ch: "chdir_to_service dk (srv_name (srv c sid)) c = (r1, c1)" by fastforce
  then obtain w where c1: "c1 = c\<lparr>cwd := w\<rparr>" using chdir_to_service_frame by blast
  have lg: "exit_code (log_err m x) = exit_code x" for m x using same_core_log(2) [of x m] by (simp add: same_core_def)
  have ex: "exit_code x = exit_code c1" if "exec_service_cmd os sid ''./finish'' ''finish'' a c1 = (q, x)" for q x a
    using same_core_exec [OF that] by (simp add: same_core_def)
  have "exit_code c' = exit_code c"
  proof (cases r1)
    case (Ok y)
    show ?thesis
    proof (cases "dk_executable dk (cwd c1) ''finish''")
      case True
      obtain q x where q: "exec_service_cmd os sid ''./finish'' ''finish'' (dec_int (exit_status_of 126 status)) c1 = (q, x)"
        by fastforce
      then show ?thesis
        using assms ch Ok True ex [OF q] lg by (cases q) (auto simp: run_finish_def ignore_def c1 split: if_splits)
    next
      case False
      then show ?thesis using assms ch Ok by (auto simp: run_finish_def c1)
    qed
  next
    case (Exn e)
    then show ?thesis using assms ch lg by (auto simp: run_finish_def c1 split: if_splits)
  next
    case (Halt h)
    then show ?thesis using assms ch by (auto simp: run_finish_def)
  qed
  with s e show ?thesis by (auto simp: evolves_def)
qed

lemma handle_killed_effect:
  assumes h: "handle_killed os dk p status c = (Ok u, c')" and p: "p \<noteq> 0" "p \<noteq> - 1"
    and f: "find_service_by_pid p c = Some sid"
  shows "(\<exists>fd b. fd < 0 \<and> services c'
      = (services c)[sid := (srv c sid)\<lparr>pid := 0, logger_exit := b, logger_started := False, output_fd := fd\<rparr>])
    \<and> (do_shutdown c \<longrightarrow> do_shutdown c')
    \<and> (shutdown_on_terminate (srv c sid) \<and> \<not> restart_requested (srv c sid) \<longrightarrow> do_shutdown c')
    \<and> (exit_code c' = exit_code c
       \<or> exit_code c' = exit_status_of 1 status \<and> shutdown_on_terminate (srv c sid) \<and> \<not> restart_requested (srv c sid))"
proof -
  let ?l = "log_exit sid status c"
  have sl: "same_core c ?l" by (simp add: log_exit_def same_core_log split: wstatus.split)
  have n: "named sid c" using find_service_by_pid_named [OF f] by simp
  then have nl: "named sid ?l" using sl by (simp add: same_core_def named_def)
  obtain c1 c2 where j: "join_logger os sid (upd_srv sid (\<lambda>s. s\<lparr>pid := 0\<rparr>) ?l) = (Ok (), c1)"
    and rf: "run_finish os dk sid status (close_output sid c1) = (Ok (), c2)" and c': "c' = trigger_shutdown sid status c2"
    using h p f by (auto simp: handle_killed_def bind_st_Ok)
  obtain fd b where fd: "fd < 0" "services (close_output sid c1)
      = (services ?l)[sid := (srv ?l sid)\<lparr>pid := 0, logger_exit := b, logger_started := False, output_fd := fd\<rparr>]"
    and e1: "evolves (\<lambda>_. True) (\<lambda>_. True) ?l (close_output sid c1)"
    using bury [OF nl j] by blast
  have x1: "exit_code (close_output sid c1) = exit_code c"
  proof -
    have lg: "exit_code (log_debug m x) = exit_code x" "exit_code (tick os x) = exit_code x" for m x
      using same_core_log(4) [of x m] same_core_tick [of x os] by (simp_all add: same_core_def)
    have "exit_code c1 = exit_code ?l"
      using j by (auto simp: join_logger_def Let_def lg upd_srv_def say_def split: if_splits option.splits)
    then show ?thesis using sl by (simp add: close_output_def upd_srv_def say_def same_core_def)
  qed
  note R = run_finish_frame [OF rf]
  have sc2: "services c2 = (services c)[sid := (srv c sid)\<lparr>pid := 0, logger_exit := b, logger_started := False, output_fd := fd\<rparr>]"
    using R fd(2) sl by (simp add: same_core_def)
  have st: "services c' = services c2"
    by (simp add: c' trigger_shutdown_def request_shutdown_def)
  have len: "sid < length (services c)" using n by (simp add: named_def)
  have lg: "exit_code (log m x) = exit_code x" "do_shutdown x \<longrightarrow> do_shutdown (log m x)" for m x
    using same_core_log(1) [of x m] by (simp_all add: same_core_def)
  have sh: "do_shutdown c \<longrightarrow> do_shutdown c2" using sl e1 R by (auto simp: same_core_def evolves_def)
  have flags: "shutdown_on_terminate (srv c2 sid) = shutdown_on_terminate (srv c sid)"
    "restart_requested (srv c2 sid) = restart_requested (srv c sid)"
    using sc2 len by simp_all
  show ?thesis
    using fd(1) sc2 st sh flags x1 R
    by (auto simp: c' trigger_shutdown_def request_shutdown_def)
qed

text \<open>The service argument of \<open>child_handler\<close> has no effect: \<open>killed\<close> is \<open>0\<close> when it is looked at.\<close>

lemma bind_st_cong: "(\<And>x s. p = (Ok x, s) \<Longrightarrow> f x s = g x s) \<Longrightarrow> bind_st p f = bind_st p g"
  by (cases p; cases "fst p") auto

lemma reap_last:
  "reap os dk fuel c = (Ok k, c') \<Longrightarrow>
   \<exists>t \<ge> ticks c. ticks c' = Suc t \<and> k = reaped_pid (os_waitpid os t (- 1)) \<and> (k = 0 \<or> k = - 1)"
proof (induction fuel arbitrary: c)
  case (Suc fuel)
  let ?w = "os_waitpid os (ticks c) (- 1)"
  obtain c1 where h: "handle_killed os dk (reaped_pid ?w) (reaped_status ?w) (tick os c) = (Ok (), c1)"
    and r: "(if reaped_pid ?w \<noteq> 0 \<and> reaped_pid ?w \<noteq> - 1 then reap os dk fuel c1 else (Ok (reaped_pid ?w), c1)) = (Ok k, c')"
    using Suc.prems by (auto simp: Let_def bind_st_Ok)
  show ?case
  proof (cases "reaped_pid ?w \<noteq> 0 \<and> reaped_pid ?w \<noteq> - 1")
    case True
    have "ticks (tick os c) \<le> ticks c1"
      using live.runs_handle_killed [of "\<lambda>_. True" "tick os c" os dk "reaped_pid ?w" "reaped_status ?w"] h
      by (simp add: runs_def evolves_def)
    moreover obtain t where "ticks c1 \<le> t" "ticks c' = Suc t" "k = reaped_pid (os_waitpid os t (- 1))" "k = 0 \<or> k = - 1"
      using Suc.IH [of c1] r True by auto
    ultimately show ?thesis by (intro exI [of _ t]) auto
  next
    case False
    then have "c1 = tick os c" using h by (auto simp: handle_killed_def)
    with False r show ?thesis by (intro exI [of _ "ticks c"]) auto
  qed
qed simp

lemma child_loop_service: "child_loop os dk fuel now period service c = child_loop os dk fuel now period (- 1) c"
proof (induction fuel arbitrary: c)
  case (Suc fuel)
  show ?case
    unfolding child_loop.simps
  proof (rule bind_st_cong)
    fix killed c1 assume "reap os dk fuel c = (Ok killed, c1)"
    then have "killed = 0 \<or> killed = - 1" using reap_last by blast
    then show "(if killed = - 1 then (Ok True, c1)
       else bind_st (period_over os period now c1) (\<lambda>stop c2.
         if stop then (Ok False, c2)
         else if service \<ge> 0 \<and> killed \<noteq> 0 then
           (if nat service < MAX_NUM_SERVICES then
              (if pid (srv c2 (nat service)) = 0 then (Ok False, c2)
               else child_loop os dk fuel now period service (msleep os 50 c2))
            else (Halt (AssertFailed ''Invalid service ID''), c2))
         else child_loop os dk fuel now period service (msleep os 50 c2))) =
      (if killed = - 1 then (Ok True, c1)
       else bind_st (period_over os period now c1) (\<lambda>stop c2.
         if stop then (Ok False, c2)
         else if (- 1::int) \<ge> 0 \<and> killed \<noteq> 0 then
           (if nat (- 1) < MAX_NUM_SERVICES then
              (if pid (srv c2 (nat (- 1))) = 0 then (Ok False, c2)
               else child_loop os dk fuel now period (- 1) (msleep os 50 c2))
            else (Halt (AssertFailed ''Invalid service ID''), c2))
         else child_loop os dk fuel now period (- 1) (msleep os 50 c2)))"
      using Suc.IH by (auto cong: if_cong)
  qed
qed simp

text \<open>\<open>True\<close> means that the last \<open>waitpid\<close> failed; a negative period gives no other result.\<close>

lemma child_loop_result:
  "child_loop os dk fuel now period service c = (Ok b, c') \<Longrightarrow>
   (b \<longrightarrow> (\<exists>t \<ge> ticks c. ticks c' = Suc t \<and> reaped_pid (os_waitpid os t (- 1)) = - 1)) \<and> (period < 0 \<longrightarrow> b)"
proof (induction fuel arbitrary: c)
  case (Suc fuel)
  obtain killed c1 where r: "reap os dk fuel c = (Ok killed, c1)"
    using Suc.prems by (auto simp: bind_st_Ok)
  obtain t where t: "t \<ge> ticks c" "ticks c1 = Suc t" "killed = reaped_pid (os_waitpid os t (- 1))" "killed = 0 \<or> killed = - 1"
    using reap_last [OF r] by blast
  show ?case
  proof (cases "killed = - 1")
    case True
    with Suc.prems r t show ?thesis by auto
  next
    case False
    then obtain stop c2 where p: "period_over os period now c1 = (Ok stop, c2)"
      and n: "(if stop then (Ok False, c2) else child_loop os dk fuel now period service (msleep os 50 c2)) = (Ok b, c')"
      using Suc.prems r t(4) by (auto simp: bind_st_Ok cong: if_cong)
    have "ticks c1 \<le> ticks c2"
      using p same_core_get_time [of os c1] by (auto simp: period_over_def bind_st_Ok same_core_def split: if_splits)
    moreover have "ticks c2 \<le> ticks (msleep os 50 c2)"
      using same_core_msleep [of c2 os 50] by (simp add: same_core_def)
    moreover have "period < 0 \<Longrightarrow> \<not> stop" using p by (auto simp: period_over_def)
    ultimately show ?thesis
      using n t Suc.IH [of "msleep os 50 c2"] by (cases stop) (auto intro: order.trans)
  qed
qed simp

lemma child_handler_result:
  assumes "child_handler os dk fuel period service c = (Ok b, c')"
  shows "(b \<longrightarrow> (\<exists>t \<ge> ticks c. ticks c' = Suc t \<and> reaped_pid (os_waitpid os t (- 1)) = - 1)) \<and> (period < 0 \<longrightarrow> b)"
proof -
  obtain now c1 where g: "get_time os c = (Ok now, c1)" and l: "child_loop os dk fuel now period service c1 = (Ok b, c')"
    using assms by (auto simp: child_handler_def bind_st_Ok)
  have "ticks c \<le> ticks c1" using same_core_get_time [OF g] by (simp add: same_core_def)
  with child_loop_result [OF l] show ?thesis by (meson order.trans)
qed

section \<open>Reaping ends\<close>

text \<open>From tick \<open>T\<close> on there is no child any more.\<close>

definition childless_from :: "os \<Rightarrow> nat \<Rightarrow> bool" where
  "childless_from os T \<longleftrightarrow> (\<forall>t \<ge> T. os_waitpid os t (- 1) = NoChild)"

lemma childless_before:
  "childless_from os T \<Longrightarrow> reaped_pid (os_waitpid os t (- 1)) \<noteq> - 1 \<Longrightarrow> t < T"
  unfolding childless_from_def by (metis not_less reaped_pid.simps(3))

lemma handle_killed_no_fuel: "fst (handle_killed os dk killed status c) \<noteq> Halt NoFuel"
proof -
  have j: "fst (join_logger os sid x) \<noteq> Halt NoFuel" for sid x
    by (simp add: join_logger_def Let_def split: option.split)
  have t: "fst (try_catch p h) = Halt NoFuel \<longleftrightarrow> fst p = Halt NoFuel" if "\<And>e c. fst (h e c) = Ok ()" for p and h :: "string \<Rightarrow> cinit \<Rightarrow> unit res \<times> cinit"
    using that by (cases p; cases "fst p") auto
  have r: "fst (run_finish os dk sid status x) \<noteq> Halt NoFuel" for sid x
    unfolding run_finish_def by (subst t) (auto simp: no_fuel ignore_def)
  show ?thesis by (auto simp: handle_killed_def no_fuel j r split: option.split)
qed

lemma reap_returns: "childless_from os T \<Longrightarrow> T - ticks c < fuel \<Longrightarrow> fst (reap os dk fuel c) \<noteq> Halt NoFuel"
proof (induction fuel arbitrary: c)
  case (Suc fuel)
  let ?w = "os_waitpid os (ticks c) (- 1)"
  obtain r c1 where h: "handle_killed os dk (reaped_pid ?w) (reaped_status ?w) (tick os c) = (r, c1)" by fastforce
  have nf: "r \<noteq> Halt NoFuel" using handle_killed_no_fuel h by (metis fst_conv)
  show ?case
  proof (cases "r = Ok () \<and> reaped_pid ?w \<noteq> 0 \<and> reaped_pid ?w \<noteq> - 1")
    case True
    then have "ticks c < T" using childless_before [OF Suc.prems(1)] by blast
    moreover have "Suc (ticks c) \<le> ticks c1"
      using live.runs_handle_killed [of "\<lambda>_. True" "tick os c" os dk "reaped_pid ?w" "reaped_status ?w"] h True
      by (simp add: runs_def evolves_def)
    ultimately have "fst (reap os dk fuel c1) \<noteq> Halt NoFuel" using Suc by simp
    with True h show ?thesis by (simp add: Let_def)
  next
    case False
    with h nf show ?thesis by (cases r) (auto simp: Let_def)
  qed
qed simp

lemma child_loop_returns:
  "childless_from os T \<Longrightarrow> T - ticks c + 1 < fuel \<Longrightarrow> fst (child_loop os dk fuel now period service c) \<noteq> Halt NoFuel"
proof (induction fuel arbitrary: c)
  case (Suc fuel)
  obtain r c1 where h: "reap os dk fuel c = (r, c1)" by fastforce
  have nf: "r \<noteq> Halt NoFuel" using reap_returns [OF Suc.prems(1), of c fuel dk] Suc.prems(2) h by (metis Suc_eq_plus1 Suc_less_eq fst_conv)
  show ?case
  proof (cases r)
    case (Ok killed)
    obtain t where t: "t \<ge> ticks c" "ticks c1 = Suc t" "killed = reaped_pid (os_waitpid os t (- 1))" "killed = 0 \<or> killed = - 1"
      using reap_last [OF h [unfolded Ok]] by blast
    show ?thesis
    proof (cases "killed = - 1")
      case False
      then have "t < T" using childless_before [OF Suc.prems(1)] t(3) by simp
      obtain rs c2 where p: "period_over os period now c1 = (rs, c2)" by fastforce
      have pf: "rs \<noteq> Halt NoFuel"
      proof -
        have "fst (period_over os period now c1) \<noteq> Halt NoFuel" by (simp add: period_over_def no_fuel)
        with p show ?thesis by simp
      qed
      show ?thesis
      proof (cases "rs = Ok False")
        case True
        have "ticks c1 \<le> ticks c2"
          using p True same_core_get_time [of os c1] by (auto simp: period_over_def bind_st_Ok same_core_def split: if_splits)
        moreover have "ticks c2 \<le> ticks (msleep os 50 c2)"
          using same_core_msleep [of c2 os 50] by (simp add: same_core_def)
        ultimately have "fst (child_loop os dk fuel now period service (msleep os 50 c2)) \<noteq> Halt NoFuel"
          using Suc t \<open>t < T\<close> by (intro Suc.IH) auto
        with False h Ok p True t(4) show ?thesis by simp
      next
        case False': False
        with False h Ok p pf show ?thesis by (cases rs) auto
      qed
    qed (simp add: h Ok)
  qed (use h nf in auto)
qed simp

lemma child_handler_returns:
  assumes "childless_from os T" and "T - ticks c + 1 < fuel"
  shows "fst (child_handler os dk fuel period service c) \<noteq> Halt NoFuel"
proof -
  obtain r c1 where g: "get_time os c = (r, c1)" by fastforce
  have "ticks c \<le> ticks c1" using same_core_get_time [OF g] by (simp add: same_core_def)
  then have "fst (child_loop os dk fuel now period service c1) \<noteq> Halt NoFuel" for now
    using assms by (intro child_loop_returns [where T = T]) auto
  moreover have "r \<noteq> Halt NoFuel" using get_time_no_fuel [of os c] g by simp
  ultimately show ?thesis using g by (cases r) (simp_all add: child_handler_def)
qed

section \<open>A sample state\<close>

text \<open>Two running services, of which the second ends the container when it ends.\<close>

definition two_services :: cinit where
  "two_services = g_ctx\<lparr>services := [zero_service\<lparr>srv_name := ''x'', pid := 11, output_fd := 10, logger_started := True\<rparr>,
      zero_service\<lparr>srv_name := ''app'', pid := 12, output_fd := 11, logger_started := True, shutdown_on_terminate := True\<rparr>]
        @ replicate 62 zero_service, start_order := [0, 1] @ replicate 62 (- 1)\<rparr>"

definition quiet_disk :: disk where
  "quiet_disk = \<lparr>dk_chdir = (\<lambda>_. ChdirOk), dk_settings = (\<lambda>_. Map.empty),
     dk_exists = (\<lambda>_ f. f = ''run''), dk_executable = (\<lambda>_ f. f = ''run''),
     dk_realpath = (\<lambda>w f. Inr (w @ ''/'' @ f)), dk_entries = (\<lambda>_. Inr [])\<rparr>"

text \<open>One child after the other ends, and from the tenth call on there is none.\<close>

definition sample_deaths :: os where
  "sample_deaths = sample_os (\<lambda>t. if t = 4 then Reaped 12 (WExited 3) else if t = 8 then Reaped 11 (WSignaled 15)
     else if t < 9 then StillRunning else NoChild)"

lemma sample_deaths_childless: "childless_from sample_deaths 9"
  by (simp add: childless_from_def sample_deaths_def sample_os_def)

section \<open>Properties\<close>





text \<open>
  C37. The service that \<open>child_handler\<close> is told to wait for makes no difference: when the inner loop is over
  \<open>killed\<close> is \<open>0\<close> or \<open>-1\<close>, and the test for the service needs another value.
\<close>

theorem child_handler_ignores_service:
  "child_handler os dk fuel period service c = child_handler os dk fuel period (- 1) c"
  by (simp add: child_handler_def child_loop_service [of os dk _ _ period service])

text \<open>
  C36. \<open>child_handler\<close> answers that all processes are gone only when the last \<open>waitpid\<close> found no child, and
  with a negative period it has no other answer; it returns as soon as no child is left.
\<close>

theorem child_handler_waits_for_all:
  assumes "childless_from os T" and "T - ticks c + 1 < fuel" and "child_handler os dk fuel period service c = (r, c')"
  shows "r \<noteq> Halt NoFuel \<and> (\<forall>b. r = Ok b \<longrightarrow> (period < 0 \<longrightarrow> b)
    \<and> (b \<longrightarrow> (\<exists>t \<ge> ticks c. ticks c' = Suc t \<and> reaped_pid (os_waitpid os t (- 1)) = - 1)))"
  using child_handler_returns [OF assms(1,2), of dk period service] child_handler_result [of os dk fuel period service c _ c'] assms(3)
  by auto

theorem child_handler_waits_for_all_witness:
  "fst (child_handler sample_deaths quiet_disk 11 (- 1) 0 two_services) \<noteq> Ok False"
proof -
  obtain r c' where r: "child_handler sample_deaths quiet_disk 11 (- 1) 0 two_services = (r, c')" by fastforce
  have "9 - ticks two_services + 1 < 11" by (simp add: two_services_def g_ctx_def)
  from child_handler_waits_for_all [OF sample_deaths_childless this r] r show ?thesis by auto
qed

end
