(* ===== verification/Startup.thy ===== *)
theory Startup
  imports Supervisor
begin

text \<open>
  \<open>start_services\<close> of \<open>src/src/cinit/cinit.c\<close>: the services are started in the start order, and each is
  waited for: until it ends (\<open>sync\<close>), or until it has run for a minimal time and its program \<open>is_ready\<close>
  agrees. An \<open>ExitTry\<close> in the body is a normal return of the body here (see CException).
\<close>

section \<open>Waiting for one service\<close>

text \<open>
  The blocking \<open>waitpid\<close> of a \<open>sync\<close> service: \<open>None\<close> when the wait is left because of a shutdown request.
  The answer \<open>StillRunning\<close> of a tick means that the call has not returned yet.
\<close>

fun wait_sync :: "os \<Rightarrow> nat \<Rightarrow> nat \<Rightarrow> cinit \<Rightarrow> wstatus option res \<times> cinit" where
  "wait_sync os 0 sid c = (Halt NoFuel, c)"
| "wait_sync os (Suc fuel) sid c =
     (case os_waitpid os (ticks c) (pid (srv c sid)) of
        Reaped p status \<Rightarrow> (Ok (Some status), tick os c)
      | StillRunning \<Rightarrow> wait_sync os fuel sid (tick os c)
      | Interrupted \<Rightarrow>
          (if do_shutdown (tick os c) then (Ok None, tick os c) else wait_sync os fuel sid (tick os c))
      | NoChild \<Rightarrow>
          (throw_message_errno (''could not wait for termination of service '' @ quoted (srv_name (srv c sid)))
             (os_strerror os (ticks c)), tick os c))"

text \<open>The loop over the minimal running time: \<open>False\<close> when it is left because of a shutdown request.\<close>

fun min_uptime :: "os \<Rightarrow> disk \<Rightarrow> nat \<Rightarrow> nat \<Rightarrow> cinit \<Rightarrow> bool res \<times> cinit" where
  "min_uptime os dk 0 sid c = (Halt NoFuel, c)"
| "min_uptime os dk (Suc fuel) sid c =
     (if do_shutdown c then (Ok False, c)
      else bind_st (get_time os c) (\<lambda>t c1.
        if t - start_time (srv c1 sid) \<ge> ucast (min_running_time (srv c1 sid)) then (Ok True, c1)
        else
          (let w = os_waitpid os (ticks c1) (pid (srv c1 sid)); rc = reaped_pid w; c2 = tick os c1 in
           if rc = pid (srv c2 sid) then
             bind_st (handle_killed os dk (pid (srv c2 sid)) (reaped_status w) c2)
               (\<lambda>_ c3. (throw_message ''minimum uptime not met'', c3))
           else if rc < 0 then
             (throw_message_errno (''could not wait for termination of service '' @ quoted (srv_name (srv c2 sid)))
                (os_strerror os (ticks c1)), c2)
           else min_uptime os dk fuel sid (msleep os 500 c2))))"

text \<open>The loop around the program \<open>is_ready\<close>; \<open>kill (pid, 0)\<close> sends nothing.\<close>

fun wait_ready :: "os \<Rightarrow> nat \<Rightarrow> nat \<Rightarrow> string \<Rightarrow> cinit \<Rightarrow> unit res \<times> cinit" where
  "wait_ready os 0 sid arg c = (Halt NoFuel, c)"
| "wait_ready os (Suc fuel) sid arg c =
     bind_st (get_time os c) (\<lambda>t c1.
       if t - start_time (srv c1 sid) \<ge> ucast (ready_timeout (srv c1 sid)) then
         (throw_message (''not ready after '' @ dec_int (sint (ready_timeout (srv c1 sid))) @ '' msec, giving up''), c1)
       else if \<not> os_kill os (ticks c1) then (throw_message ''terminated before being ready'', tick os c1)
       else bind_st (exec_service_cmd os sid ''./is_ready'' ''is_ready'' arg (tick os c1)) (\<lambda>rc c2.
         if rc = 0 then (Ok (), c2)
         else if do_shutdown c2 then (Ok (), c2)
         else wait_ready os fuel sid arg (msleep os 250 c2)))"

section \<open>Starting all services\<close>

definition wait_for_service :: "os \<Rightarrow> disk \<Rightarrow> nat \<Rightarrow> nat \<Rightarrow> cinit \<Rightarrow> unit res \<times> cinit" where
  "wait_for_service os dk fuel sid c1 =
     (if sync (srv c1 sid) then
        bind_st (wait_sync os fuel sid
                  (log_debug (''waiting for service '' @ quoted (srv_name (srv c1 sid)) @ '' to terminate...'') c1))
          (\<lambda>st c2. case st of
             None \<Rightarrow> (Ok (), c2)
           | Some status \<Rightarrow>
               bind_st (handle_killed os dk (pid (srv c2 sid)) status c2) (\<lambda>_ c3.
                 if status \<noteq> WExited 0 then (throw_message ''termined with error'', c3) else (Ok (), c3)))
      else if interval (srv c1 sid) > 0 then (Ok (), c1)
      else bind_st (min_uptime os dk fuel sid c1) (\<lambda>up c2.
        if \<not> up then (Ok (), c2)
        else bind_st (chdir_to_service dk (srv_name (srv c2 sid)) c2) (\<lambda>_ c3.
          if dk_executable dk (cwd c3) ''is_ready'' then
            wait_ready os fuel sid (dec_int (pid (srv c3 sid)))
              (log_debug (''waiting for service '' @ quoted (srv_name (srv c3 sid)) @ '' to be ready...'') c3)
          else (Ok (), c3))))"

definition start_and_wait :: "os \<Rightarrow> disk \<Rightarrow> nat \<Rightarrow> nat \<Rightarrow> cinit \<Rightarrow> unit res \<times> cinit" where
  "start_and_wait os dk fuel sid c = bind_st (start_service os dk sid c) (\<lambda>_. wait_for_service os dk fuel sid)"

definition start_failed :: "nat \<Rightarrow> string \<Rightarrow> cinit \<Rightarrow> unit res \<times> cinit" where
  "start_failed sid e c =
     (let msg = ''service '' @ quoted (srv_name (srv c sid)) @ '' failed to be started: '' @ e @ ''.'' in
      if ignore_failure (srv c sid) then (Ok (), log_err msg c) else (throw_message msg, c))"

text \<open>The loop over the start order.\<close>

fun start_from :: "os \<Rightarrow> disk \<Rightarrow> nat \<Rightarrow> int list \<Rightarrow> cinit \<Rightarrow> unit res \<times> cinit" where
  "start_from os dk fuel [] c = (Ok (), c)"
| "start_from os dk fuel (x # xs) c =
     (if x < 0 then (Ok (), c)
      else if is_service_group (srv c (nat x)) then start_from os dk fuel xs c
      else if do_shutdown c then (Ok (), c)
      else bind_st (try_catch (start_and_wait os dk fuel (nat x) c) (start_failed (nat x)))
             (\<lambda>_ c1. start_from os dk fuel xs c1))"

definition start_services :: "os \<Rightarrow> disk \<Rightarrow> nat \<Rightarrow> cinit \<Rightarrow> unit res \<times> cinit" where
  "start_services os dk fuel c = start_from os dk fuel (start_order c) c"

section \<open>The frame\<close>

context reaping
begin

lemma runs_tick: "runs J K (tick os c) p \<Longrightarrow> runs J K c p"
  by (rule runs_core [OF evolves_core [OF same_core_tick]])

lemma runs_if: "(b \<Longrightarrow> runs J K c p) \<Longrightarrow> (\<not> b \<Longrightarrow> runs J K c q) \<Longrightarrow> runs J K c (if b then p else q)"
  by simp

lemma runs_wait_sync: "runs J K c (wait_sync os fuel sid c)"
proof (induction fuel arbitrary: c)
  case (Suc fuel)
  have t: "evolves J K c (tick os c)" by (rule evolves_core [OF same_core_tick])
  show ?case
    using t runs_tick [OF Suc.IH] runs_throw [OF t] by (auto split: reaped.split)
qed simp

lemma runs_min_uptime: "runs J K c (min_uptime os dk fuel sid c)"
proof (induction fuel arbitrary: c)
  case (Suc fuel)
  have t: "evolves J K c (tick os c)" for c by (rule evolves_core [OF same_core_tick])
  have m: "runs J K c (min_uptime os dk fuel sid (msleep os 500 c))" for c
    by (rule runs_core [OF evolves_core [OF same_core_msleep] Suc.IH])
  have k: "runs J K c (bind_st (handle_killed os dk p st c) (\<lambda>_ c3. (throw_message ''minimum uptime not met'', c3)))" for c p st
    by (rule runs_bind [OF runs_handle_killed]) simp
  show ?case
    unfolding min_uptime.simps Let_def
    by (intro runs_if runs_bind [OF runs_get_time] runs_tick [OF k] runs_tick [OF m] runs_throw(2) t) simp_all
qed simp

lemma runs_wait_ready: "runs J K c (wait_ready os fuel sid arg c)"
proof (induction fuel arbitrary: c)
  case (Suc fuel)
  have m: "runs J K c (wait_ready os fuel sid arg (msleep os 250 c))" for c
    by (rule runs_core [OF evolves_core [OF same_core_msleep] Suc.IH])
  have e: "runs J K c (bind_st (exec_service_cmd os sid ''./is_ready'' ''is_ready'' arg (tick os c)) (\<lambda>rc c2.
         if rc = 0 then (Ok (), c2) else if do_shutdown c2 then (Ok (), c2)
         else wait_ready os fuel sid arg (msleep os 250 c2)))" for c
    by (rule runs_tick, rule runs_bind [OF runs_exec]) (simp add: m)
  have t: "evolves J K c (tick os c)" for c by (rule evolves_core [OF same_core_tick])
  show ?case
    unfolding wait_ready.simps
    by (rule runs_bind [OF runs_get_time]) (simp add: e runs_throw t del: runs_simps(4))
qed simp

lemma runs_wait_for_service: "runs J K c (wait_for_service os dk fuel sid c)"
proof -
  have l: "evolves J K x (log_debug m x)" for m x by (rule evolves_core [OF same_core_log(4)])
  have h: "runs J K x (bind_st (handle_killed os dk p st x) (\<lambda>_ c3.
             if st \<noteq> WExited 0 then (throw_message ''termined with error'', c3) else (Ok (), c3)))" for x p st
    by (rule runs_bind [OF runs_handle_killed]) simp
  have w: "runs J K x (bind_st (wait_sync os fuel sid (log_debug m x)) (\<lambda>st c2. case st of
            None \<Rightarrow> (Ok (), c2)
          | Some status \<Rightarrow> bind_st (handle_killed os dk (pid (srv c2 sid)) status c2) (\<lambda>_ c3.
                if status \<noteq> WExited 0 then (throw_message ''termined with error'', c3) else (Ok (), c3))))" for x m
    by (rule runs_core [OF l runs_bind [OF runs_wait_sync]]) (simp add: h split: option.split)
  show ?thesis
    unfolding wait_for_service_def
    by (intro runs_if w runs_bind [OF runs_min_uptime] runs_bind [OF runs_chdir] runs_core [OF l runs_wait_ready]) simp_all
qed

end

context service_life
begin

lemma runs_start_and_wait:
  assumes "forkpty_ok os" and "named sid c" shows "runs J K c (start_and_wait os dk fuel sid c)"
  unfolding start_and_wait_def by (rule runs_bind [OF runs_start_service [OF assms] runs_wait_for_service])

lemma runs_start_failed: "runs J K c (start_failed sid e c)"
  by (simp add: start_failed_def Let_def evolves_core same_core_log)

lemma runs_start_from:
  assumes "forkpty_ok os"
  shows "\<forall>x\<in>set xs. x < 0 \<or> named (nat x) c \<Longrightarrow> runs J K c (start_from os dk fuel xs c)"
proof (induction xs arbitrary: c)
  case (Cons x xs)
  have step: "runs J K c (bind_st (try_catch (start_and_wait os dk fuel (nat x) c) (start_failed (nat x)))
             (\<lambda>_ c1. start_from os dk fuel xs c1))" if "\<not> x < 0"
  proof (intro runs_bind runs_try)
    show "runs J K c (start_and_wait os dk fuel (nat x) c)"
      using Cons.prems that by (intro runs_start_and_wait [OF assms]) simp
    show "runs J K c1 (start_failed (nat x) e c1)" for c1 e by (rule runs_start_failed)
    fix c1 assume "evolves J K c c1"
    then show "runs J K c1 (start_from os dk fuel xs c1)"
      using Cons.prems evolves_named by (intro Cons.IH) auto
  qed
  show ?case using step Cons by (auto simp del: try_catch.simps)
qed simp

end

section \<open>The order of the starts\<close>

definition forks :: "cinit \<Rightarrow> nat list" where
  "forks c = List.map_filter (\<lambda>a. case a of Forked sid p \<Rightarrow> Some sid | _ \<Rightarrow> None) (actions c)"

lemma no_forks: "\<forall>a\<in>set new. \<not> loud a \<Longrightarrow> List.map_filter (\<lambda>a. case a of Forked sid p \<Rightarrow> Some sid | _ \<Rightarrow> None) new = []"
  by (induction new) (auto simp: List.map_filter_simps split: action.split)

lemma forks_append: "actions c' = actions c @ new \<Longrightarrow>
   forks c' = forks c @ List.map_filter (\<lambda>a. case a of Forked sid p \<Rightarrow> Some sid | _ \<Rightarrow> None) new"
  by (simp add: forks_def List.map_filter_def)

lemma forks_core: "same_core c c' \<Longrightarrow> forks c' = forks c"
  by (auto simp: same_core_def quiet_actions_def forks_append no_forks)

lemma forks_upd [simp]: "forks (upd_srv sid f c) = forks c"
  by (simp add: forks_def)

text \<open>Only the entry of the service changes, and at most one process is started, for that service.\<close>

definition starts_one :: "nat \<Rightarrow> cinit \<Rightarrow> unit res \<Rightarrow> cinit \<Rightarrow> bool" where
  "starts_one sid c r c' \<longleftrightarrow> (\<exists>s. services c' = (services c)[sid := s])
     \<and> (forks c' = forks c @ [sid] \<or> forks c' = forks c \<and> r \<noteq> Ok ())"

lemma forks_same [simp]:
  "forks (tick os c) = forks c" "forks (log m c) = forks c" "forks (log_err m c) = forks c"
  "forks (log_debug m c) = forks c" "forks (msleep os ms c) = forks c"
  by (intro forks_core same_core_tick same_core_log same_core_msleep)+

lemma start_logger_effect:
  "start_logger os sid c = (r, c') \<Longrightarrow> (\<exists>s. services c' = (services c)[sid := s]) \<and> forks c' = forks c"
proof -
  have "forks (say (LoggerStarted sid) x) = forks x" for x by (intro forks_core same_core_say) simp
  moreover have "\<exists>s. services c = (services c)[sid := s]" by (metis list_update_id)
  moreover have "\<exists>s. (services c)[sid := x, sid := y] = (services c)[sid := s]" for x y by (metis list_update_overwrite)
  ultimately show "start_logger os sid c = (r, c') \<Longrightarrow> (\<exists>s. services c' = (services c)[sid := s]) \<and> forks c' = forks c"
    by (auto simp: start_logger_def Let_def split: if_splits option.splits)
qed

lemma fork_and_exec_effect:
  assumes "fork_and_exec os sid c = (Ok p, c1)" and "forkpty_ok os"
  shows "(\<exists>s. services c1 = (services c)[sid := s])
    \<and> (p > 0 \<and> forks c1 = forks c @ [sid] \<or> p = 0 \<and> forks c1 = forks c)"
proof (cases "os_forkpty os (ticks c)")
  case None
  then have "c1 = tick os c" "p = 0" using assms by (auto simp: fork_and_exec_def split: if_splits)
  then show ?thesis by (metis forks_same(1) list_update_id services_same(1))
next
  case (Some q)
  then obtain fd where q: "os_forkpty os (ticks c) = Some (p, fd)"
      and c1: "c1 = upd_srv sid (\<lambda>s. s\<lparr>output_fd := fd\<rparr>) (say (Forked sid p) (tick os c))"
    using assms by (auto simp: fork_and_exec_def split: if_splits prod.splits)
  have "0 < p" using assms(2) q unfolding forkpty_ok_def by blast
  moreover have "forks c1 = forks (tick os c) @ [sid]"
    using forks_append [of "say (Forked sid p) (tick os c)" "tick os c" "[Forked sid p]"]
    by (simp add: c1 say_def List.map_filter_simps)
  ultimately show ?thesis unfolding c1 by auto
qed

lemma fork_attempts_effect:
  assumes "forkpty_ok os"
  shows "fork_attempts os n sid c = (r, c') \<Longrightarrow> \<forall>h. r \<noteq> Halt h \<Longrightarrow> starts_one sid c r c'"
proof (induction n arbitrary: c)
  case 0
  then show ?case
    by (auto simp: starts_one_def throw_message_errno_def intro!: exI [of _ "srv c sid"] split: if_splits)
next
  case (Suc n)
  obtain rf c1 where f: "fork_and_exec os sid c = (rf, c1)" by fastforce
  show ?case
  proof (cases rf)
    case (Ok p)
    let ?c2 = "upd_srv sid (\<lambda>s. s\<lparr>pid := p\<rparr>) c1"
    note E = fork_and_exec_effect [OF f [unfolded Ok] assms]
    then obtain s1 where s1: "services c1 = (services c)[sid := s1]" by blast
    show ?thesis
    proof (cases "p > 0")
      case True
      then have fk: "forks c1 = forks c @ [sid]" using E by auto
      let ?c3 = "log_debug (''started service '' @ quoted (srv_name (srv ?c2 sid)) @ ''.'') ?c2"
      have c': "bind_st (get_time os ?c3) (\<lambda>t c3. start_logger os sid (upd_srv sid (\<lambda>s. s\<lparr>start_time := t\<rparr>) c3)) = (r, c')"
        using Suc.prems(1) f Ok True by (simp add: Let_def)
      obtain rt c4 where g: "get_time os ?c3 = (rt, c4)" by fastforce
      have s4: "services c4 = services ?c2" "forks c4 = forks c1"
        using same_core_get_time [OF g] forks_core [OF same_core_get_time [OF g]] by (simp_all add: same_core_def)
      show ?thesis
      proof (cases rt)
        case (Ok t)
        then have "start_logger os sid (upd_srv sid (\<lambda>s. s\<lparr>start_time := t\<rparr>) c4) = (r, c')" using c' g by simp
        from start_logger_effect [OF this] obtain s where
          "services c' = (services (upd_srv sid (\<lambda>s. s\<lparr>start_time := t\<rparr>) c4))[sid := s]" "forks c' = forks c4" by auto
        then show ?thesis using s1 s4 fk by (auto simp: starts_one_def)
      next
        case (Exn e)
        then show ?thesis using c' g s1 s4 fk by (auto simp: starts_one_def)
      next
        case (Halt h)
        then show ?thesis using c' g Suc.prems(2) by auto
      qed
    next
      case False
      then have fk: "forks c1 = forks c" using E by auto
      have "fork_attempts os n sid (msleep os 500 ?c2) = (r, c')" using Suc.prems(1) f Ok False by (simp add: Let_def)
      then have "starts_one sid (msleep os 500 ?c2) r c'" using Suc.IH Suc.prems(2) by blast
      then show ?thesis using s1 fk by (auto simp: starts_one_def)
    qed
  next
    case (Exn e)
    with f show ?thesis by (auto simp: fork_and_exec_def split: if_splits option.splits)
  next
    case (Halt h)
    with Suc.prems f show ?thesis by auto
  qed
qed

lemma start_service_effect:
  assumes "forkpty_ok os" and "start_service os dk sid c = (r, c')" and "\<forall>h. r \<noteq> Halt h" and "pid (srv c sid) = 0"
  shows "starts_one sid c r c'"
proof -
  define c1 where "c1 = announce_start sid c"
  have s1: "services c1 = services c" "forks c1 = forks c"
    using same_core_announce [of c sid] forks_core [OF same_core_announce] by (simp_all add: c1_def same_core_def)
  have sid: "\<not> MAX_NUM_SERVICES \<le> sid" using assms(2,3) by (auto simp: start_service_def)
  have eq: "bind_st (chdir_to_service dk (srv_name (srv c sid)) c1) (\<lambda>_. fork_attempts os 4 sid) = (r, c')"
    using assms(2,4) sid by (simp add: start_service_def is_service_started_def c1_def)
  obtain rc c2 where ch: "chdir_to_service dk (srv_name (srv c sid)) c1 = (rc, c2)" by fastforce
  then obtain w where "c2 = c1\<lparr>cwd := w\<rparr>" using chdir_to_service_frame by blast
  then have s2: "services c2 = services c" "forks c2 = forks c" using s1 by (simp_all add: forks_def)
  show ?thesis
  proof (cases rc)
    case (Ok u)
    then have "fork_attempts os 4 sid c2 = (r, c')" using eq ch by simp
    from fork_attempts_effect [OF assms(1) this assms(3)] show ?thesis using s2 by (simp add: starts_one_def)
  next
    case (Exn e)
    then have "c' = c2" "r = Exn e" using eq ch by simp_all
    then show ?thesis using s2 by (auto simp: starts_one_def intro: exI [of _ "srv c sid"])
  next
    case (Halt h)
    then show ?thesis using eq ch assms(3) by auto
  qed
qed

lemma fork_attempts_message: "fork_attempts os n sid c = (Exn e, c') \<Longrightarrow> e \<noteq> []"
proof (induction n arbitrary: c)
  case 0
  then show ?case by (auto simp: throw_message_errno_Exn)
next
  case (Suc n)
  have t: "start_logger os sid x = (Exn e, c') \<Longrightarrow> e \<noteq> []" for x
    by (auto simp: start_logger_def Let_def throw_message_Exn split: if_splits option.splits)
  have n: "fst (get_time os x) \<noteq> Exn m" for x m
    by (simp add: get_time_def no_time_def split: clock_answer.split sum.split)
  have g: "bind_st (get_time os x) (\<lambda>t c3. start_logger os sid (upd_srv sid (\<lambda>s. s\<lparr>start_time := t\<rparr>) c3)) = (Exn e, c') \<Longrightarrow> e \<noteq> []" for x
    using t n [of x e] by (cases "get_time os x"; cases "fst (get_time os x)") auto
  obtain rf c1 where f: "fork_and_exec os sid c = (rf, c1)" by fastforce
  show ?case
  proof (cases rf)
    case (Ok p)
    show ?thesis
    proof (cases "p > 0")
      case True
      with Suc.prems f Ok g show ?thesis by (simp add: Let_def)
    next
      case False
      with Suc.prems f Ok Suc.IH show ?thesis by (simp add: Let_def)
    qed
  qed (use f Suc.prems in \<open>auto simp: fork_and_exec_def split: if_splits option.splits\<close>)
qed

lemma start_service_message: "start_service os dk sid c = (Exn e, c') \<Longrightarrow> e \<noteq> []"
proof -
  have c: "fst (chdir_to_service dk name x) = Exn e \<Longrightarrow> e \<noteq> []" for name x
    by (auto simp: chdir_to_service_def throw_chdir_def Let_def throw_message_Exn throw_message_errno_Exn
        split: if_splits chdir_answer.splits)
  show "start_service os dk sid c = (Exn e, c') \<Longrightarrow> e \<noteq> []"
    using c [of "srv_name (srv c sid)" "announce_start sid c"] fork_attempts_message
    by (cases "chdir_to_service dk (srv_name (srv c sid)) (announce_start sid c)";
        cases "fst (chdir_to_service dk (srv_name (srv c sid)) (announce_start sid c))")
      (auto simp: start_service_def split: if_splits)
qed

lemma start_and_wait_effect:
  assumes os: "forkpty_ok os" and p: "start_and_wait os dk fuel sid c = (r, c')" "\<forall>h. r \<noteq> Halt h"
    and pid0: "pid (srv c sid) = 0"
  shows "(forks c' = forks c @ [sid] \<or> forks c' = forks c \<and> (\<exists>e. r = Exn e \<and> e \<noteq> []))
    \<and> (\<forall>i < length (services c). i \<noteq> sid \<longrightarrow> pid (srv c i) = 0 \<longrightarrow> pid (srv c' i) = 0)"
proof -
  obtain r1 c1 where s: "start_service os dk sid c = (r1, c1)" by fastforce
  have nh: "\<forall>h. r1 \<noteq> Halt h" using p s by (auto simp: start_and_wait_def)
  note E = start_service_effect [OF os s nh pid0]
  then obtain s1 where s1: "services c1 = (services c)[sid := s1]" by (auto simp: starts_one_def)
  show ?thesis
  proof (cases r1)
    case (Ok u)
    then have w: "wait_for_service os dk fuel sid c1 = (r, c')" using p s by (simp add: start_and_wait_def)
    have "evolves (same_or_dead (services c1)) (\<lambda>_. False) c1 c'"
      using dying.runs_wait_for_service [of "services c1" "\<lambda>_. False" c1 os dk fuel sid] w p(2) by (simp add: runs_def)
    then have sd: "same_or_dead (services c1) (services c')"
      and new: "\<exists>new. actions c' = actions c1 @ new \<and> (\<forall>a\<in>set new. \<not> loud a)"
      by (auto simp: evolves_def)
    have "forks c' = forks c1" using new by (auto simp: forks_append no_forks)
    moreover have "forks c1 = forks c @ [sid]" using E Ok by (auto simp: starts_one_def)
    ultimately show ?thesis using sd s1 by (auto simp: same_or_dead_def)
  next
    case (Exn e)
    then have "c' = c1" "r = Exn e" using p s by (simp_all add: start_and_wait_def)
    moreover have "e \<noteq> []" using start_service_message s Exn by simp
    ultimately show ?thesis using E s1 by (auto simp: starts_one_def)
  next
    case (Halt h)
    then show ?thesis using nh by simp
  qed
qed

text \<open>The services that a list of the start order makes the loop start.\<close>

definition to_start :: "cinit \<Rightarrow> int list \<Rightarrow> nat list" where
  "to_start c xs = map nat (filter (\<lambda>x. \<not> is_service_group (srv c (nat x))) (takeWhile (\<lambda>x. 0 \<le> x) xs))"

lemma to_start_config:
  assumes "same_config (services c) (services c')" and "\<forall>x\<in>set (takeWhile (\<lambda>x. 0 \<le> x) xs). nat x < length (services c)"
  shows "to_start c' xs = to_start c xs"
proof -
  have "is_service_group (srv c' (nat x)) = is_service_group (srv c (nat x))" if "x \<in> set (takeWhile (\<lambda>x. 0 \<le> x) xs)" for x
  proof -
    have "config_of (srv c' (nat x)) = config_of (srv c (nat x))"
      using assms that by (auto simp: same_config_def)
    then have "is_service_group (config_of (srv c' (nat x))) = is_service_group (config_of (srv c (nat x)))" by simp
    then show ?thesis by (simp add: config_of_def)
  qed
  then show ?thesis unfolding to_start_def by (intro arg_cong [where f = "map nat"] filter_cong) simp_all
qed

lemma to_start_Cons: "0 \<le> x \<Longrightarrow> \<not> is_service_group (srv c (nat x)) \<Longrightarrow> to_start c (x # xs) = nat x # to_start c xs"
  by (simp add: to_start_def)

lemma to_start_distinct: "distinct (takeWhile (\<lambda>x. 0 \<le> x) xs) \<Longrightarrow> distinct (to_start c xs)"
  unfolding to_start_def distinct_map by (auto intro!: inj_onI dest!: set_takeWhileD simp: eq_nat_nat_iff)

lemma to_start_named:
  "\<forall>x\<in>set (takeWhile (\<lambda>x. 0 \<le> x) xs). named (nat x) c \<Longrightarrow> a \<in> set (to_start c xs) \<Longrightarrow> named a c"
  by (auto simp: to_start_def)

text \<open>
  One round of the loop: the service is started, or its start has failed and may fail, or the loop ends with an exception.
\<close>

lemma start_step:
  assumes os: "forkpty_ok os" and nm: "named sid c" and p0: "pid (srv c sid) = 0"
    and t: "try_catch (start_and_wait os dk fuel sid c) (start_failed sid) = (r, c')" and nh: "\<forall>h. r \<noteq> Halt h"
  shows "(forks c' = forks c @ [sid] \<or> forks c' = forks c \<and> (ignore_failure (srv c sid) \<or> r \<noteq> Ok ()))
    \<and> same_config (services c) (services c') \<and> (\<forall>i. named i c' = named i c)
    \<and> (\<forall>i < length (services c). i \<noteq> sid \<longrightarrow> pid (srv c i) = 0 \<longrightarrow> pid (srv c' i) = 0)"
proof -
  obtain r1 c1 where sw: "start_and_wait os dk fuel sid c = (r1, c1)" by fastforce
  have nh1: "\<forall>h. r1 \<noteq> Halt h" using t nh sw by (cases r1) auto
  note E = start_and_wait_effect [OF os sw nh1 p0]
  have ev: "evolves (same_config (services c)) (\<lambda>_. True) c c1"
    using config.runs_start_and_wait [OF os nm, of "services c" dk fuel] sw nh1 by (simp add: runs_def)
  have c': "services c' = services c1 \<and> forks c' = forks c1"
    using t sw by (cases r1) (auto simp: start_failed_def Let_def split: if_splits)
  have cf: "same_config (services c) (services c1)" using ev by (simp add: evolves_def)
  have "config_of (srv c1 sid) = config_of (srv c sid)" using cf nm by (simp add: same_config_def named_def)
  then have "ignore_failure (config_of (srv c1 sid)) = ignore_failure (config_of (srv c sid))" by simp
  then have ig: "ignore_failure (srv c1 sid) = ignore_failure (srv c sid)" by (simp add: config_of_def)
  have "forks c' = forks c @ [sid] \<or> forks c' = forks c \<and> (ignore_failure (srv c sid) \<or> r \<noteq> Ok ())"
  proof -
    consider "forks c1 = forks c @ [sid]" | e where "forks c1 = forks c" "r1 = Exn e" "e \<noteq> []" using E by auto
    then show ?thesis
    proof cases
      case 2
      have "start_failed sid e c1 = (r, c')" using t sw 2(2,3) by (simp add: cexception_none_def)
      moreover have "throw_message m \<noteq> Ok ()" for m by (simp add: throw_message_def)
      ultimately have "ignore_failure (srv c1 sid) \<or> r \<noteq> Ok ()" by (auto simp: start_failed_def Let_def split: if_splits)
      then show ?thesis using 2(1) c' ig by simp
    qed (simp add: c')
  qed
  moreover have "named i c' = named i c" for i using evolves_named [OF ev, of i] c' by (simp add: named_def)
  ultimately show ?thesis using E c' cf by simp
qed

text \<open>
  What the loop over the services \<open>ts\<close> starts, \<open>ys\<close>: in their order, none without those before it that may not fail, and
  after a normal end without a shutdown request all that may not fail.
\<close>

definition started :: "(nat \<Rightarrow> bool) \<Rightarrow> bool \<Rightarrow> nat list \<Rightarrow> nat list \<Rightarrow> bool" where
  "started may_fail complete ts ys \<longleftrightarrow> subseq ys ts
     \<and> (\<forall>a b. subseq [a, b] ts \<longrightarrow> b \<in> set ys \<longrightarrow> \<not> may_fail a \<longrightarrow> subseq [a, b] ys)
     \<and> (complete \<longrightarrow> (\<forall>a\<in>set ts. \<not> may_fail a \<longrightarrow> a \<in> set ys))"

lemma started_pair: "started f complete ts ys \<Longrightarrow> subseq [a, b] ts \<Longrightarrow> b \<in> set ys \<Longrightarrow> \<not> f a \<Longrightarrow> subseq [a, b] ys"
  unfolding started_def by blast

lemma started_Nil: "\<not> complete \<or> ts = [] \<Longrightarrow> started f complete ts []"
  by (auto simp: started_def)

lemma started_Cons: "started f complete ts ys \<Longrightarrow> x \<notin> set ts \<Longrightarrow> started f complete (x # ts) (x # ys)"
proof -
  assume s: "started f complete ts ys" and x: "x \<notin> set ts"
  have "subseq [a, b] (x # ys)" if "subseq [a, b] (x # ts)" "b \<in> set (x # ys)" "\<not> f a" for a b
  proof (cases "a = x")
    case True
    then have "b \<in> set ts" using that(1) by (simp add: subseq_singleton_left)
    then show ?thesis using True that(2) x by (auto simp: subseq_singleton_left)
  next
    case False
    then have ab: "subseq [a, b] ts" using that(1) by simp
    then have "b \<in> set ts" using list_emb_set [OF ab, of b] by auto
    then have "b \<in> set ys" using that(2) x by auto
    then have "subseq [a, b] ys" using started_pair [OF s ab _ that(3)] by blast
    then show ?thesis by (rule list_emb_Cons)
  qed
  moreover have "subseq (x # ys) (x # ts)" using s by (simp add: started_def)
  moreover have "complete \<longrightarrow> (\<forall>a\<in>set (x # ts). \<not> f a \<longrightarrow> a \<in> set (x # ys))" using s by (simp add: started_def)
  ultimately show ?thesis unfolding started_def by blast
qed

lemma started_skip: "started f complete ts ys \<Longrightarrow> f x \<Longrightarrow> started f complete (x # ts) ys"
proof -
  assume s: "started f complete ts ys" and x: "f x"
  have "subseq [a, b] ys" if "subseq [a, b] (x # ts)" "b \<in> set ys" "\<not> f a" for a b
  proof -
    have "a \<noteq> x" using that(3) x by blast
    then have "subseq [a, b] ts" using that(1) by simp
    then show ?thesis using started_pair [OF s] that(2,3) by blast
  qed
  moreover have "subseq ys (x # ts)" using s by (simp add: started_def list_emb_Cons)
  moreover have "complete \<longrightarrow> (\<forall>a\<in>set (x # ts). \<not> f a \<longrightarrow> a \<in> set ys)" using s x by (simp add: started_def)
  ultimately show ?thesis unfolding started_def by blast
qed

lemma started_cong: "started f complete ts ys \<Longrightarrow> (\<And>a. a \<in> set ts \<Longrightarrow> f a = g a) \<Longrightarrow> started g complete ts ys"
proof -
  assume s: "started f complete ts ys" and e: "\<And>a. a \<in> set ts \<Longrightarrow> f a = g a"
  have "subseq [a, b] ys" if ab: "subseq [a, b] ts" "b \<in> set ys" "\<not> g a" for a b
  proof -
    have "a \<in> set ts" using list_emb_set [OF ab(1), of a] by auto
    then show ?thesis using started_pair [OF s ab(1,2)] ab(3) e by blast
  qed
  moreover have "subseq ys ts" "complete \<longrightarrow> (\<forall>a\<in>set ts. \<not> g a \<longrightarrow> a \<in> set ys)" using s e by (simp_all add: started_def)
  ultimately show ?thesis unfolding started_def by blast
qed

lemma started_all: "started f True ts ys \<Longrightarrow> distinct ts \<Longrightarrow> (\<forall>a\<in>set ts. \<not> f a) \<Longrightarrow> ys = ts"
proof -
  assume s: "started f True ts ys" and d: "distinct ts" and a: "\<forall>a\<in>set ts. \<not> f a"
  then have "set ts \<subseteq> set ys" by (auto simp: started_def)
  then have "length ts \<le> length ys" using distinct_card [OF d] card_mono [of "set ys" "set ts"] card_length [of ys] by simp
  then show ?thesis using s list_emb_length [of "(=)" ys ts] subseq_same_length [of ys ts] by (simp add: started_def)
qed

lemma start_from_order:
  assumes "forkpty_ok os"
  shows "start_from os dk fuel xs c = (r, c') \<Longrightarrow> \<forall>h. r \<noteq> Halt h \<Longrightarrow>
    \<forall>x\<in>set (takeWhile (\<lambda>x. 0 \<le> x) xs). named (nat x) c \<and> pid (srv c (nat x)) = 0 \<Longrightarrow>
    distinct (takeWhile (\<lambda>x. 0 \<le> x) xs) \<Longrightarrow>
    \<exists>ys. forks c' = forks c @ ys
      \<and> started (\<lambda>a. ignore_failure (srv c a)) (r = Ok () \<and> \<not> do_shutdown c') (to_start c xs) ys"
proof (induction xs arbitrary: c)
  case Nil
  then show ?case by (simp add: to_start_def started_Nil)
next
  case (Cons x xs)
  show ?case
  proof (cases "x < 0 \<or> is_service_group (srv c (nat x)) \<or> do_shutdown c")
    case True
    then consider "x < 0" | "\<not> x < 0" "is_service_group (srv c (nat x))"
      | "\<not> x < 0" "\<not> is_service_group (srv c (nat x))" "do_shutdown c" by blast
    then show ?thesis
    proof cases
      case 2
      then have "to_start c (x # xs) = to_start c xs" by (simp add: to_start_def)
      with 2 Cons show ?thesis by simp
    qed (use Cons.prems(1) in \<open>auto simp: to_start_def started_Nil\<close>)
  next
    case False
    then have x: "0 \<le> x" and ts: "to_start c (x # xs) = nat x # to_start c xs" by (simp_all add: to_start_Cons)
    have tw: "takeWhile (\<lambda>x. 0 \<le> x) (x # xs) = x # takeWhile (\<lambda>x. 0 \<le> x) xs" using x by simp
    have nxs: "\<forall>y\<in>set (takeWhile (\<lambda>x. 0 \<le> x) xs). named (nat y) c \<and> pid (srv c (nat y)) = 0"
      using Cons.prems(3) unfolding tw by simp
    have nx: "nat x \<notin> set (to_start c xs)" using to_start_distinct [OF Cons.prems(4), of c] ts by simp
    obtain r2 c2 where t: "try_catch (start_and_wait os dk fuel (nat x) c) (start_failed (nat x)) = (r2, c2)" by fastforce
    have rest: "bind_st (r2, c2) (\<lambda>_. start_from os dk fuel xs) = (r, c')"
      using Cons.prems(1) False t by (simp del: try_catch.simps)
    have nm: "named (nat x) c" and p0: "pid (srv c (nat x)) = 0" using Cons.prems(3) x by auto
    have nh: "\<forall>h. r2 \<noteq> Halt h" using rest Cons.prems(2) by (cases r2) auto
    note E = start_step [OF assms nm p0 t nh]
    show ?thesis
    proof (cases r2)
      case (Ok u)
      have cfg: "config_of (srv c2 i) = config_of (srv c i)" if "i < length (services c)" for i
        using E that by (simp add: same_config_def)
      then have "ignore_failure (config_of (srv c2 i)) = ignore_failure (config_of (srv c i))" if "i < length (services c)" for i
        using that by simp
      then have ig: "ignore_failure (srv c2 i) = ignore_failure (srv c i)" if "i < length (services c)" for i
        using that by (simp add: config_of_def)
      have "\<forall>y\<in>set (takeWhile (\<lambda>x. 0 \<le> x) xs). named (nat y) c2 \<and> pid (srv c2 (nat y)) = 0"
      proof
        fix y assume y: "y \<in> set (takeWhile (\<lambda>x. 0 \<le> x) xs)"
        then have "named (nat y) c" "pid (srv c (nat y)) = 0" "nat y \<noteq> nat x"
          using Cons.prems(3,4) x set_takeWhileD [OF y] unfolding tw by (auto simp: eq_nat_nat_iff)
        then show "named (nat y) c2 \<and> pid (srv c2 (nat y)) = 0" using E by (simp add: named_def)
      qed
      moreover have "start_from os dk fuel xs c2 = (r, c')" using rest Ok by simp
      ultimately obtain ys where ys: "forks c' = forks c2 @ ys"
          "started (\<lambda>a. ignore_failure (srv c2 a)) (r = Ok () \<and> \<not> do_shutdown c') (to_start c2 xs) ys"
        using Cons.IH [of c2] Cons.prems(2,4) unfolding tw by auto
      have "to_start c2 xs = to_start c xs"
        by (rule to_start_config) (use E nxs in \<open>simp_all add: named_def\<close>)
      moreover have "a < length (services c)" if "a \<in> set (to_start c xs)" for a
        using to_start_named [of xs c a] that nxs by (simp add: named_def)
      ultimately have st: "started (\<lambda>a. ignore_failure (srv c a)) (r = Ok () \<and> \<not> do_shutdown c') (to_start c xs) ys"
        using started_cong [OF ys(2)] ig by simp
      show ?thesis
        using E Ok ys(1) started_Cons [OF st nx] started_skip [OF st, of "nat x"] unfolding ts by auto
    next
      case (Exn e)
      then have r: "r \<noteq> Ok ()" "c' = c2" using rest by auto
      then have n: "started (\<lambda>a. ignore_failure (srv c a)) (r = Ok () \<and> \<not> do_shutdown c') ts []" for ts by (simp add: started_Nil)
      show ?thesis using E r(2) n [of "nat x # to_start c xs"] started_Cons [OF n nx] unfolding ts by auto
    qed (use nh in simp)
  qed
qed

section \<open>A sample start\<close>

text \<open>A group and two services behind it.\<close>

definition waiting_services :: cinit where
  "waiting_services = g_ctx\<lparr>services := [zero_service\<lparr>srv_name := ''x'', output_fd := - 1\<rparr>,
      zero_service\<lparr>srv_name := ''app'', output_fd := - 1\<rparr>, zero_service\<lparr>srv_name := ''all'', is_service_group := True\<rparr>]
        @ replicate 61 zero_service, start_order := [0, 2, 1] @ replicate 61 (- 1)\<rparr>"

section \<open>Properties\<close>

text \<open>
  C6. Services are started in the start order: the processes that \<open>start_services\<close> forks belong to distinct
  services in that order, without the service groups; without a shutdown request, and when no service may
  fail, a normal return means that every one of them was started.
\<close>

theorem services_start_in_order:
  assumes "forkpty_ok os" and "start_services os dk fuel c = (Ok (), c')"
    and "\<forall>x\<in>set (takeWhile (\<lambda>x. 0 \<le> x) (start_order c)). named (nat x) c \<and> pid (srv c (nat x)) = 0"
    and "distinct (takeWhile (\<lambda>x. 0 \<le> x) (start_order c))"
  shows "\<exists>ys. forks c' = forks c @ ys \<and> subseq ys (to_start c (start_order c))
    \<and> (\<not> do_shutdown c' \<and> (\<forall>i < length (services c). \<not> ignore_failure (srv c i)) \<longrightarrow> ys = to_start c (start_order c))"
proof -
  let ?ts = "to_start c (start_order c)"
  obtain ys where ys: "forks c' = forks c @ ys" "started (\<lambda>a. ignore_failure (srv c a)) (\<not> do_shutdown c') ?ts ys"
    using start_from_order [OF assms(1), of dk fuel "start_order c" c "Ok ()"] assms(2-4) by (auto simp: start_services_def)
  have "ys = ?ts" if "\<not> do_shutdown c'" "\<forall>i < length (services c). \<not> ignore_failure (srv c i)"
  proof (rule started_all)
    show "started (\<lambda>a. ignore_failure (srv c a)) True ?ts ys" using ys(2) that(1) by simp
    show "distinct ?ts" by (rule to_start_distinct [OF assms(4)])
    have "named a c" if "a \<in> set ?ts" for a using to_start_named [OF _ that] assms(3) by blast
    then show "\<forall>a\<in>set ?ts. \<not> ignore_failure (srv c a)" using that(2) by (simp add: named_def)
  qed
  moreover have "subseq ys ?ts" using ys(2) by (simp add: started_def)
  ultimately show ?thesis using ys(1) by blast
qed

theorem services_start_in_order_witness:
  "\<exists>ys. forks (snd (start_services (sample_os (\<lambda>_. StillRunning)) quiet_disk 3 waiting_services)) = [] @ ys
     \<and> subseq ys [0, 1]"
proof -
  let ?r = "start_services (sample_os (\<lambda>_. StillRunning)) quiet_disk 3 waiting_services"
  have f: "forkpty_ok (sample_os w)" for w by (auto simp: forkpty_ok_def sample_os_def)
  have r: "?r = (Ok (), snd ?r)" by (rule prod_eqI) (simp_all, code_simp)
  have tw: "takeWhile (\<lambda>x. 0 \<le> x) (start_order waiting_services) = [0, 2, 1]" by (simp add: waiting_services_def)
  have n: "\<forall>x\<in>set (takeWhile (\<lambda>x. 0 \<le> x) (start_order waiting_services)).
      named (nat x) waiting_services \<and> pid (srv waiting_services (nat x)) = 0"
    unfolding tw by (simp add: waiting_services_def named_def zero_service_def)
  have "distinct (takeWhile (\<lambda>x. 0 \<le> x) (start_order waiting_services))" unfolding tw by simp
  moreover have "to_start waiting_services (start_order waiting_services) = [0, 1]" "forks waiting_services = []"
    by code_simp+
  ultimately show ?thesis using services_start_in_order [OF f r n] by auto
qed

end
