(* ===== verification/Shutdown.thy ===== *)
theory Shutdown
  imports Supervisor
begin

text \<open>
  The end of \<open>src/src/cinit/cinit.c\<close>: \<open>cinit_shutdown\<close> stops the services in reverse start order, then
  broadcasts TERM and KILL as long as processes are left; \<open>cinit_exit\<close> leaves.
\<close>

section \<open>Model\<close>

text \<open>
  The loop over the start order, here a list from its end; the value tells that no process is left.
\<close>

fun stop_all :: "os \<Rightarrow> disk \<Rightarrow> nat \<Rightarrow> int list \<Rightarrow> cinit \<Rightarrow> bool res \<times> cinit" where
  "stop_all os dk fuel [] c = (Ok False, c)"
| "stop_all os dk fuel (x # xs) c =
     (if x < 0 then stop_all os dk fuel xs c
      else if is_service_group (srv c (nat x)) then stop_all os dk fuel xs c
      else if pid (srv c (nat x)) = 0 then stop_all os dk fuel xs c
      else
        bind_st (try_catch (stop_service os dk (nat x) c)
                  (\<lambda>e c1. (Ok (), log_err (''failed to stop service '' @ quoted (srv_name (srv c1 (nat x))) @ '': '' @ e) c1)))
          (\<lambda>_ c1. bind_st (child_handler os dk fuel 250 x c1) (\<lambda>all_gone c2.
             if all_gone then (Ok True, c2) else stop_all os dk fuel xs c2)))"

definition cinit_shutdown :: "os \<Rightarrow> disk \<Rightarrow> nat \<Rightarrow> cinit \<Rightarrow> unit res \<times> cinit" where
  "cinit_shutdown os dk fuel c =
     bind_st (stop_all os dk fuel (rev (start_order c)) c) (\<lambda>all_gone c1.
     if all_gone then (Ok (), c1) else
     bind_st (child_handler os dk fuel 0 (- 1) c1) (\<lambda>all_gone c2.
     if all_gone then (Ok (), c2) else
     bind_st (child_handler os dk fuel (sint (services_gracetime c2)) (- 1)
               (kill os (- 1) SIGTERM (log ''sending SIGTERM to all processes...'' c2))) (\<lambda>all_gone c3.
     if all_gone then (Ok (), c3) else
     ignore (child_handler os dk fuel (- 1) (- 1)
               (kill os (- 1) SIGKILL (log ''sending SIGKILL to all processes...'' c3))))))"

text \<open>\<open>exec_ok\<close>: whether \<open>execve\<close> of the exit script succeeds.\<close>

definition cinit_exit :: "disk \<Rightarrow> bool \<Rightarrow> int \<Rightarrow> cinit \<Rightarrow> cinit" where
  "cinit_exit dk exec_ok status c =
     (let root = services_root c in
      if dk_chdir dk root = ChdirOk \<and> dk_executable dk root ''exit'' \<and> exec_ok
      then say (BecameProgram ''./exit'' [''exit'', dec_int status]) (c\<lparr>cwd := root\<rparr>)
      else say (Exited status) (if dk_chdir dk root = ChdirOk then c\<lparr>cwd := root\<rparr> else c))"

section \<open>Signals\<close>

fun is_signal :: "action \<Rightarrow> bool" where
  "is_signal (Signalled p sig) = True"
| "is_signal _ = False"

definition signals :: "cinit \<Rightarrow> action list" where
  "signals c = filter is_signal (actions c)"

lemma no_signals: "\<forall>a\<in>set new. \<not> loud a \<Longrightarrow> filter is_signal new = []"
  by (induction new) (auto elim: is_signal.elims)

lemma signals_core: "same_core c c' \<Longrightarrow> signals c' = signals c"
  by (auto simp: same_core_def quiet_actions_def signals_def no_signals)

lemma is_signal_iff: "is_signal a \<longleftrightarrow> (\<exists>p sig. a = Signalled p sig)"
  by (cases a) auto

text \<open>Reaping sends no signal.\<close>

lemma child_handler_frame:
  assumes "child_handler os dk fuel period service c = (Ok b, c')" and "same_or_dead ss0 (services c)"
  shows "same_or_dead ss0 (services c') \<and> signals c' = signals c \<and> start_order c' = start_order c
    \<and> services_gracetime c' = services_gracetime c \<and> ticks c \<le> ticks c'"
proof -
  have e: "evolves (same_or_dead ss0) (\<lambda>_. False) c c'"
    using dying.runs_child_handler [of ss0 "\<lambda>_. False" c os dk fuel period service] assms(1) by (simp add: runs_def)
  then obtain new where "actions c' = actions c @ new" "\<forall>a\<in>set new. \<not> loud a"
    using assms(2) by (auto simp: evolves_def)
  then have "signals c' = signals c" by (auto simp: signals_def no_signals)
  with e assms(2) show ?thesis by (auto simp: evolves_def)
qed

text \<open>Stopping a service sends at most one signal, \<open>SIGTERM\<close> to its process.\<close>

lemma stop_service_frame:
  assumes "stop_service os dk sid c = (r, c')" and "\<forall>h. r \<noteq> Halt h"
  shows "services c' = services c \<and> start_order c' = start_order c \<and> services_gracetime c' = services_gracetime c
    \<and> ticks c \<le> ticks c'
    \<and> (signals c' = signals c \<or> signals c' = signals c @ [Signalled (pid (srv c sid)) SIGTERM])"
proof (cases "MAX_NUM_SERVICES \<le> sid \<or> pid (srv c sid) = 0")
  case True
  with assms show ?thesis by (auto simp: stop_service_def split: if_splits)
next
  case False
  define c1 where "c1 = log (''stopping service '' @ quoted (srv_name (srv c sid)) @ ''...'') c"
  have sc: "same_core c c1" by (simp add: c1_def same_core_log)
  obtain r2 c2 where ch: "chdir_to_service dk (srv_name (srv c sid)) c1 = (r2, c2)" by fastforce
  then obtain w where w: "c2 = c1\<lparr>cwd := w\<rparr>" using chdir_to_service_frame by blast
  have f2: "services c2 = services c" "start_order c2 = start_order c" "services_gracetime c2 = services_gracetime c"
    "ticks c \<le> ticks c2" "signals c2 = signals c"
    using sc signals_core [OF sc] by (simp_all add: w same_core_def signals_def)
  obtain r3 c3 where q: "(if dk_executable dk (cwd c2) ''kill''
                  then ignore (exec_service_cmd os sid ''./kill'' ''kill'' (dec_int (pid (srv c2 sid))) c2)
                  else (Ok (), c2)) = (r3, c3)" by fastforce
  have core3: "same_core c2 c3"
  proof (cases "dk_executable dk (cwd c2) ''kill''")
    case True
    obtain z x where z: "exec_service_cmd os sid ''./kill'' ''kill'' (dec_int (pid (srv c2 sid))) c2 = (z, x)" by fastforce
    then have "c3 = x" using q True by (cases z) (auto simp: ignore_def)
    then show ?thesis using same_core_exec [OF z] by simp
  qed (use q in auto)
  have eq: "stop_service os dk sid c = bind_st (chdir_to_service dk (srv_name (srv c sid)) c1) (\<lambda>_ c1.
         bind_st (if dk_executable dk (cwd c1) ''kill''
                  then ignore (exec_service_cmd os sid ''./kill'' ''kill'' (dec_int (pid (srv c1 sid))) c1)
                  else (Ok (), c1)) (\<lambda>_ c2. (Ok (), kill os (pid (srv c2 sid)) SIGTERM c2)))"
    using False by (simp only: stop_service_def Let_def c1_def) simp
  have f3: "services c3 = services c" "start_order c3 = start_order c" "services_gracetime c3 = services_gracetime c"
    "ticks c \<le> ticks c3" "signals c3 = signals c"
    using core3 f2 signals_core [OF core3] by (simp_all add: same_core_def)
  have k: "services (kill os p sig c3) = services c3 \<and> start_order (kill os p sig c3) = start_order c3
    \<and> services_gracetime (kill os p sig c3) = services_gracetime c3 \<and> ticks c3 \<le> ticks (kill os p sig c3)
    \<and> signals (kill os p sig c3) = signals c3 @ [Signalled p sig]" for p sig
    using same_core_tick [of c3 os] signals_core [OF same_core_tick [of c3 os]]
    by (auto simp: kill_def say_def same_core_def signals_def)
  show ?thesis
  proof (cases r2)
    case (Ok y)
    note r2 = this
    show ?thesis
    proof (cases r3)
      case (Ok z)
      have "c' = kill os (pid (srv c3 sid)) SIGTERM c3"
        using assms(1) unfolding eq ch r2 bind_st.simps q Ok by simp
      with f3 k [of "pid (srv c3 sid)" SIGTERM] show ?thesis by auto
    next
      case (Exn e)
      have "c' = c3" using assms(1) unfolding eq ch r2 bind_st.simps q Exn by simp
      with f3 show ?thesis by simp
    next
      case (Halt h)
      have "r = Halt h" using assms(1) unfolding eq ch r2 bind_st.simps q Halt by simp
      with assms(2) show ?thesis by simp
    qed
  next
    case (Exn e)
    have "c' = c2" using assms(1) unfolding eq ch Exn by simp
    with f2 show ?thesis by simp
  next
    case (Halt h)
    have "r = Halt h" using assms(1) unfolding eq ch Halt by simp
    with assms(2) show ?thesis by simp
  qed
qed

lemma stop_or_log_frame:
  assumes "try_catch (stop_service os dk sid c)
      (\<lambda>e c1. (Ok (), log_err (''failed to stop service '' @ quoted (srv_name (srv c1 sid)) @ '': '' @ e) c1)) = (r, c')"
    and "\<forall>h. r \<noteq> Halt h"
  shows "services c' = services c \<and> start_order c' = start_order c \<and> services_gracetime c' = services_gracetime c
    \<and> ticks c \<le> ticks c'
    \<and> (signals c' = signals c \<or> signals c' = signals c @ [Signalled (pid (srv c sid)) SIGTERM])"
proof -
  obtain r1 c1 where st: "stop_service os dk sid c = (r1, c1)" by fastforce
  have nh: "\<forall>h. r1 \<noteq> Halt h" using assms st by auto
  note F = stop_service_frame [OF st nh]
  have c': "c' = c1 \<or> (\<exists>m. c' = log_err m c1)"
    using assms(1) st by (cases r1) (auto split: if_splits)
  have "same_core c1 c'" using c' same_core_log(2) by auto
  with F signals_core [OF this] show ?thesis by (auto simp: same_core_def)
qed

definition all_reaped :: "os \<Rightarrow> cinit \<Rightarrow> bool" where
  "all_reaped os c \<longleftrightarrow> (\<exists>t. ticks c = Suc t \<and> reaped_pid (os_waitpid os t (- 1)) = - 1)"

lemma child_handler_reaped:
  "child_handler os dk fuel period service c = (Ok b, c') \<Longrightarrow> b \<Longrightarrow> all_reaped os c'"
  using child_handler_result unfolding all_reaped_def by blast

text \<open>
  What the loop does over the part \<open>xs\<close> of the order: signals to some of its services, in the order of
  the list, each to the process the service had at the start.
\<close>

definition swept :: "service list \<Rightarrow> cinit \<Rightarrow> int list \<Rightarrow> cinit \<Rightarrow> bool" where
  "swept ss0 c xs c' \<longleftrightarrow> same_or_dead ss0 (services c') \<and> start_order c' = start_order c
     \<and> services_gracetime c' = services_gracetime c \<and> ticks c \<le> ticks c'
     \<and> (\<exists>ys. signals c' = signals c @ map (\<lambda>x. Signalled (pid (ss0 ! nat x)) SIGTERM) ys
        \<and> subseq ys xs \<and> (\<forall>x\<in>set ys. 0 \<le> x \<and> pid (ss0 ! nat x) \<noteq> 0))"

lemma swept_refl: "same_or_dead ss0 (services c) \<Longrightarrow> swept ss0 c xs c"
  unfolding swept_def by (auto intro!: exI [of _ "[]"])

lemma swept_append:
  assumes "swept ss0 c xs c1" and "swept ss0 c1 zs c2"
  shows "swept ss0 c (xs @ zs) c2"
proof -
  obtain us where us: "signals c1 = signals c @ map (\<lambda>x. Signalled (pid (ss0 ! nat x)) SIGTERM) us"
    "subseq us xs" "\<forall>x\<in>set us. 0 \<le> x \<and> pid (ss0 ! nat x) \<noteq> 0"
    using assms(1) by (auto simp: swept_def)
  obtain vs where vs: "signals c2 = signals c1 @ map (\<lambda>x. Signalled (pid (ss0 ! nat x)) SIGTERM) vs"
    "subseq vs zs" "\<forall>x\<in>set vs. 0 \<le> x \<and> pid (ss0 ! nat x) \<noteq> 0"
    using assms(2) by (auto simp: swept_def)
  have "subseq (us @ vs) (xs @ zs)" using us(2) vs(2) by (rule list_emb_append_mono)
  moreover have "\<forall>x\<in>set (us @ vs). 0 \<le> x \<and> pid (ss0 ! nat x) \<noteq> 0" using us(3) vs(3) by auto
  ultimately have "\<exists>ys. signals c2 = signals c @ map (\<lambda>x. Signalled (pid (ss0 ! nat x)) SIGTERM) ys
        \<and> subseq ys (xs @ zs) \<and> (\<forall>x\<in>set ys. 0 \<le> x \<and> pid (ss0 ! nat x) \<noteq> 0)"
    using us(1) vs(1) by (intro exI [of _ "us @ vs"]) simp
  then show ?thesis using assms by (simp add: swept_def)
qed

lemma swept_Cons: "swept ss0 c xs c' \<Longrightarrow> swept ss0 c (x # xs) c'"
  unfolding swept_def by (blast intro: list_emb_Cons)

lemma swept_one:
  assumes st: "try_catch (stop_service os dk (nat x) c)
      (\<lambda>e c1. (Ok (), log_err (''failed to stop service '' @ quoted (srv_name (srv c1 (nat x))) @ '': '' @ e) c1)) = (Ok u, c1)"
    and ch: "child_handler os dk fuel period x c1 = (Ok g, c2)"
    and sd: "same_or_dead ss0 (services c)" and x: "0 \<le> x" "nat x < length ss0" and p: "pid (srv c (nat x)) \<noteq> 0"
  shows "swept ss0 c [x] c2"
proof -
  have px: "pid (srv c (nat x)) = pid (ss0 ! nat x)" "pid (ss0 ! nat x) \<noteq> 0"
    using sd x(2) p by (auto simp: same_or_dead_def)
  note F1 = stop_or_log_frame [OF st]
  have sd1: "same_or_dead ss0 (services c1)" using F1 sd by simp
  note F2 = child_handler_frame [OF ch sd1]
  have "signals c2 = signals c \<or> signals c2 = signals c @ [Signalled (pid (ss0 ! nat x)) SIGTERM]"
    using F1 F2 px(1) by simp
  then have "\<exists>ys. signals c2 = signals c @ map (\<lambda>x. Signalled (pid (ss0 ! nat x)) SIGTERM) ys
        \<and> subseq ys [x] \<and> (\<forall>x\<in>set ys. 0 \<le> x \<and> pid (ss0 ! nat x) \<noteq> 0)"
  proof
    assume "signals c2 = signals c"
    then show ?thesis by (intro exI [of _ "[]"]) simp
  next
    assume "signals c2 = signals c @ [Signalled (pid (ss0 ! nat x)) SIGTERM]"
    then show ?thesis using px(2) x(1) by (intro exI [of _ "[x]"]) simp
  qed
  then show ?thesis using F1 F2 by (simp add: swept_def)
qed

lemma stop_all_frame:
  assumes "stop_all os dk fuel xs c = (Ok b, c')" and "same_or_dead ss0 (services c)"
    and "\<forall>x\<in>set xs. x < 0 \<or> nat x < length ss0"
  shows "swept ss0 c xs c' \<and> (b \<longrightarrow> all_reaped os c')"
  using assms
proof (induction xs arbitrary: c)
  case Nil
  then show ?case by (auto simp: swept_refl)
next
  case (Cons x xs)
  have rg: "\<forall>x\<in>set xs. x < 0 \<or> nat x < length ss0" using Cons.prems(3) by simp
  show ?case
  proof (cases "x < 0 \<or> is_service_group (srv c (nat x)) \<or> pid (srv c (nat x)) = 0")
    case True
    then have "stop_all os dk fuel xs c = (Ok b, c')" using Cons.prems(1) by (auto split: if_splits)
    then show ?thesis using Cons.IH [OF _ Cons.prems(2) rg] swept_Cons by blast
  next
    case False
    then obtain u c1 where st: "try_catch (stop_service os dk (nat x) c)
      (\<lambda>e c1. (Ok (), log_err (''failed to stop service '' @ quoted (srv_name (srv c1 (nat x))) @ '': '' @ e) c1)) = (Ok u, c1)"
      and r1: "bind_st (child_handler os dk fuel 250 x c1) (\<lambda>all_gone c2.
             if all_gone then (Ok True, c2) else stop_all os dk fuel xs c2) = (Ok b, c')"
      using Cons.prems(1) unfolding stop_all.simps(2) by (auto simp: bind_st_Ok simp del: try_catch.simps)
    from r1 obtain g c2 where ch: "child_handler os dk fuel 250 x c1 = (Ok g, c2)"
      and r2: "(if g then (Ok True, c2) else stop_all os dk fuel xs c2) = (Ok b, c')"
      unfolding bind_st_Ok by blast
    have sw: "swept ss0 c [x] c2"
      using swept_one [OF st ch Cons.prems(2)] False Cons.prems(3) by simp
    show ?thesis
    proof (cases g)
      case True
      then have c': "c' = c2" "b" using r2 by auto
      have "same_or_dead ss0 (services c2)" using sw by (simp add: swept_def)
      then have "swept ss0 c ([x] @ xs) c2"
        using swept_append [OF sw swept_refl] by blast
      then show ?thesis using c' child_handler_reaped [OF ch True] by simp
    next
      case False
      then have "swept ss0 c2 xs c' \<and> (b \<longrightarrow> all_reaped os c')"
        using Cons.IH [of c2] r2 sw rg by (simp add: swept_def)
      then show ?thesis using swept_append [OF sw, of xs c'] by simp
    qed
  qed
qed

lemma broadcast_frame:
  assumes "same_or_dead ss0 (services c)"
  shows "same_or_dead ss0 (services (kill os (- 1) sig (log m c)))
    \<and> signals (kill os (- 1) sig (log m c)) = signals c @ [Signalled (- 1) sig]
    \<and> ticks c \<le> ticks (kill os (- 1) sig (log m c))"
proof -
  have t: "same_core c (tick os (log m c))" by (rule same_core_trans [OF same_core_log(1) same_core_tick])
  with signals_core [OF t] assms show ?thesis by (simp add: kill_def say_def same_core_def signals_def)
qed

lemma cinit_shutdown_frame:
  assumes s: "cinit_shutdown os dk fuel c = (Ok u, c')" and od: "order_ok c" and len: "length (services c) = MAX_NUM_SERVICES"
  shows "all_reaped os c' \<and> (\<exists>ys bs. signals c' = signals c @ map (\<lambda>x. Signalled (pid (srv c (nat x))) SIGTERM) ys @ bs
      \<and> subseq ys (rev (start_order c)) \<and> (\<forall>x\<in>set ys. 0 \<le> x \<and> pid (srv c (nat x)) \<noteq> 0)
      \<and> (bs = [] \<or> bs = [Signalled (- 1) SIGTERM] \<or> bs = [Signalled (- 1) SIGTERM, Signalled (- 1) SIGKILL]))"
proof -
  let ?ss = "services c" and ?trm = "\<lambda>x. kill os (- 1) SIGTERM (log ''sending SIGTERM to all processes...'' x)"
    and ?kill = "\<lambda>x. kill os (- 1) SIGKILL (log ''sending SIGKILL to all processes...'' x)"
  have rg: "\<forall>x\<in>set (rev (start_order c)). x < 0 \<or> nat x < length ?ss"
    using od num_services_le [of c] by (fastforce simp: order_ok_def)
  obtain b1 c1 where s1: "stop_all os dk fuel (rev (start_order c)) c = (Ok b1, c1)"
    using s by (auto simp: cinit_shutdown_def bind_st_Ok)
  have F1: "same_or_dead ?ss (services c1)" "b1 \<longrightarrow> all_reaped os c1" "swept ?ss c (rev (start_order c)) c1"
    using stop_all_frame [OF s1 same_or_dead_refl rg] by (auto simp: swept_def)
  obtain ys where ys: "signals c1 = signals c @ map (\<lambda>x. Signalled (pid (srv c (nat x))) SIGTERM) ys"
    "subseq ys (rev (start_order c))" "\<forall>x\<in>set ys. 0 \<le> x \<and> pid (srv c (nat x)) \<noteq> 0"
    using F1(3) unfolding swept_def by blast
  have goal: ?thesis if "all_reaped os c'" "signals c' = signals c1 @ bs"
    "bs = [] \<or> bs = [Signalled (- 1) SIGTERM] \<or> bs = [Signalled (- 1) SIGTERM, Signalled (- 1) SIGKILL]" for bs
    using that ys by (intro conjI exI [of _ ys] exI [of _ bs]) auto
  show ?thesis
  proof (cases b1)
    case True
    then have "c' = c1" using s s1 by (simp add: cinit_shutdown_def)
    then show ?thesis using goal [of "[]"] F1 True by simp
  next
    case n1: False
    obtain b2 c2 where s2: "child_handler os dk fuel 0 (- 1) c1 = (Ok b2, c2)"
      using s s1 n1 by (auto simp: cinit_shutdown_def bind_st_Ok)
    have F2: "same_or_dead ?ss (services c2)" "signals c2 = signals c1"
      using child_handler_frame [OF s2] F1 by auto
    show ?thesis
    proof (cases b2)
      case True
      then have "c' = c2" using s s1 s2 n1 by (simp add: cinit_shutdown_def)
      then show ?thesis using goal [of "[]"] F2 child_handler_reaped [OF s2 True] by simp
    next
      case n2: False
      obtain b3 c3 where s3: "child_handler os dk fuel (sint (services_gracetime c2)) (- 1) (?trm c2) = (Ok b3, c3)"
        using s s1 s2 n1 n2 by (auto simp: cinit_shutdown_def bind_st_Ok)
      note B2 = broadcast_frame [OF F2(1), of os SIGTERM "''sending SIGTERM to all processes...''"]
      have F3: "same_or_dead ?ss (services c3)" "signals c3 = signals c1 @ [Signalled (- 1) SIGTERM]"
        using child_handler_frame [OF s3] B2 F2 by auto
      show ?thesis
      proof (cases b3)
        case True
        then have "c' = c3" using s s1 s2 s3 n1 n2 by (simp add: cinit_shutdown_def)
        then show ?thesis using goal [of "[Signalled (- 1) SIGTERM]"] F3 child_handler_reaped [OF s3 True] by simp
      next
        case n3: False
        obtain b4 where s4: "child_handler os dk fuel (- 1) (- 1) (?kill c3) = (Ok b4, c')"
          using s s1 s2 s3 n1 n2 n3 by (auto simp: cinit_shutdown_def ignore_def bind_st_Ok)
        have b4: b4 using child_handler_result [OF s4] by simp
        note B3 = broadcast_frame [OF F3(1), of os SIGKILL "''sending SIGKILL to all processes...''"]
        have "signals c' = signals c1 @ [Signalled (- 1) SIGTERM, Signalled (- 1) SIGKILL]"
          using child_handler_frame [OF s4] B3 F3 by auto
        then show ?thesis using goal child_handler_reaped [OF s4 b4] by blast
      qed
    qed
  qed
qed

section \<open>The shutdown ends\<close>

lemma child_handler_settles:
  assumes "childless_from os T" and "T - ticks c + 1 < fuel"
  shows "settles (child_handler os dk fuel period service c) (\<lambda>b c'. ticks c \<le> ticks c')"
proof (rule settlesI)
  show "fst (child_handler os dk fuel period service c) \<noteq> Halt NoFuel" by (rule child_handler_returns [OF assms])
qed (use child_handler_frame [OF _ same_or_dead_refl] in blast)

lemma stop_service_no_fuel [no_fuel]: "fst (stop_service os dk sid c) \<noteq> Halt NoFuel"
  by (auto simp: stop_service_def ignore_def no_fuel Let_def)

lemma stop_or_log_settles:
  "settles (try_catch (stop_service os dk sid c)
      (\<lambda>e c1. (Ok (), log_err (''failed to stop service '' @ quoted (srv_name (srv c1 sid)) @ '': '' @ e) c1)))
    (\<lambda>_ c'. ticks c \<le> ticks c')"
proof (rule settlesI)
  show "fst (try_catch (stop_service os dk sid c)
      (\<lambda>e c1. (Ok (), log_err (''failed to stop service '' @ quoted (srv_name (srv c1 sid)) @ '': '' @ e) c1))) \<noteq> Halt NoFuel"
    using stop_service_no_fuel [of os dk sid c] by (cases "stop_service os dk sid c"; cases "fst (stop_service os dk sid c)") auto
qed (use stop_or_log_frame in blast)

lemma stop_all_settles:
  assumes "childless_from os T" and "T - ticks c + 1 < fuel"
  shows "settles (stop_all os dk fuel xs c) (\<lambda>b c'. ticks c \<le> ticks c')"
  using assms(2)
proof (induction xs arbitrary: c)
  case (Cons x xs)
  have fuel: "T - ticks d + 1 < fuel" if "ticks c \<le> ticks d" for d using Cons.prems that by simp
  have IH: "settles (stop_all os dk fuel xs d) (\<lambda>b c'. ticks c \<le> ticks c')" if "ticks c \<le> ticks d" for d
    using settles_mono [OF Cons.IH [OF fuel [OF that]]] that by (meson le_trans)
  have step: "settles (child_handler os dk fuel 250 x d) (\<lambda>all_gone c2.
       settles (if all_gone then (Ok True, c2) else stop_all os dk fuel xs c2) (\<lambda>b c'. ticks c \<le> ticks c'))"
    if "ticks c \<le> ticks d" for d
    by (rule settles_mono [OF child_handler_settles [OF assms(1) fuel [OF that]]]) (use IH that in auto)
  show ?case
  proof (cases "x < 0 \<or> is_service_group (srv c (nat x)) \<or> pid (srv c (nat x)) = 0")
    case True
    then show ?thesis using IH [of c] by auto
  next
    case False
    have "settles (bind_st (try_catch (stop_service os dk (nat x) c)
      (\<lambda>e c1. (Ok (), log_err (''failed to stop service '' @ quoted (srv_name (srv c1 (nat x))) @ '': '' @ e) c1)))
      (\<lambda>_ c1. bind_st (child_handler os dk fuel 250 x c1) (\<lambda>all_gone c2.
             if all_gone then (Ok True, c2) else stop_all os dk fuel xs c2))) (\<lambda>b c'. ticks c \<le> ticks c')"
      unfolding settles_bind by (rule settles_mono [OF stop_or_log_settles], rule step)
    then show ?thesis using False unfolding stop_all.simps(2) by (simp del: try_catch.simps bind_st.simps)
  qed
qed simp

lemma cinit_shutdown_settles:
  assumes "childless_from os T" and "T - ticks c + 1 < fuel"
  shows "settles (cinit_shutdown os dk fuel c) (\<lambda>_ c'. True)"
proof -
  let ?trm = "\<lambda>x. kill os (- 1) SIGTERM (log ''sending SIGTERM to all processes...'' x)"
    and ?kill = "\<lambda>x. kill os (- 1) SIGKILL (log ''sending SIGKILL to all processes...'' x)"
  have ch: "settles (child_handler os dk fuel p s x) (\<lambda>b y. ticks c \<le> ticks y)" if "ticks c \<le> ticks x" for p s x
  proof (rule settles_mono [OF child_handler_settles [OF assms(1)]])
    show "T - ticks x + 1 < fuel" using assms(2) that by simp
  qed (use that in simp)
  have bc: "ticks c \<le> ticks (kill os (- 1) sig (log m x))" if "ticks c \<le> ticks x" for sig m x
    using broadcast_frame [OF same_or_dead_refl] that le_trans by blast
  show ?thesis
  proof (simp only: cinit_shutdown_def settles_bind settles_if ignore_def settles_simps simp_thms,
      intro settles_mono [OF stop_all_settles [OF assms]] conjI impI TrueI)
    fix c1 :: cinit assume 1: "ticks c \<le> ticks c1"
    show "settles (child_handler os dk fuel 0 (- 1) c1) (\<lambda>b c2. \<not> b \<longrightarrow>
      settles (child_handler os dk fuel (sint (services_gracetime c2)) (- 1) (?trm c2)) (\<lambda>b c3. \<not> b \<longrightarrow>
        settles (child_handler os dk fuel (- 1) (- 1) (?kill c3)) (\<lambda>_ _. True)))"
    proof (intro settles_mono [OF ch [OF 1]] impI)
      fix c2 :: cinit assume 2: "ticks c \<le> ticks c2"
      show "settles (child_handler os dk fuel (sint (services_gracetime c2)) (- 1) (?trm c2)) (\<lambda>b c3. \<not> b \<longrightarrow>
        settles (child_handler os dk fuel (- 1) (- 1) (?kill c3)) (\<lambda>_ _. True))"
        by (intro settles_mono [OF ch [OF bc [OF 2]]] impI settles_mono [OF ch [OF bc]] TrueI)
    qed
  qed
qed

section \<open>Properties\<close>



text \<open>
  C21. The shutdown ends: once no child is left from some call on, \<open>cinit_shutdown\<close> returns.
\<close>

theorem shutdown_ends:
  assumes "childless_from os T" and "T - ticks c + 1 < fuel"
  shows "fst (cinit_shutdown os dk fuel c) \<noteq> Halt NoFuel"
  using cinit_shutdown_settles [OF assms] by (simp add: settles_def)

theorem shutdown_ends_witness: "fst (cinit_shutdown sample_deaths sample_disk 11 two_services) \<noteq> Halt NoFuel"
  by (rule shutdown_ends [OF sample_deaths_childless]) (simp add: two_services_def g_ctx_def)

end
