(* ===== verification/LoadDeps.thy ===== *)
theory LoadDeps
  imports Fuel
begin

text \<open>
  \<open>load_service_with_deps\<close> of \<open>src/src/cinit/cinit.c\<close>: loading a service and, through the
  \<open>.dep\<close> entries of its directory, everything it depends on, while the start order is built.
\<close>

section \<open>Model\<close>

text \<open>
  \<open>bool depends\<close> is not initialised, and \<open>load_value_as_bool\<close> does not write it when the entry is
  not there: what it holds then is a parameter, of the state and the entry. (The entry can be
  missing because loading a dependency changes the working directory.)
\<close>

type_synonym leftover = "cinit \<Rightarrow> string \<Rightarrow> bool"

fun rethrow :: "(string \<Rightarrow> string) \<Rightarrow> 'a res \<times> 's \<Rightarrow> 'a res \<times> 's" where
  "rethrow f (Ok x, s) = (Ok x, s)"
| "rethrow f (Exn e, s) = (throw_message (f e), s)"
| "rethrow f (Halt h, s) = (Halt h, s)"

definition could_not_load_service :: "string \<Rightarrow> string \<Rightarrow> string" where
  "could_not_load_service service why = ''could not load service '' @ quoted service @ '': '' @ why"

text \<open>The entries that name a dependency: regular files ending in \<open>.dep\<close>.\<close>

definition is_dep_entry :: "string \<times> bool \<Rightarrow> bool" where
  "is_dep_entry e \<longleftrightarrow> fst e \<noteq> ''.'' \<and> fst e \<noteq> ''..'' \<and> snd e \<and> ends_with (fst e) ''.dep''"

text \<open>
  The two functions are the body of \<open>load_service_with_deps\<close> and the loop over \<open>readdir\<close> in
  it. Each call is recorded with its arguments.
\<close>

function (sequential) load_service_with_deps ::
    "load_env \<Rightarrow> disk \<Rightarrow> leftover \<Rightarrow> nat \<Rightarrow> string \<Rightarrow> int \<Rightarrow> cinit \<Rightarrow> unit res \<times> cinit"
  and load_dependencies ::
    "load_env \<Rightarrow> disk \<Rightarrow> leftover \<Rightarrow> nat \<Rightarrow> nat \<Rightarrow> (string \<times> bool) list \<Rightarrow> cinit \<Rightarrow> unit res \<times> cinit" where
  "load_service_with_deps env dk lo 0 service dependent c = (Halt NoFuel, c)"
| "load_service_with_deps env dk lo (Suc fuel) service dependent c =
     (let c0 = say (LoadRequest service dependent) c in
      case find_service service c0 of
        Halt h \<Rightarrow> (Halt h, c0)
      | Exn e \<Rightarrow> (Exn e, c0)
      | Ok (Some sid) \<Rightarrow> (Ok (), c0)
      | Ok None \<Rightarrow>
          bind_st (rethrow (could_not_load_service service)
                    (load_service env dk service (log (''loading service '' @ quoted service @ ''...'') c0)))
            (\<lambda>sid c1.
              if disabled (srv c1 sid) then (Ok (), log (''service '' @ quoted service @ '' is disabled.'') c1)
              else
                (let c2 = add_to_start_order (int sid) dependent c1 in
                 case dk_entries dk (cwd c2) of
                   Inl err \<Rightarrow> (throw_message_errno (could_not_load_service service
                                ''could not open stream for service directory'') err, c2)
                 | Inr es \<Rightarrow> load_dependencies env dk lo fuel sid es c2)))"
| "load_dependencies env dk lo fuel sid [] c = (Ok (), c)"
| "load_dependencies env dk lo fuel sid (e # es) c =
     (if \<not> is_dep_entry e then load_dependencies env dk lo fuel sid es c
      else
        (case load_value_as_bool env (dk_settings dk (cwd c)) (fst e) of
           Halt h \<Rightarrow> (Halt h, c)
         | Exn x \<Rightarrow> (Exn x, c)
         | Ok r \<Rightarrow>
             (if \<not> (case r of Some depends \<Rightarrow> depends | None \<Rightarrow> lo c (fst e))
              then load_dependencies env dk lo fuel sid es c
              else bind_st (load_service_with_deps env dk lo fuel (cut_at_last_dot (fst e)) (int sid) c)
                     (\<lambda>_ c1. load_dependencies env dk lo fuel sid es c1))))"
  by pat_completeness auto
termination by lexicographic_order

declare load_service_with_deps.simps [simp del] load_dependencies.simps [simp del]

section \<open>What loading changes\<close>

text \<open>
  Only the working directory, the table, the start order and the actions change; the entries
  already there stay, and each new entry is one that \<open>load_service\<close> makes.
\<close>

definition load_frame :: "cinit \<Rightarrow> cinit \<Rightarrow> bool" where
  "load_frame c c' \<longleftrightarrow>
     c' = c\<lparr>cwd := cwd c', services := services c', start_order := start_order c', actions := actions c'\<rparr>
     \<and> quiet_actions c c'"

definition loads :: "cinit \<Rightarrow> cinit \<Rightarrow> bool" where
  "loads c c' \<longleftrightarrow> load_frame c c'
     \<and> table_ok c' \<and> num_services c \<le> num_services c' \<and> (\<forall>j < num_services c. srv c' j = srv c j)
     \<and> (\<forall>j. num_services c \<le> j \<and> j < num_services c' \<longrightarrow> loaded_ok c (srv_name (srv c' j)) (srv c' j))"

lemma loaded_ok_frame:
  "loaded_ok (c\<lparr>cwd := w, services := ss, start_order := od, actions := as\<rparr>) n s = loaded_ok c n s"
  unfolding loaded_ok_def program_ok_def by simp

lemma loaded_ok_name: "loaded_ok c n s \<Longrightarrow> srv_name s = n"
  by (simp add: loaded_ok_def)

lemma load_frame_loaded_ok: "load_frame c c' \<Longrightarrow> loaded_ok c' n s = loaded_ok c n s"
  unfolding load_frame_def by (metis loaded_ok_frame)

lemma load_frame_trans: "load_frame a b \<Longrightarrow> load_frame b c \<Longrightarrow> load_frame a c"
proof -
  assume a: "load_frame a b" and b: "load_frame b c"
  from a obtain w ss od as where b': "b = a\<lparr>cwd := w, services := ss, start_order := od, actions := as\<rparr>"
    unfolding load_frame_def by blast
  from b obtain w' ss' od' as' where c': "c = b\<lparr>cwd := w', services := ss', start_order := od', actions := as'\<rparr>"
    unfolding load_frame_def by blast
  have "quiet_actions a c"
    using a b unfolding load_frame_def by (meson quiet_actions_trans)
  then show ?thesis unfolding load_frame_def by (simp add: c' b')
qed

lemma loads_same:
  assumes "table_ok c" and "load_frame c c'" and "services c' = services c" shows "loads c c'"
proof -
  have "num_services c' = num_services c" "table_ok c' = table_ok c"
    using assms(3) by (simp_all add: num_services_def table_ok_def)
  with assms show ?thesis by (auto simp: loads_def)
qed

lemma loads_refl: "table_ok c \<Longrightarrow> loads c c"
  by (rule loads_same) (simp_all add: load_frame_def)

lemma loads_trans:
  assumes a: "loads a b" and b: "loads b c" shows "loads a c"
proof -
  have l: "loaded_ok b n s = loaded_ok a n s" for n s
    using a load_frame_loaded_ok unfolding loads_def by blast
  have s: "srv c j = srv b j" if "j < num_services b" for j
    using b that by (simp add: loads_def)
  have n: "num_services a \<le> num_services b" "num_services b \<le> num_services c"
    using a b by (simp_all add: loads_def)
  have new: "loaded_ok a (srv_name (srv c j)) (srv c j)" if "num_services a \<le> j" "j < num_services c" for j
  proof (cases "j < num_services b")
    case True
    then show ?thesis using that a s by (simp add: loads_def)
  next
    case False
    then have "loaded_ok b (srv_name (srv c j)) (srv c j)" using that b by (simp add: loads_def)
    then show ?thesis by (simp add: l)
  qed
  have old: "srv c j = srv a j" if "j < num_services a" for j
    using that n s a by (simp add: loads_def)
  have "load_frame a c" using a b load_frame_trans unfolding loads_def by blast
  with new old n b show ?thesis by (simp add: loads_def)
qed

lemma table_ok_say [simp]: "table_ok (say a c) = table_ok c" "num_services (say a c) = num_services c"
  by (simp_all add: say_def)

lemma services_say [simp]: "services (say a c) = services c" "start_order (say a c) = start_order c"
    "actions (say a c) = actions c @ [a]"
  by (simp_all add: say_def)

lemma log_say: "log m c = say (Stdout (log_prefix (log_prefix_length c) (progname c) @ m @ [LF])) c"
  by (simp add: log_def)

lemma loads_say: "table_ok c \<Longrightarrow> \<not> loud a \<Longrightarrow> loads c (say a c)"
  by (rule loads_same) (simp_all add: say_def load_frame_def quiet_actions_def)

lemma loads_log: "table_ok c \<Longrightarrow> loads c (log m c)"
  unfolding log_say by (rule loads_say) simp_all

lemma loads_start_order: "table_ok c \<Longrightarrow> loads c (add_to_start_order s b c)"
  by (rule loads_same) (simp_all add: add_to_start_order_def load_frame_def quiet_actions_def)

lemma load_service_frame:
  assumes "load_service env dk name c = (r, c')" shows "\<exists>w ss. c' = c\<lparr>cwd := w, services := ss\<rparr>"
proof -
  obtain r1 c1 where ch: "chdir_to_service dk name c = (r1, c1)" by fastforce
  then obtain w where c1: "c1 = c\<lparr>cwd := w\<rparr>" using chdir_to_service_frame by blast
  have k: "\<exists>w ss. c = c\<lparr>cwd := w, services := ss\<rparr>"
    by (intro exI [of _ "cwd c"] exI [of _ "services c"]) simp
  have k1: "\<exists>w ss. c1 = c\<lparr>cwd := w, services := ss\<rparr>"
    by (intro exI [of _ w] exI [of _ "services c"]) (simp add: c1)
  have u: "\<exists>w ss. upd_srv sid f c1 = c\<lparr>cwd := w, services := ss\<rparr>" for sid f
    by (intro exI [of _ w] exI [of _ "(services c1)[sid := f (srv c1 sid)]"]) (simp add: upd_srv_def c1)
  show ?thesis
    using assms k k1 u
    by (cases r1) (auto simp: load_service_def ch unload_service_def split: res.splits option.splits if_splits)
qed

lemma loads_load_service:
  assumes "table_ok c" and "name \<noteq> []" and "load_service env dk name c = (r, c')" and "\<forall>h. r \<noteq> Halt h"
  shows "loads c c'"
proof -
  obtain w ss where c': "c' = c\<lparr>cwd := w, services := ss\<rparr>" using load_service_frame [OF assms(3)] by blast
  have f: "load_frame c c'" by (simp add: load_frame_def quiet_actions_def c')
  note t = load_service_table [OF assms(1,2,3)]
  show ?thesis
  proof (cases r)
    case (Ok sid)
    consider "c' = c" | "sid = num_services c" "table_ok c'" "num_services c' = Suc (num_services c)"
      "\<forall>j < num_services c. srv c' j = srv c j" "loaded_ok c name (srv c' sid)"
      using t Ok by auto
    then show ?thesis
    proof cases
      case 1
      with loads_refl [OF assms(1)] show ?thesis by simp
    next
      case 2
      have "srv_name (srv c' sid) = name" using 2(5) by (simp add: loaded_ok_def)
      with 2 f show ?thesis by (auto simp: loads_def less_Suc_eq)
    qed
  next
    case (Exn e)
    with t have "services c' = services c" by simp
    with f assms(1) show ?thesis by (intro loads_same)
  next
    case (Halt h)
    with assms(4) show ?thesis by simp
  qed
qed


section \<open>Requests and the start order\<close>

definition requests :: "cinit \<Rightarrow> (string \<times> int) list" where
  "requests c = List.map_filter (\<lambda>a. case a of LoadRequest n d \<Rightarrow> Some (n, d) | _ \<Rightarrow> None) (actions c)"

lemma requests_say [simp]:
  "requests (say (LoadRequest n d) c) = requests c @ [(n, d)]" "requests (say (Stdout m) c) = requests c"
  by (simp_all add: requests_def map_filter_def)

lemma requests_log [simp]: "requests (log m c) = requests c"
  by (simp add: log_say)

lemma requests_actions: "actions c' = actions c \<Longrightarrow> requests c' = requests c"
  by (simp add: requests_def)

lemma insert_order_props:
  "i < length od \<Longrightarrow> length (insert_order i x od) = length od \<and> set (insert_order i x od) \<subseteq> insert x (set od)"
proof -
  assume i: "i < length od"
  have "set (butlast (drop i od)) \<subseteq> set od"
    by (meson in_set_butlastD in_set_dropD subsetI)
  moreover have "set (take i od) \<subseteq> set od" by (rule set_take_subset)
  ultimately show ?thesis using i by (auto simp: insert_order_def)
qed

lemma add_to_start_order_from_props:
  "length (add_to_start_order_from i x b od) = length od
   \<and> set (add_to_start_order_from i x b od) \<subseteq> insert x (set od)"
proof (induction i x b od rule: add_to_start_order_from.induct)
  case (1 i x b od)
  then show ?case
    using insert_order_props [of i od x] set_update_subset_insert [of od i x]
    by (subst (1 2) add_to_start_order_from.simps) auto
qed

lemma order_ok_add:
  assumes "order_ok c" and "num_services c \<le> num_services c'" and "sid < num_services c'"
    and "start_order c' = add_to_start_order_from 0 (int sid) b (start_order c)"
  shows "order_ok c'"
  using assms add_to_start_order_from_props [of 0 "int sid" b "start_order c"]
  unfolding order_ok_def by fastforce

text \<open>
  A call of \<open>load_service_with_deps\<close> by cases: it ended the process; the service was known; the call failed; the service
  was added and is disabled; or it was added and put in the start order, and its
  dependencies follow.
\<close>

lemma load_service_with_deps_cases:
  assumes call: "load_service_with_deps env dk lo (Suc fuel) service dependent c = (r, c')"
    and ok: "table_ok c"
  obtains
    (halted) h where "r = Halt h" "h \<noteq> NoFuel"
  | (known) sid where "sid < num_services c" "srv_name (srv c sid) = service" "r = Ok ()"
      "c' = say (LoadRequest service dependent) c"
  | (failed) e where "r = Exn e" "loads c c'" "order_ok c \<longrightarrow> order_ok c'"
  | (disabled) sid where "r = Ok ()" "loads c c'" "sid = num_services c"
      "num_services c' = Suc (num_services c)" "srv_name (srv c' sid) = service" "disabled (srv c' sid)"
      "start_order c' = start_order c" "requests c' = requests c @ [(service, dependent)]"
  | (enabled) c2 sid es where "loads c c2" "sid = num_services c"
      "num_services c2 = Suc (num_services c)" "srv_name (srv c2 sid) = service" "\<not> disabled (srv c2 sid)"
      "start_order c2 = add_to_start_order_from 0 (int sid) dependent (start_order c)"
      "requests c2 = requests c @ [(service, dependent)]"
      "load_dependencies env dk lo fuel sid es c2 = (r, c')"
proof -
  let ?c0 = "say (LoadRequest service dependent) c"
  define c1 where "c1 = log (''loading service '' @ quoted service @ ''...'') ?c0"
  have ok1: "table_ok c1" using ok by (simp add: c1_def log_say)
  have l1: "loads c c1"
    unfolding c1_def by (rule loads_trans [OF loads_say [OF ok] loads_log]) (simp_all add: ok)
  have n1: "num_services c1 = num_services c" "services c1 = services c" "start_order c1 = start_order c"
      "requests c1 = requests c @ [(service, dependent)]"
    by (simp_all add: c1_def log_say)
  show ?thesis
  proof (cases "service = []")
    case True
    then have "r = Halt (AssertFailed ''service != NULL && service[0] != 0'')"
      using call by (simp add: load_service_with_deps.simps find_service_def Let_def)
    then show ?thesis using halted by blast
  next
    case False
    show ?thesis
    proof (cases "find_index (\<lambda>s. srv_name s = service) ?c0")
      case (Some sid)
      then have "sid < num_services c \<and> srv_name (srv c sid) = service"
        using find_index_Some [OF Some] by simp
      moreover have "(r, c') = (Ok (), ?c0)"
        using call Some False by (simp add: load_service_with_deps.simps find_service_def Let_def)
      ultimately show ?thesis using known by blast
    next
      case None
      obtain r2 c2 where ls: "load_service env dk service c1 = (r2, c2)" by fastforce
      note eq = call [unfolded load_service_with_deps.simps Let_def find_service_def, folded c1_def, simplified False None ls, simplified]
      show ?thesis
      proof (cases r2)
        case (Halt h)
        with eq have "r = Halt h" by auto
        moreover have "h \<noteq> NoFuel" using ls Halt load_service_no_fuel by (metis fst_conv)
        ultimately show ?thesis using halted by blast
      next
        case (Exn e)
        have l2: "loads c1 c2" using loads_load_service [OF ok1 False ls] Exn by simp
        have "start_order c2 = start_order c1" using load_service_table [OF ok1 False ls] Exn by simp
        moreover have "num_services c \<le> num_services c2" using l2 n1 by (simp add: loads_def)
        ultimately have oo: "order_ok c \<longrightarrow> order_ok c2" by (auto simp: order_ok_def n1)
        have c': "c' = c2" "r = throw_message (could_not_load_service service e)" using eq Exn by auto
        then have "(\<exists>e. r = Exn e) \<or> (\<exists>h. r = Halt h \<and> h \<noteq> NoFuel)"
          by (cases r) (auto simp: throw_message_def split: if_splits)
        with failed halted c' oo loads_trans [OF l1 l2] show ?thesis by metis
      next
        case (Ok sid)
        have l2: "loads c1 c2" using loads_load_service [OF ok1 False ls] Ok by simp
        have nf: "\<not> (sid < num_services c \<and> srv_name (srv c sid) = service)"
          using None by (auto simp: find_index_None)
        have t: "sid = num_services c \<and> num_services c2 = Suc (num_services c)
            \<and> loaded_ok c1 service (srv c2 sid) \<and> start_order c2 = start_order c \<and> actions c2 = actions c1"
          using load_service_table [OF ok1 False ls] Ok nf by (auto simp: n1)
        then have nm: "srv_name (srv c2 sid) = service" using loaded_ok_name by blast
        have rq: "requests c2 = requests c @ [(service, dependent)]"
          using t requests_actions [of c2 c1] n1 by simp
        have ok2: "table_ok c2" using l2 by (simp add: loads_def)
        show ?thesis
        proof (cases "service.disabled (srv c2 sid)")
          case True
          let ?c3 = "log (''service '' @ quoted service @ '' is disabled.'') c2"
          have c': "r = Ok ()" "c' = ?c3" using eq Ok True by auto
          have l3: "loads c ?c3" by (rule loads_trans [OF loads_trans [OF l1 l2] loads_log [OF ok2]])
          have "num_services ?c3 = num_services c2" "services ?c3 = services c2" "start_order ?c3 = start_order c2"
            by (simp_all add: log_say)
          then show ?thesis using disabled [of sid] c' l3 t nm True rq by simp
        next
          case False
          let ?c3 = "add_to_start_order (int sid) dependent c2"
          have l3: "loads c ?c3" by (rule loads_trans [OF loads_trans [OF l1 l2] loads_start_order [OF ok2]])
          have s3: "num_services ?c3 = num_services c2" "services ?c3 = services c2" "actions ?c3 = actions c2"
            "start_order ?c3 = add_to_start_order_from 0 (int sid) dependent (start_order c)" "cwd ?c3 = cwd c2"
            using t by (simp_all add: add_to_start_order_def num_services_def)
          show ?thesis
          proof (cases "dk_entries dk (cwd c2)")
            case (Inl err)
            have c': "c' = ?c3" and "r = throw_message_errno (could_not_load_service service
                ''could not open stream for service directory'') err"
              using eq Ok False Inl by (auto simp: s3)
            then have exn: "(\<exists>e. r = Exn e) \<or> (\<exists>h. r = Halt h \<and> h \<noteq> NoFuel)"
              by (cases r) (auto simp: throw_message_errno_def split: if_splits)
            have "num_services c \<le> num_services ?c3" "sid < num_services ?c3" using t s3 by simp_all
            then have "order_ok c \<longrightarrow> order_ok ?c3"
              using order_ok_add [of c ?c3 sid dependent] s3(4) by blast
            with \<open>order_ok c \<longrightarrow> order_ok ?c3\<close> exn failed halted c' l3 show ?thesis by metis
          next
            case (Inr es)
            have ld: "load_dependencies env dk lo fuel sid es ?c3 = (r, c')"
              using eq Ok False Inr by (simp add: s3)
            show ?thesis
              by (rule enabled [of ?c3 sid es])
                (use l3 t s3 nm False rq ld requests_actions [of ?c3 c2] in simp_all)
          qed
        qed
      qed
    qed
  qed
qed

lemma load_dependencies_cases:
  assumes "load_dependencies env dk lo fuel sid (e # es) c = (r, c')"
  obtains
    (skip) "load_dependencies env dk lo fuel sid es c = (r, c')"
  | (stop) "c' = c" "r \<noteq> Ok ()" "\<forall>h. r \<noteq> Halt h \<or> load_value_as_bool env (dk_settings dk (cwd c)) (fst e) = Halt h"
  | (request) r1 c1 where
      "load_service_with_deps env dk lo fuel (cut_at_last_dot (fst e)) (int sid) c = (r1, c1)"
      "r1 = Ok () \<and> load_dependencies env dk lo fuel sid es c1 = (r, c') \<or> r1 \<noteq> Ok () \<and> c' = c1 \<and> r = r1"
proof -
  obtain r1 c1 where l: "load_service_with_deps env dk lo fuel (cut_at_last_dot (fst e)) (int sid) c = (r1, c1)"
    by fastforce
  have "load_dependencies env dk lo fuel sid es c = (r, c')
    \<or> c' = c \<and> r \<noteq> Ok () \<and> (\<forall>h. r \<noteq> Halt h \<or> load_value_as_bool env (dk_settings dk (cwd c)) (fst e) = Halt h)
    \<or> (r1 = Ok () \<and> load_dependencies env dk lo fuel sid es c1 = (r, c') \<or> r1 \<noteq> Ok () \<and> c' = c1 \<and> r = r1)"
    using assms
    by (cases r1) (auto simp: load_dependencies.simps l split: if_splits res.splits)
  with skip stop request [OF l] show ?thesis by blast
qed

lemma load_dependencies_loads:
  assumes call: "\<And>service dep c r c'. load_service_with_deps env dk lo fuel service dep c = (r, c') \<Longrightarrow>
      table_ok c \<Longrightarrow> \<forall>h. r \<noteq> Halt h \<Longrightarrow> loads c c' \<and> (order_ok c \<longrightarrow> order_ok c')"
    and "load_dependencies env dk lo fuel sid es c = (r, c')" "table_ok c" "\<forall>h. r \<noteq> Halt h"
  shows "loads c c' \<and> (order_ok c \<longrightarrow> order_ok c')"
  using assms(2-)
proof (induction es arbitrary: c)
  case Nil
  then show ?case by (simp add: load_dependencies.simps loads_refl)
next
  case (Cons e es)
  from Cons.prems(1) show ?case
  proof (cases rule: load_dependencies_cases)
    case skip
    with Cons show ?thesis by blast
  next
    case stop
    with Cons.prems show ?thesis by (simp add: loads_refl)
  next
    case (request r1 c1)
    then have 1: "loads c c1 \<and> (order_ok c \<longrightarrow> order_ok c1)" using call Cons.prems by blast
    from request(2) show ?thesis
    proof
      assume a: "r1 = Ok () \<and> load_dependencies env dk lo fuel sid es c1 = (r, c')"
      have "table_ok c1" using 1 by (simp add: loads_def)
      with a Cons 1 loads_trans show ?thesis by blast
    next
      assume "r1 \<noteq> Ok () \<and> c' = c1 \<and> r = r1"
      with 1 show ?thesis by simp
    qed
  qed
qed

text \<open>Whatever happens short of a halt, the table stays in shape and the start order stays inside it.\<close>

lemma load_service_with_deps_loads:
  "load_service_with_deps env dk lo fuel service dep c = (r, c') \<Longrightarrow> table_ok c \<Longrightarrow> \<forall>h. r \<noteq> Halt h \<Longrightarrow>
   loads c c' \<and> (order_ok c \<longrightarrow> order_ok c')"
proof (induction fuel arbitrary: service dep c r c')
  case 0
  then show ?case by (auto simp: load_service_with_deps.simps)
next
  case (Suc fuel)
  from Suc.prems(1,2) show ?case
  proof (cases rule: load_service_with_deps_cases)
    case (halted h)
    with Suc.prems show ?thesis by simp
  next
    case (known sid)
    with Suc.prems loads_say show ?thesis by (simp add: order_ok_def)
  next
    case (failed e)
    then show ?thesis by simp
  next
    case (disabled sid)
    then show ?thesis by (auto simp: order_ok_def loads_def)
  next
    case (enabled c2 sid es)
    have 2: "order_ok c \<longrightarrow> order_ok c2"
      using order_ok_add [of c c2 sid dep] enabled by simp
    have "table_ok c2" using enabled(1) by (simp add: loads_def)
    then have "loads c2 c' \<and> (order_ok c2 \<longrightarrow> order_ok c')"
      by (intro load_dependencies_loads [OF _ enabled(8) _ Suc.prems(3)] Suc.IH)
    with 2 enabled(1) loads_trans show ?thesis by blast
  qed
qed

section \<open>Termination\<close>

text \<open>
  Each nested call adds a service, and the table has 64 entries: one unit of fuel for each
  free entry, and one more, are enough.
\<close>

lemma load_service_with_deps_returns:
  assumes "table_ok c" and "MAX_NUM_SERVICES - num_services c < fuel"
  shows "fst (load_service_with_deps env dk lo fuel service dep c) \<noteq> Halt NoFuel"
  using assms
proof (induction fuel arbitrary: service dep c)
  case 0
  then show ?case by simp
next
  case (Suc fuel)
  obtain r c' where r: "load_service_with_deps env dk lo (Suc fuel) service dep c = (r, c')" by fastforce
  have deps: "fst (load_dependencies env dk lo fuel sid es c2) \<noteq> Halt NoFuel"
    if "table_ok c2" "num_services c < num_services c2" for sid es c2
    using that
  proof (induction es arbitrary: c2)
    case Nil
    then show ?case by (simp add: load_dependencies.simps)
  next
    case (Cons e es)
    have "num_services c2 \<le> MAX_NUM_SERVICES"
      using Cons.prems(1) num_services_le [of c2] by (simp add: table_ok_def)
    then have f: "MAX_NUM_SERVICES - num_services c2 < fuel" using Cons.prems Suc.prems by linarith
    obtain r2 c3 where l: "load_dependencies env dk lo fuel sid (e # es) c2 = (r2, c3)" by fastforce
    from l show ?case
    proof (cases rule: load_dependencies_cases)
      case skip
      with Cons l show ?thesis by (metis fst_conv)
    next
      case stop
      with l no_fuel show ?thesis by (metis fst_conv)
    next
      case (request r1 c1)
      with Suc.IH [OF Cons.prems(1) f] have "r1 \<noteq> Halt NoFuel" by (metis fst_conv)
      moreover have "table_ok c1 \<and> num_services c < num_services c1" if "r1 = Ok ()"
        using load_service_with_deps_loads [OF request(1) Cons.prems(1)] that Cons.prems(2) by (auto simp: loads_def)
      ultimately show ?thesis using request(2) Cons.IH [of c1] l by auto
    qed
  qed
  from r Suc.prems(1) show ?case
  proof (cases rule: load_service_with_deps_cases)
    case (enabled c2 sid es)
    have "table_ok c2" "num_services c < num_services c2" using enabled(1,3) by (simp_all add: loads_def)
    from deps [OF this] enabled(8) r show ?thesis by (metis fst_conv)
  qed (use r in auto)
qed


section \<open>The start order is a dependency order\<close>

lemma add_to_start_order_from_at:
  assumes "\<forall>z\<in>set pre. z \<noteq> - 1 \<and> z \<noteq> b0" and "y = - 1 \<or> y = b0" and "i \<le> length pre"
  shows "add_to_start_order_from i x b0 (pre @ y # suf) =
    (if y = - 1 then pre @ x # suf else pre @ x # butlast (y # suf))"
  using assms(3)
proof (induction "length pre - i" arbitrary: i)
  case 0
  then have "i = length pre" by simp
  then show ?case
    using assms(2) by (subst add_to_start_order_from.simps) (auto simp: insert_order_def)
next
  case (Suc n)
  then have i: "i < length pre" by simp
  then have "(pre @ y # suf) ! i \<noteq> - 1" "(pre @ y # suf) ! i \<noteq> b0"
    using assms(1) by (auto simp: nth_append)
  moreover have "add_to_start_order_from (Suc i) x b0 (pre @ y # suf) =
    (if y = - 1 then pre @ x # suf else pre @ x # butlast (y # suf))"
    using Suc i by (intro Suc.hyps(1)) auto
  ultimately show ?case using i by (subst add_to_start_order_from.simps) simp
qed

definition order_table :: "nat list \<Rightarrow> int list" where
  "order_table od = map int od @ replicate (MAX_NUM_SERVICES - length od) (- 1)"

lemma order_table_add_last:
  assumes "length od < MAX_NUM_SERVICES"
  shows "add_to_start_order_from 0 (int x) (- 1) (order_table od) = order_table (od @ [x])"
proof -
  obtain k where k: "MAX_NUM_SERVICES - length od = Suc k" using assms by (metis Suc_diff_Suc)
  then have "add_to_start_order_from 0 (int x) (- 1) (order_table od) = map int od @ int x # replicate k (- 1)"
    unfolding order_table_def k replicate_Suc by (subst add_to_start_order_from_at) auto
  moreover have "MAX_NUM_SERVICES - length (od @ [x]) = k" using k by simp
  ultimately show ?thesis by (simp add: order_table_def)
qed

lemma order_table_add_before:
  assumes "length (F @ b # S) < MAX_NUM_SERVICES" and "b \<notin> set F"
  shows "add_to_start_order_from 0 (int x) (int b) (order_table (F @ b # S)) = order_table (F @ x # b # S)"
proof -
  obtain k where k: "MAX_NUM_SERVICES - length (F @ b # S) = Suc k" using assms by (metis Suc_diff_Suc)
  have t: "order_table (F @ b # S) = map int F @ int b # (map int S @ replicate (Suc k) (- 1))"
    by (simp only: order_table_def k map_append list.map append.assoc append.simps)
  have bl: "butlast (int b # map int S @ replicate (Suc k) (- 1)) = int b # map int S @ replicate k (- 1)"
    by (simp add: butlast_append butlast_conv_take del: replicate.simps)
  have "add_to_start_order_from 0 (int x) (int b) (order_table (F @ b # S))
      = map int F @ int x # int b # map int S @ replicate k (- 1)"
    unfolding t using assms(2) bl by (subst add_to_start_order_from_at) auto
  moreover have "MAX_NUM_SERVICES - length (F @ x # b # S) = k" using k by simp
  ultimately show ?thesis by (simp add: order_table_def)
qed

text \<open>
  \<open>depends_on c\<close> relates a service to the services it requested. \<open>settled\<close>: the service
  \<open>n\<close> requested by \<open>s\<close> is loaded, and it is disabled, or comes before \<open>s\<close>, or depends on
  \<open>s\<close> itself.
\<close>

definition depends_on :: "cinit \<Rightarrow> (nat \<times> nat) set" where
  "depends_on c = {(s, d). d < num_services c \<and> (srv_name (srv c d), int s) \<in> set (requests c)}"

definition settled :: "cinit \<Rightarrow> nat list \<Rightarrow> string \<Rightarrow> nat \<Rightarrow> bool" where
  "settled c od n s \<longleftrightarrow> (\<exists>d < num_services c. srv_name (srv c d) = n
     \<and> (disabled (srv c d) \<or> subseq [d, s] od \<or> (d, s) \<in> (depends_on c)\<^sup>*))"

text \<open>
  The invariant of the recursion. \<open>S\<close> holds the services being loaded, the innermost first;
  \<open>F\<close> those that are done. Each service on the stack was requested by the next one.
\<close>

fun linked :: "(nat \<times> nat) set \<Rightarrow> nat list \<Rightarrow> bool" where
  "linked R (a # b # S) \<longleftrightarrow> (b, a) \<in> R \<and> linked R (b # S)"
| "linked R _ \<longleftrightarrow> True"

definition load_inv :: "cinit \<Rightarrow> nat list \<Rightarrow> nat list \<Rightarrow> bool" where
  "load_inv c F S \<longleftrightarrow>
     table_ok c \<and> start_order c = order_table (F @ S) \<and> distinct (F @ S)
     \<and> set (F @ S) = {sid. sid < num_services c \<and> \<not> disabled (srv c sid)}
     \<and> linked (depends_on c) S
     \<and> (\<forall>n s. (n, int s) \<in> set (requests c) \<longrightarrow> settled c (F @ S) n s)"

lemma linked_mono: "linked R S \<Longrightarrow> R \<subseteq> R' \<Longrightarrow> linked R' S"
  by (induction R S rule: linked.induct) auto

lemma linked_reaches: "linked R (a # S) \<Longrightarrow> b \<in> set (a # S) \<Longrightarrow> (b, a) \<in> R\<^sup>*"
proof (induction S arbitrary: a)
  case Nil
  then show ?case by simp
next
  case (Cons x S)
  show ?case
  proof (cases "b = a")
    case False
    with Cons have "(b, x) \<in> R\<^sup>*" "(x, a) \<in> R" by auto
    then show ?thesis by (rule rtrancl.rtrancl_into_rtrancl)
  qed simp
qed

lemma requests_mono: "loads c c' \<Longrightarrow> set (requests c) \<subseteq> set (requests c')"
  unfolding loads_def load_frame_def requests_def
  by (auto simp: quiet_actions_def map_filter_def)

lemma depends_on_mono: "loads c c' \<Longrightarrow> depends_on c \<subseteq> depends_on c'"
  using requests_mono [of c c'] by (auto simp: depends_on_def loads_def)

lemma settled_mono:
  assumes "settled c od n s" and l: "loads c c'" and "subseq od od'" shows "settled c' od' n s"
proof -
  obtain d where d: "d < num_services c" "srv_name (srv c d) = n"
    "disabled (srv c d) \<or> subseq [d, s] od \<or> (d, s) \<in> (depends_on c)\<^sup>*"
    using assms(1) unfolding settled_def by blast
  have "subseq [d, s] od \<Longrightarrow> subseq [d, s] od'" using assms(3) subseq_order.trans by blast
  moreover have "(depends_on c)\<^sup>* \<subseteq> (depends_on c')\<^sup>*" using depends_on_mono [OF l] by (rule rtrancl_mono)
  ultimately show ?thesis
    using d l unfolding settled_def loads_def by (intro exI [of _ d]) auto
qed

lemma load_inv_length: "load_inv c F S \<Longrightarrow> length (F @ S) \<le> num_services c"
proof -
  assume i: "load_inv c F S"
  then have "set (F @ S) \<subseteq> {..<num_services c}" "distinct (F @ S)" by (auto simp: load_inv_def)
  then show ?thesis by (metis card_lessThan card_mono distinct_card finite_lessThan)
qed

lemma subseq_insert: "subseq (F @ S) (F @ x # S)"
  by (rule list_emb_append_mono) auto

lemma subseq_pair: "d \<in> set F \<Longrightarrow> subseq [d, s] (F @ s # S)"
  by (metis list_emb_append_mono subseq_singleton_left append_Cons append_Nil list.set_intros(1))

lemma load_inv_request:
  assumes inv: "load_inv c F S" and l: "loads c c'" and so: "start_order c' = start_order c"
    and en: "{sid. sid < num_services c' \<and> \<not> disabled (srv c' sid)} = {sid. sid < num_services c \<and> \<not> disabled (srv c sid)}"
    and rq: "requests c' = requests c @ [(n, dep)]"
    and new: "\<And>s. dep = int s \<Longrightarrow> settled c' (F @ S) n s"
  shows "load_inv c' F S"
proof -
  have "settled c' (F @ S) m s" if "(m, int s) \<in> set (requests c')" for m s
    using that inv new settled_mono [OF _ l, of "F @ S" m s "F @ S"] by (auto simp: rq load_inv_def)
  moreover have "linked (depends_on c') S"
    using inv linked_mono depends_on_mono [OF l] unfolding load_inv_def by blast
  moreover have "table_ok c'" using l by (simp add: loads_def)
  ultimately show ?thesis using inv so en by (simp add: load_inv_def)
qed

lemma load_inv_enter:
  assumes inv: "load_inv c F S" and l: "loads c c2" and sid: "sid = num_services c"
    and n: "num_services c2 = Suc (num_services c)" and nm: "srv_name (srv c2 sid) = service"
    and dis: "\<not> disabled (srv c2 sid)"
    and so: "start_order c2 = add_to_start_order_from 0 (int sid) dep (start_order c)"
    and rq: "requests c2 = requests c @ [(service, dep)]"
    and dep: "dep = (case S of [] \<Rightarrow> - 1 | b # _ \<Rightarrow> int b)"
  shows "load_inv c2 F (sid # S)"
proof -
  have "num_services c2 \<le> MAX_NUM_SERVICES"
    using l num_services_le [of c2] by (simp add: loads_def table_ok_def)
  then have len: "length (F @ S) < MAX_NUM_SERVICES" using load_inv_length [OF inv] n by simp
  have new: "sid \<notin> set (F @ S)" using inv sid by (auto simp: load_inv_def)
  have "start_order c2 = order_table (F @ sid # S)"
  proof (cases S)
    case Nil
    with inv so dep order_table_add_last [of F sid] len show ?thesis by (simp add: load_inv_def)
  next
    case (Cons b S')
    with inv so dep order_table_add_before [of F b S' sid] len show ?thesis by (simp add: load_inv_def)
  qed
  moreover have "set (F @ sid # S) = {i. i < num_services c2 \<and> \<not> disabled (srv c2 i)}"
  proof -
    have old: "srv c2 i = srv c i" if "i < num_services c" for i using l that by (simp add: loads_def)
    have "{i. i < num_services c2 \<and> \<not> disabled (srv c2 i)}
        = insert sid {i. i < num_services c \<and> \<not> disabled (srv c2 i)}"
      using sid n dis less_Suc_eq by auto
    also have "{i. i < num_services c \<and> \<not> disabled (srv c2 i)} = {i. i < num_services c \<and> \<not> disabled (srv c i)}"
      using old by (intro Collect_cong) metis
    also have "\<dots> = set (F @ S)" using inv by (simp add: load_inv_def)
    finally show ?thesis by simp
  qed
  moreover have "linked (depends_on c2) (sid # S)"
  proof (cases S)
    case (Cons b S')
    then have "(b, sid) \<in> depends_on c2" using sid n nm rq dep by (simp add: depends_on_def)
    moreover have "linked (depends_on c2) S"
      using inv linked_mono depends_on_mono [OF l] unfolding load_inv_def by blast
    ultimately show ?thesis using Cons by simp
  qed simp
  moreover have "settled c2 (F @ sid # S) m s" if "(m, int s) \<in> set (requests c2)" for m s
  proof -
    consider "(m, int s) \<in> set (requests c)" | "m = service" "dep = int s" using \<open>(m, int s) \<in> set (requests c2)\<close> rq by auto
    then show ?thesis
    proof cases
      case 1
      then have "settled c (F @ S) m s" using inv by (simp add: load_inv_def)
      then show ?thesis by (rule settled_mono [OF _ l subseq_insert])
    next
      case 2
      then obtain S' where "S = s # S'" using dep by (cases S) auto
      then have "subseq [sid, s] (F @ sid # S)" using subseq_pair [of sid "F @ [sid]" s S'] by simp
      moreover have "sid < num_services c2" using sid n by simp
      ultimately show ?thesis unfolding settled_def \<open>m = service\<close> using nm by blast
    qed
  qed
  moreover have "table_ok c2" using l by (simp add: loads_def)
  moreover have "distinct (F @ sid # S)"
  proof -
    have "distinct (F @ S)" using inv by (simp add: load_inv_def)
    with new show ?thesis by simp
  qed
  ultimately show ?thesis by (simp add: load_inv_def)
qed

lemma load_inv_leave: "load_inv c F (sid # S) \<Longrightarrow> load_inv c (F @ [sid]) S"
  by (cases S) (simp_all add: load_inv_def)

lemma load_dependencies_inv:
  assumes call: "\<And>service c c' F S. load_service_with_deps env dk lo fuel service (case S of [] \<Rightarrow> - 1 | b # _ \<Rightarrow> int b) c = (Ok (), c')
      \<Longrightarrow> load_inv c F S \<Longrightarrow> \<exists>F'. load_inv c' F' S"
    and "load_dependencies env dk lo fuel sid es c = (Ok (), c')" and "load_inv c F (sid # S)"
  shows "\<exists>F'. load_inv c' F' (sid # S)"
  using assms(2,3)
proof (induction es arbitrary: c F)
  case Nil
  then show ?case by (auto simp: load_dependencies.simps)
next
  case (Cons e es)
  from Cons.prems(1) show ?case
  proof (cases rule: load_dependencies_cases)
    case skip
    with Cons show ?thesis by blast
  next
    case stop
    then show ?thesis by simp
  next
    case (request r1 c1)
    then have r1: "r1 = Ok ()" and rest: "load_dependencies env dk lo fuel sid es c1 = (Ok (), c')" by auto
    obtain F' where "load_inv c1 F' (sid # S)"
      using call [of _ "sid # S"] request(1) r1 Cons.prems(2) by fastforce
    with rest Cons.IH show ?thesis by blast
  qed
qed

lemma load_service_with_deps_inv:
  assumes "load_service_with_deps env dk lo fuel service (case S of [] \<Rightarrow> - 1 | b # _ \<Rightarrow> int b) c = (Ok (), c')"
    and "load_inv c F S"
  shows "\<exists>F'. load_inv c' F' S"
  using assms
proof (induction fuel arbitrary: service c c' F S)
  case 0
  then show ?case by (simp add: load_service_with_deps.simps)
next
  case (Suc fuel)
  let ?dep = "case S of [] \<Rightarrow> - 1 | b # _ \<Rightarrow> int b"
  have ok: "table_ok c" using Suc.prems(2) by (simp add: load_inv_def)
  from Suc.prems(1) ok show ?case
  proof (cases rule: load_service_with_deps_cases)
    case (known sid)
    have l: "loads c c'" unfolding known(4) by (rule loads_say [OF ok]) simp
    have st: "settled c' (F @ S) service s" if d: "?dep = int s" for s
    proof -
      from d obtain S' where S: "S = s # S'" by (cases S) auto
      have "disabled (srv c sid) \<or> sid \<in> set F \<or> sid \<in> set S"
        using Suc.prems(2) known(1) unfolding load_inv_def by auto
      moreover have "(sid, s) \<in> (depends_on c')\<^sup>*" if "sid \<in> set S"
      proof (rule linked_reaches [of _ s S'])
        show "linked (depends_on c') (s # S')"
          using Suc.prems(2) S linked_mono depends_on_mono [OF l] unfolding load_inv_def by blast
      qed (use that S in simp)
      moreover have "subseq [sid, s] (F @ S)" if "sid \<in> set F"
        using subseq_pair [OF that, of s S'] S by simp
      ultimately show ?thesis
        using known by (intro exI [of _ sid] settled_def [THEN iffD2]) auto
    qed
    have "load_inv c' F S"
      by (rule load_inv_request [OF Suc.prems(2) l _ _ _ st]) (simp_all add: known(4))
    then show ?thesis by blast
  next
    case (disabled sid)
    have "srv c' i = srv c i" if "i < num_services c" for i using disabled(2) that by (simp add: loads_def)
    then have "{sid. sid < num_services c' \<and> \<not> service.disabled (srv c' sid)}
        = {sid. sid < num_services c \<and> \<not> service.disabled (srv c sid)}"
      using disabled(3,4,6) by (auto simp: less_Suc_eq)
    moreover have "settled c' (F @ S) service s" for s
      using disabled unfolding settled_def by (intro exI [of _ sid]) simp
    ultimately have "load_inv c' F S"
      by (intro load_inv_request [OF Suc.prems(2) disabled(2) disabled(7) _ disabled(8)])
    then show ?thesis by blast
  next
    case (enabled c2 sid es)
    have "load_inv c2 F (sid # S)"
      by (rule load_inv_enter [OF Suc.prems(2) enabled(1-7)]) simp
    then have "\<exists>F'. load_inv c' F' (sid # S)"
      by (intro load_dependencies_inv [OF _ enabled(8)] Suc.IH)
    then show ?thesis using load_inv_leave by blast
  qed auto
qed

text \<open>The state in which \<open>main\<close> starts to load.\<close>

definition nothing_loaded :: "cinit \<Rightarrow> bool" where
  "nothing_loaded c \<longleftrightarrow> table_ok c \<and> num_services c = 0
     \<and> start_order c = replicate MAX_NUM_SERVICES (- 1) \<and> requests c = []"

lemma load_default_inv:
  assumes "load_service_with_deps env dk lo fuel service (- 1) c = (Ok (), c')" and "nothing_loaded c"
  shows "\<exists>F. load_inv c' F []"
proof -
  have "load_inv c [] []" using assms(2) by (simp add: load_inv_def nothing_loaded_def order_table_def)
  then show ?thesis using load_service_with_deps_inv [of env dk lo fuel service "[]" c c' "[]"] assms(1) by simp
qed

text \<open>Without cycles, what is requested comes first.\<close>

lemma requested_before:
  assumes inv: "load_inv c F []" and "acyclic (depends_on c)" and "(s, d) \<in> depends_on c" and "\<not> disabled (srv c d)"
  shows "subseq [d, s] F"
proof -
  have d: "d < num_services c" "(srv_name (srv c d), int s) \<in> set (requests c)"
    using assms(3) by (auto simp: depends_on_def)
  then have "settled c F (srv_name (srv c d)) s" using inv by (simp add: load_inv_def)
  then obtain e where e: "e < num_services c" "srv_name (srv c e) = srv_name (srv c d)"
    "disabled (srv c e) \<or> subseq [e, s] F \<or> (e, s) \<in> (depends_on c)\<^sup>*"
    unfolding settled_def by blast
  have "e = d" using find_service_unique [of c e d] inv e d by (simp add: load_inv_def)
  moreover have "(d, s) \<notin> (depends_on c)\<^sup>*"
    using assms(2,3) by (meson acyclic_def rtrancl_into_trancl2)
  ultimately show ?thesis using e(3) assms(4) by simp
qed

text \<open>Two service groups, \<open>default\<close> depending on \<open>a\<close>.\<close>

definition tree_disk :: disk where
  "tree_disk = \<lparr>dk_chdir = (\<lambda>_. ChdirOk),
     dk_settings = (\<lambda>w. if w = ''/etc/services.d/default'' then [''a.dep'' \<mapsto> Plain []] else Map.empty),
     dk_exists = (\<lambda>_ f. False), dk_executable = (\<lambda>_ f. False), dk_realpath = (\<lambda>w f. Inr (w @ ''/'' @ f)),
     dk_entries = (\<lambda>w. Inr (if w = ''/etc/services.d/default'' then [(''a.dep'', True), (''..'', False)] else []))\<rparr>"

definition tree_loaded :: "unit res \<times> cinit" where
  "tree_loaded = load_service_with_deps env0 tree_disk (\<lambda>_ _. True) 3 ''default'' (- 1) main_ctx"

lemma tree_load:
  "fst tree_loaded = Ok () \<and> num_services (snd tree_loaded) = 2
   \<and> requests (snd tree_loaded) = [(''default'', - 1), (''a'', 0)]
   \<and> srv_name (srv (snd tree_loaded) 0) = ''default'' \<and> srv_name (srv (snd tree_loaded) 1) = ''a''
   \<and> \<not> disabled (srv (snd tree_loaded) 1)"
  by code_simp

lemma tree_load_call:
  "load_service_with_deps env0 tree_disk (\<lambda>_ _. True) 3 ''default'' (- 1) main_ctx = (Ok (), snd tree_loaded)"
  using tree_load by (simp add: tree_loaded_def prod_eq_iff)

lemma tree_depends: "depends_on (snd tree_loaded) = {(0, 1)}"
  using tree_load by (auto simp: depends_on_def less_2_cases_iff)

lemma tree_acyclic: "acyclic (depends_on (snd tree_loaded))"
  unfolding tree_depends by (rule acyclicI_order [where f = "\<lambda>x. 1 - x"]) auto

lemma main_ctx_nothing_loaded: "nothing_loaded main_ctx"
  using table_ok_main_ctx by (simp add: nothing_loaded_def) (simp add: main_ctx_def init_start_order_def g_ctx_def requests_def map_filter_def)

section \<open>Properties\<close>

text \<open>
  C20. Loading terminates on every directory tree, cyclic dependencies included: one unit of fuel more than the
  table has free entries is enough.
\<close>

theorem loading_terminates:
  assumes "table_ok c" and "MAX_NUM_SERVICES - num_services c < fuel"
  shows "fst (load_service_with_deps env dk lo fuel service dep c) \<noteq> Halt NoFuel"
  using assms by (rule load_service_with_deps_returns)

theorem loading_terminates_witness:
  "fst (load_service_with_deps env0 sample_disk (\<lambda>_ _. True) 65 ''app'' (- 1) main_ctx) \<noteq> Halt NoFuel"
  using loading_terminates [of main_ctx 65 env0 sample_disk "\<lambda>_ _. True" "''app''" "- 1"] table_ok_main_ctx
  by (simp add: sizes)

text \<open>
  C19. After loading, the start order lists exactly the enabled services, each once, and the rest of its
  table is \<open>-1\<close>.
\<close>

theorem start_order_lists_enabled_services:
  assumes "nothing_loaded c" and "load_service_with_deps env dk lo fuel service (- 1) c = (Ok (), c')"
  shows "\<exists>od. start_order c' = map int od @ replicate (MAX_NUM_SERVICES - length od) (- 1)
    \<and> distinct od \<and> set od = {sid. sid < num_services c' \<and> \<not> disabled (srv c' sid)}"
  using load_default_inv [OF assms(2,1)] by (auto simp: load_inv_def order_table_def)

theorem start_order_lists_enabled_services_witness:
  "\<exists>od. start_order (snd tree_loaded) = map int od @ replicate (MAX_NUM_SERVICES - length od) (- 1)
     \<and> distinct od \<and> set od = {sid. sid < num_services (snd tree_loaded) \<and> \<not> disabled (srv (snd tree_loaded) sid)}"
  using start_order_lists_enabled_services [OF main_ctx_nothing_loaded tree_load_call] .

text \<open>
  C2. The start order is a dependency order: when the requested dependencies have no cycle, every
  dependency that a service requested and that is not disabled comes before it.
\<close>

theorem start_order_respects_dependencies:
  assumes "nothing_loaded c" and "load_service_with_deps env dk lo fuel service (- 1) c = (Ok (), c')"
    and "acyclic (depends_on c')" and "(s, d) \<in> depends_on c'" and "\<not> disabled (srv c' d)"
  shows "subseq [int d, int s] (start_order c')"
proof -
  obtain F where inv: "load_inv c' F []" using load_default_inv [OF assms(2,1)] by blast
  then have "subseq [d, s] F" using assms(3-5) by (rule requested_before)
  then have "subseq (map int [d, s]) (map int F)" by (rule subseq_map)
  then have "subseq (map int [d, s]) (map int F @ replicate (MAX_NUM_SERVICES - length F) (- 1))"
    by (rule list_emb_prefix)
  then show ?thesis using inv by (simp add: load_inv_def order_table_def)
qed

theorem start_order_respects_dependencies_witness: "subseq [1, 0] (start_order (snd tree_loaded))"
  using start_order_respects_dependencies [OF main_ctx_nothing_loaded tree_load_call tree_acyclic, of 0 1] tree_load
  by (simp add: tree_depends)

end
