(* ===== verification/MainLoop.thy ===== *)
theory MainLoop
  imports Startup Shutdown LoadDeps
begin

text \<open>
  \<open>main\<close> of \<open>src/src/cinit/cinit.c\<close> from the loading of the services on: bringing the services up, the main
  loop (reaping, services that run at an interval, restarts, commands from the named pipe), and the way out.
\<close>

section \<open>The passes over the services\<close>

text \<open>\<open>FOR_EACH_SERVICE (sid) { body }\<close>: the condition is looked at again after each body.\<close>

function for_each :: "(nat \<Rightarrow> cinit \<Rightarrow> unit res \<times> cinit) \<Rightarrow> nat \<Rightarrow> cinit \<Rightarrow> unit res \<times> cinit" where
  "for_each body sid c =
     (if sid < MAX_NUM_SERVICES \<and> srv_name (srv c sid) \<noteq> []
      then bind_st (body sid c) (\<lambda>_ c1. for_each body (Suc sid) c1) else (Ok (), c))"
  by pat_completeness auto
termination by (relation "measure (\<lambda>(body, sid, c). MAX_NUM_SERVICES - sid)") auto

declare for_each.simps [simp del]

definition to_restart :: "service \<Rightarrow> bool" where
  "to_restart s \<longleftrightarrow> (respawn s \<or> restart_requested s) \<and> pid s = 0"

text \<open>
  The product of \<open>interval\<close> and \<open>1000\<close> is one of \<open>unsigned int\<close>; the comparison is one of \<open>unsigned long\<close>.
\<close>

definition interval_msec :: "service \<Rightarrow> msec" where
  "interval_msec s = ucast (interval s * 1000)"

definition start_or_log :: "os \<Rightarrow> disk \<Rightarrow> nat \<Rightarrow> cinit \<Rightarrow> unit res \<times> cinit" where
  "start_or_log os dk sid c =
     try_catch (start_service os dk sid c)
       (\<lambda>e c1. (Ok (), log_err (''failed to start service '' @ quoted (srv_name (srv c1 sid)) @ '': '' @ e) c1))"

definition run_at_interval :: "os \<Rightarrow> disk \<Rightarrow> nat \<Rightarrow> cinit \<Rightarrow> unit res \<times> cinit" where
  "run_at_interval os dk sid c =
     (if interval (srv c sid) > 0 then
        bind_st (get_time os c) (\<lambda>t c1.
          if t - start_time (srv c1 sid) \<ge> interval_msec (srv c1 sid) then
            (if pid (srv c1 sid) > 0 then
               bind_st (get_time os (log_err (''service '' @ quoted (srv_name (srv c1 sid))
                   @ '' didn'' @ [CHR 0x27] @ ''t terminate within its defined interval of ''
                   @ dec_int (sint (interval (srv c1 sid))) @ '' seconds.'') c1))
                 (\<lambda>t2 c2. (Ok (), upd_srv sid (\<lambda>s. s\<lparr>start_time := t2\<rparr>) c2))
             else start_or_log os dk sid c1)
          else (Ok (), c1))
      else (Ok (), c))"

text \<open>\<open>SERVICE_RESTART_DELAY\<close>\<close>

definition restart_delay :: msec where "restart_delay = 500"

definition restart_service :: "os \<Rightarrow> disk \<Rightarrow> nat \<Rightarrow> cinit \<Rightarrow> unit res \<times> cinit" where
  "restart_service os dk sid c =
     (if to_restart (srv c sid) then
        bind_st (get_time os c) (\<lambda>t c1.
          if t - start_time (srv c1 sid) > restart_delay then
            try_catch
              (bind_st (start_service os dk sid (log (''restarting service '' @ quoted (srv_name (srv c1 sid)) @ ''.'') c1))
                 (\<lambda>_ c2. (Ok (), upd_srv sid (\<lambda>s. s\<lparr>restart_requested := False\<rparr>) c2)))
              (\<lambda>e c2. (Ok (), log_err (''failed to restart service '' @ quoted (srv_name (srv c2 sid)) @ '': '' @ e) c2))
          else (Ok (), c1))
      else (Ok (), c))"

section \<open>Commands\<close>

text \<open>
  The bytes of one \<open>read\<close> of at most 255 bytes; \<open>clean_value\<close> is what \<open>terminate_at_first_eol\<close> and \<open>trim\<close>
  leave in the buffer.
\<close>

definition restart_command :: string where "restart_command = ''restart:''"

definition request_restart :: "os \<Rightarrow> disk \<Rightarrow> nat \<Rightarrow> cinit \<Rightarrow> unit res \<times> cinit" where
  "request_restart os dk sid c =
     try_catch
       (bind_st (stop_service os dk sid
                  (log (''restart request for service '' @ quoted (srv_name (srv c sid)) @ '' received.'') c))
          (\<lambda>_ c2. (Ok (), upd_srv sid (\<lambda>s. s\<lparr>restart_requested := True\<rparr>) c2)))
       (\<lambda>e c2. (Ok (), log_err (''failed to stop service '' @ quoted (srv_name (srv c2 sid)) @ '': '' @ e) c2))"

definition run_command :: "os \<Rightarrow> disk \<Rightarrow> string \<Rightarrow> cinit \<Rightarrow> unit res \<times> cinit" where
  "run_command os dk buf c =
     (if take (length restart_command) buf = restart_command then
        (let service = drop (length restart_command) buf in
         bind_st (find_service service c, c) (\<lambda>found c1.
           case found of
             Some sid \<Rightarrow> request_restart os dk sid c1
           | None \<Rightarrow> (Ok (), log (''service not found: '' @ quoted service) c1)))
      else (Ok (), c))"

definition handle_command :: "os \<Rightarrow> disk \<Rightarrow> cinit \<Rightarrow> unit res \<times> cinit" where
  "handle_command os dk c =
     (case os_read os (ticks c) of
        None \<Rightarrow> (Ok (), tick os c)
      | Some bytes \<Rightarrow>
          (let len = length (take 255 bytes) in
           if len > 0 then run_command os dk (clean_value (cstr (take 255 bytes))) (tick os c)
           else (Ok (), tick os c)))"

section \<open>The main loop\<close>

fun main_loop :: "os \<Rightarrow> disk \<Rightarrow> nat \<Rightarrow> cinit \<Rightarrow> unit res \<times> cinit" where
  "main_loop os dk 0 c = (Halt NoFuel, c)"
| "main_loop os dk (Suc fuel) c =
     (if do_shutdown c then (Ok (), c)
      else bind_st (child_handler os dk fuel 0 (- 1) c) (\<lambda>all_gone c1.
        if do_shutdown c1 then (Ok (), c1)
        else if all_gone \<and> \<not> (\<exists>sid \<in> set (for_each_service c1). to_restart (srv c1 sid)) then
          (Ok (), request_shutdown (log ''all services exited, shutting down..'' c1))
        else
          bind_st (for_each (run_at_interval os dk) 0 c1) (\<lambda>_ c2.
          bind_st (for_each (restart_service os dk) 0 c2) (\<lambda>_ c3.
          bind_st (handle_command os dk c3) (\<lambda>_ c4.
            main_loop os dk fuel (msleep os 1000 c4))))))"

section \<open>Up and down\<close>

text \<open>The prefix of the log is as wide as the longest name of a service with output.\<close>

definition widen_for :: "nat \<Rightarrow> cinit \<Rightarrow> cinit" where
  "widen_for sid x =
     (if disabled (srv x sid) \<or> is_service_group (srv x sid) then x
      else if int (length (srv_name (srv x sid))) > log_prefix_length x
      then x\<lparr>log_prefix_length := int (length (srv_name (srv x sid)))\<rparr> else x)"

definition widen_prefix :: "cinit \<Rightarrow> cinit" where
  "widen_prefix c = fold widen_for (for_each_service c) c"

definition bring_up :: "load_env \<Rightarrow> os \<Rightarrow> disk \<Rightarrow> leftover \<Rightarrow> nat \<Rightarrow> cinit \<Rightarrow> unit res \<times> cinit" where
  "bring_up env os dk lo fuel c =
     bind_st (load_service_with_deps env dk lo fuel ''default'' (- 1) (log ''loading services...'' c)) (\<lambda>_ c1.
     bind_st (start_services os dk fuel (log ''starting services...'' (widen_prefix (log ''all services loaded.'' c1))))
       (\<lambda>_ c2. (Ok (), log ''all services started.'' c2)))"

definition CMD_FIFO_PATH :: string where "CMD_FIFO_PATH = ''/tmp/.cinit_cmd''"

text \<open>
  After the main loop: the pipe (descriptor \<open>cmd_fd\<close>) is removed, the services are shut down. The exit status is
  \<open>1\<close> when the start failed (\<open>start_error\<close>), or else the exit code that a service left behind.
\<close>

definition wind_down :: "os \<Rightarrow> disk \<Rightarrow> nat \<Rightarrow> int \<Rightarrow> bool \<Rightarrow> cinit \<Rightarrow> int res \<times> cinit" where
  "wind_down os dk fuel cmd_fd start_error c =
     (let status = (if start_error then 1 else exit_code c);
          c1 = say (Unlinked CMD_FIFO_PATH) (if cmd_fd \<noteq> - 1 then say (ClosedFd cmd_fd) c else c) in
      if \<not> do_shutdown c1 then (Halt (AssertFailed ''Performing shutdown without request.''), c1)
      else bind_st (cinit_shutdown os dk fuel c1) (\<lambda>_ c2. (Ok status, unload_services 0 c2)))"

fun raised :: "'a res \<Rightarrow> bool" where
  "raised (Exn e) \<longleftrightarrow> e \<noteq> cexception_none"
| "raised _ \<longleftrightarrow> False"

text \<open>From the loading of the services to the end.\<close>

definition supervise :: "load_env \<Rightarrow> os \<Rightarrow> disk \<Rightarrow> leftover \<Rightarrow> nat \<Rightarrow> int \<Rightarrow> cinit \<Rightarrow> int res \<times> cinit" where
  "supervise env os dk lo fuel cmd_fd c =
     (let up = bring_up env os dk lo fuel c;
          start_error = raised (fst up) in
      bind_st (try_catch up (\<lambda>e c1. (Ok (), request_shutdown (log e c1)))) (\<lambda>_ c1.
      bind_st (main_loop os dk fuel c1) (\<lambda>_. wind_down os dk fuel cmd_fd start_error)))"

section \<open>The frame\<close>

lemma evolves_length: "evolves J K c c' \<Longrightarrow> length (services c') = length (services c)"
  by (metis evolves_def length_map)

context service_life
begin

lemma runs_for_each:
  assumes body: "\<And>sid c. named sid c \<Longrightarrow> runs J K c (body sid c)"
  shows "length (services c) = MAX_NUM_SERVICES \<Longrightarrow> runs J K c (for_each body sid c)"
proof (induction "MAX_NUM_SERVICES - sid" arbitrary: sid c)
  case 0
  then show ?case by (subst for_each.simps) simp
next
  case (Suc n)
  have "runs J K c (bind_st (body sid c) (\<lambda>_ c1. for_each body (Suc sid) c1))"
    if "sid < MAX_NUM_SERVICES" "srv_name (srv c sid) \<noteq> []"
  proof (rule runs_bind)
    show "runs J K c (body sid c)" by (rule body) (use that Suc.prems in \<open>simp add: named_def\<close>)
    fix x c1 assume "evolves J K c c1"
    then show "runs J K c1 (for_each body (Suc sid) c1)"
      using Suc evolves_length by (intro Suc.hyps(1)) auto
  qed
  then show ?case by (subst for_each.simps) simp
qed

lemma runs_log_catch: "runs J K c (Ok (), log_err m c)"
  by (simp add: evolves_core same_core_log)

lemma runs_run_at_interval:
  assumes "forkpty_ok os" and "named sid c" shows "runs J K c (run_at_interval os dk sid c)"
proof -
  have l: "evolves J K x (log_err m x)" for m x by (rule evolves_core [OF same_core_log(2)])
  have s: "runs J K x (Ok (), upd_srv sid (\<lambda>s. s\<lparr>start_time := t\<rparr>) x)" if "named sid x" for t x
    using evolves_start_time [OF that] by simp
  have late: "runs J K x (bind_st (get_time os (log_err m x)) (\<lambda>t2 c2. (Ok (), upd_srv sid (\<lambda>s. s\<lparr>start_time := t2\<rparr>) c2)))"
    if "named sid x" for m x
  proof (rule runs_core [OF l runs_bind [OF runs_get_time]])
    fix t2 c2 assume "evolves J K (log_err m x) c2"
    then have "named sid c2" using that evolves_named [OF l [of x m]] evolves_named by blast
    then show "runs J K c2 (Ok (), upd_srv sid (\<lambda>s. s\<lparr>start_time := t2\<rparr>) c2)" by (rule s)
  qed
  show ?thesis
    unfolding run_at_interval_def
  proof (intro runs_if runs_bind [OF runs_get_time])
    fix t c1 assume "evolves J K c c1"
    then have n: "named sid c1" using assms(2) evolves_named by blast
    show "runs J K c1 (bind_st (get_time os (log_err m c1)) (\<lambda>t2 c2. (Ok (), upd_srv sid (\<lambda>s. s\<lparr>start_time := t2\<rparr>) c2)))" for m
      by (rule late [OF n])
    show "runs J K c1 (start_or_log os dk sid c1)"
      unfolding start_or_log_def by (rule runs_try [OF runs_start_service [OF assms(1) n] runs_log_catch])
  qed simp_all
qed

lemma runs_restart_service:
  assumes "forkpty_ok os" and "named sid c" shows "runs J K c (restart_service os dk sid c)"
  unfolding restart_service_def
proof (intro runs_if runs_bind [OF runs_get_time] runs_try runs_log_catch)
  fix t c1 assume e: "evolves J K c c1"
  let ?l = "log (''restarting service '' @ quoted (srv_name (srv c1 sid)) @ ''.'') c1"
  have l: "evolves J K c1 ?l" by (rule evolves_core [OF same_core_log(1)])
  have n: "named sid ?l" using assms(2) evolves_named [OF e] evolves_named [OF l] by simp
  show "runs J K c1 (bind_st (start_service os dk sid ?l) (\<lambda>_ c2. (Ok (), upd_srv sid (\<lambda>s. s\<lparr>restart_requested := False\<rparr>) c2)))"
  proof (rule runs_core [OF l runs_bind [OF runs_start_service [OF assms(1) n]]])
    fix x c2 assume "evolves J K ?l c2"
    then have "named sid c2" using n evolves_named by blast
    then show "runs J K c2 (Ok (), upd_srv sid (\<lambda>s. s\<lparr>restart_requested := False\<rparr>) c2)" using evolves_restart by simp
  qed
qed simp_all

lemma runs_request_restart:
  assumes "named sid c" shows "runs J K c (request_restart os dk sid c)"
  unfolding request_restart_def
proof (rule runs_try)
  let ?l = "log (''restart request for service '' @ quoted (srv_name (srv c sid)) @ '' received.'') c"
  have l: "evolves J K c ?l" by (rule evolves_core [OF same_core_log(1)])
  have n: "named sid ?l" using assms evolves_named [OF l] by simp
  show "runs J K c (bind_st (stop_service os dk sid ?l) (\<lambda>_ c2. (Ok (), upd_srv sid (\<lambda>s. s\<lparr>restart_requested := True\<rparr>) c2)))"
  proof (rule runs_core [OF l runs_bind [OF runs_stop_service [OF n]]])
    fix x c2 assume "evolves J K ?l c2"
    then have "named sid c2" using n evolves_named by blast
    then show "runs J K c2 (Ok (), upd_srv sid (\<lambda>s. s\<lparr>restart_requested := True\<rparr>) c2)" using evolves_restart by simp
  qed
qed (rule runs_log_catch)

lemma runs_run_command: "runs J K c (run_command os dk buf c)"
proof -
  have nf: "evolves J K c (log m c)" for m by (rule evolves_core [OF same_core_log(1)])
  have nm: "named sid c" if "find_index P c = Some sid" for P sid
    using that num_services_le [of c] named_below [of sid c] by (auto simp: named_def dest!: find_index_Some)
  show ?thesis
    using nf runs_request_restart [OF nm] by (simp add: run_command_def Let_def find_service_def split: option.split)
qed

lemma runs_handle_command: "runs J K c (handle_command os dk c)"
  using runs_tick [OF runs_run_command] evolves_core [OF same_core_tick]
  by (auto simp: handle_command_def Let_def split: option.split)

lemma runs_main_loop:
  assumes "forkpty_ok os"
  shows "length (services c) = MAX_NUM_SERVICES \<Longrightarrow> runs J K c (main_loop os dk fuel c)"
proof (induction fuel arbitrary: c)
  case (Suc fuel)
  have len: "length (services c1) = MAX_NUM_SERVICES" if "evolves J K c0 c1" "length (services c0) = MAX_NUM_SERVICES" for c0 c1
    using that evolves_length by simp
  have sleep: "runs J K x (main_loop os dk fuel (msleep os 1000 x))" if "length (services x) = MAX_NUM_SERVICES" for x
    by (rule runs_core [OF evolves_core [OF same_core_msleep] Suc.IH]) (simp add: that)
  have fin: "runs J K x (Ok (), request_shutdown (log m x))" for m x
  proof -
    have "evolves J K x (log m x)" by (rule evolves_core [OF same_core_log(1)])
    then show ?thesis by (simp add: request_shutdown_def evolves_def)
  qed
  have passes: "runs J K c1 (bind_st (for_each (run_at_interval os dk) 0 c1) (\<lambda>_ c2.
          bind_st (for_each (restart_service os dk) 0 c2) (\<lambda>_ c3.
          bind_st (handle_command os dk c3) (\<lambda>_ c4. main_loop os dk fuel (msleep os 1000 c4)))))"
    if l1: "length (services c1) = MAX_NUM_SERVICES" for c1
  proof (rule runs_bind)
    show "runs J K c1 (for_each (run_at_interval os dk) 0 c1)"
      by (rule runs_for_each [OF _ l1]) (rule runs_run_at_interval [OF assms])
    fix x c2 assume "evolves J K c1 c2"
    then have l2: "length (services c2) = MAX_NUM_SERVICES" using l1 by (rule len)
    show "runs J K c2 (bind_st (for_each (restart_service os dk) 0 c2) (\<lambda>_ c3.
          bind_st (handle_command os dk c3) (\<lambda>_ c4. main_loop os dk fuel (msleep os 1000 c4))))"
    proof (rule runs_bind)
      show "runs J K c2 (for_each (restart_service os dk) 0 c2)"
        by (rule runs_for_each [OF _ l2]) (rule runs_restart_service [OF assms])
      fix x c3 assume "evolves J K c2 c3"
      then have l3: "length (services c3) = MAX_NUM_SERVICES" using l2 by (rule len)
      show "runs J K c3 (bind_st (handle_command os dk c3) (\<lambda>_ c4. main_loop os dk fuel (msleep os 1000 c4)))"
        by (rule runs_bind [OF runs_handle_command sleep]) (rule len [OF _ l3])
    qed
  qed
  show ?case
    unfolding main_loop.simps
    by (intro runs_if runs_bind [OF runs_child_handler] fin passes) (auto simp: Suc.prems dest: evolves_length)
qed simp

end

section \<open>The main loop ends with a shutdown request\<close>

lemma main_loop_shutdown: "main_loop os dk fuel c = (Ok (), c') \<Longrightarrow> do_shutdown c'"
proof (induction fuel arbitrary: c)
  case (Suc fuel)
  show ?case
  proof (cases "do_shutdown c")
    case False
    then obtain g c1 where "child_handler os dk fuel 0 (- 1) c = (Ok g, c1)"
      and r: "(if do_shutdown c1 then (Ok (), c1)
        else if g \<and> \<not> (\<exists>sid \<in> set (for_each_service c1). to_restart (srv c1 sid)) then
          (Ok (), request_shutdown (log ''all services exited, shutting down..'' c1))
        else
          bind_st (for_each (run_at_interval os dk) 0 c1) (\<lambda>_ c2.
          bind_st (for_each (restart_service os dk) 0 c2) (\<lambda>_ c3.
          bind_st (handle_command os dk c3) (\<lambda>_ c4.
            main_loop os dk fuel (msleep os 1000 c4))))) = (Ok (), c')"
      using Suc.prems by (auto simp: bind_st_Ok)
    show ?thesis
    proof (cases "do_shutdown c1 \<or> (g \<and> \<not> (\<exists>sid \<in> set (for_each_service c1). to_restart (srv c1 sid)))")
      case True
      then show ?thesis using r by (auto simp: request_shutdown_def split: if_splits)
    next
      case F: False
      then obtain c4 where "main_loop os dk fuel (msleep os 1000 c4) = (Ok (), c')"
        using r by (auto simp: bind_st_Ok split: if_splits)
      then show ?thesis by (rule Suc.IH)
    qed
  qed (use Suc.prems in simp)
qed simp

section \<open>From the first service to the last\<close>

lemma live_ok_loaded:
  assumes "loads c c'" and "num_services c = 0"
  shows "live_ok (services c') \<and> length (services c') = MAX_NUM_SERVICES"
proof -
  have ok: "table_ok c'" using assms(1) by (simp add: loads_def)
  then have len: "length (services c') = MAX_NUM_SERVICES" by (simp add: table_ok_def)
  have "0 \<le> pid s \<and> (pid s = 0 \<longrightarrow> \<not> logger_started s \<and> output_fd s < 0)" if mem: "s \<in> set (services c')" and nm: "srv_name s \<noteq> []" for s
  proof -
    obtain i where "i < length (services c')" "srv c' i = s" using mem unfolding in_set_conv_nth by blast
    then have i: "i < MAX_NUM_SERVICES" "s = srv c' i" using len by simp_all
    have "i < num_services c'"
    proof (rule ccontr)
      assume "\<not> i < num_services c'"
      then have "srv c' i = zero_service" using ok i(1) unfolding table_ok_def by simp
      then show False using i(2) nm by simp
    qed
    then have "loaded_ok c (srv_name (srv c' i)) (srv c' i)" using assms unfolding loads_def by simp
    then have "loaded_ok c (srv_name s) s" unfolding i(2) .
    then show ?thesis by (simp add: loaded_ok_def)
  qed
  with len show ?thesis by (simp add: live_ok_def)
qed

lemma loads_quiet: "loads c c' \<Longrightarrow> signals c' = signals c"
  by (auto simp: loads_def load_frame_def quiet_actions_def signals_def no_signals)

lemma widen_for_frame: "\<exists>n. widen_for sid x = x\<lparr>log_prefix_length := n\<rparr>"
proof -
  have "x = x\<lparr>log_prefix_length := log_prefix_length x\<rparr>" by simp
  then show ?thesis unfolding widen_for_def by metis
qed

lemma widen_prefix_frame: "\<exists>n. widen_prefix c = c\<lparr>log_prefix_length := n\<rparr>"
proof -
  have "\<exists>n. fold widen_for xs x = x\<lparr>log_prefix_length := n\<rparr>" for xs x
  proof (induction xs arbitrary: x)
    case Nil
    show ?case by (intro exI [of _ "log_prefix_length x"]) simp
  next
    case (Cons y ys)
    obtain n where n: "widen_for y x = x\<lparr>log_prefix_length := n\<rparr>" using widen_for_frame by blast
    obtain m where "fold widen_for ys (x\<lparr>log_prefix_length := n\<rparr>) = x\<lparr>log_prefix_length := n, log_prefix_length := m\<rparr>"
      using Cons.IH by blast
    then show ?case by (intro exI [of _ m]) (simp add: n)
  qed
  then show ?thesis unfolding widen_prefix_def by blast
qed

text \<open>Everything up to the shutdown keeps the table live and signals single processes only.\<close>

lemma signals_evolves:
  assumes "evolves live_ok single_process c c'" and "live_ok (services c)"
  shows "\<exists>xs. signals c' = signals c @ xs \<and> (\<forall>a\<in>set xs. single_process a)"
proof -
  obtain new where "actions c' = actions c @ new" "\<forall>a\<in>set new. loud a \<longrightarrow> single_process a"
    using assms by (auto simp: evolves_def)
  moreover have "loud a" if "is_signal a" for a using that by (cases a) simp_all
  ultimately show ?thesis
    by (intro exI [of _ "filter is_signal new"]) (auto simp: signals_def)
qed

lemma evolves_widen: "evolves J K c (widen_prefix c)"
proof -
  obtain n where "widen_prefix c = c\<lparr>log_prefix_length := n\<rparr>" using widen_prefix_frame by blast
  then show ?thesis by (simp add: evolves_def)
qed

lemma bring_up_frame:
  assumes up: "bring_up env os dk lo fuel c = (r, c')" "\<forall>h. r \<noteq> Halt h" and ok: "nothing_loaded c" "forkpty_ok os"
  shows "live_ok (services c') \<and> length (services c') = MAX_NUM_SERVICES \<and> order_ok c'
    \<and> (\<exists>xs. signals c' = signals c @ xs \<and> (\<forall>a\<in>set xs. single_process a))"
proof -
  let ?c0 = "log ''loading services...'' c"
  have t0: "table_ok ?c0" "num_services ?c0 = 0" "order_ok ?c0"
    using ok(1) by (auto simp: nothing_loaded_def order_ok_def log_say)
  have s0: "signals ?c0 = signals c" by (rule signals_core [OF same_core_log(1)])
  obtain r1 c1 where l: "load_service_with_deps env dk lo fuel ''default'' (- 1) ?c0 = (r1, c1)" by fastforce
  have nh1: "\<forall>h. r1 \<noteq> Halt h" using up l by (auto simp: bring_up_def)
  note L = load_service_with_deps_loads [OF l t0(1) nh1]
  have live1: "live_ok (services c1)" "length (services c1) = MAX_NUM_SERVICES" "order_ok c1" "signals c1 = signals c"
    using L live_ok_loaded [of ?c0 c1] loads_quiet [of ?c0 c1] t0 s0 by auto
  show ?thesis
  proof (cases r1)
    case (Ok u)
    define c2 where "c2 = log ''starting services...'' (widen_prefix (log ''all services loaded.'' c1))"
    have lg: "evolves live_ok single_process x (log m x)" for x m by (rule evolves_core [OF same_core_log(1)])
    have e2: "evolves live_ok single_process c1 c2"
      unfolding c2_def by (rule evolves_trans [OF evolves_trans [OF lg evolves_widen] lg])
    have up2: "bind_st (start_services os dk fuel c2) (\<lambda>_ c2. (Ok (), log ''all services started.'' c2)) = (r, c')"
      using up(1) l Ok by (simp add: bring_up_def c2_def)
    have nm: "named i c2 = named i c1" for i using evolves_named [OF e2] by simp
    have so: "start_order c2 = start_order c1" using e2 by (simp add: evolves_def)
    have "\<forall>x\<in>set (start_order c2). x < 0 \<or> named (nat x) c2"
      unfolding nm so using live1(3) num_services_le [of c1] named_below [of _ c1]
      by (fastforce simp: order_ok_def named_def)
    then have "runs live_ok single_process c2 (start_services os dk fuel c2)"
      unfolding start_services_def by (rule live.runs_start_from [OF ok(2)])
    then have "runs live_ok single_process c2 (bind_st (start_services os dk fuel c2) (\<lambda>_ c2. (Ok (), log ''all services started.'' c2)))"
      by (rule runs_bind) (simp add: evolves_core same_core_log)
    then have "evolves live_ok single_process c2 c'" using up2 up(2) by (simp add: runs_def)
    then have e: "evolves live_ok single_process c1 c'" using e2 evolves_trans by blast
    have "start_order c' = start_order c1" "map srv_name (services c') = map srv_name (services c1)" "live_ok (services c')"
      using e live1(1) by (auto simp: evolves_def)
    moreover have "num_services c' = num_services c1"
    proof -
      have "num_services x = length (takeWhile (\<lambda>n. n \<noteq> []) (map srv_name (services x)))" for x
        by (simp add: num_services_def takeWhile_map comp_def)
      then show ?thesis using \<open>map srv_name (services c') = map srv_name (services c1)\<close> by simp
    qed
    ultimately show ?thesis
      using signals_evolves [OF e live1(1)] live1 evolves_length [OF e] by (simp add: order_ok_def)
  next
    case (Exn e)
    then have "c' = c1" using up l by (simp add: bring_up_def)
    then show ?thesis using live1 by auto
  next
    case (Halt h)
    then show ?thesis using nh1 by simp
  qed
qed

lemma unload_services_frame: "\<exists>ss. unload_services s c = c\<lparr>services := ss\<rparr>"
proof (induction s c rule: unload_services.induct)
  case (1 s c)
  show ?case
  proof (cases "s < length (services c) \<and> srv_name (srv c s) \<noteq> []")
    case True
    then obtain ss where "unload_services (Suc s) (unload_service s c) = (unload_service s c)\<lparr>services := ss\<rparr>"
      using 1 by blast
    then show ?thesis using True
      by (intro exI [of _ ss], subst unload_services.simps) (simp add: unload_service_def upd_srv_def)
  next
    case False
    then have "unload_services s c = c" by (subst unload_services.simps) auto
    then show ?thesis by (intro exI [of _ "services c"]) simp
  qed
qed

lemma supervise_frame:
  assumes s: "supervise env os dk lo fuel fd c = (Ok status, c')" and ok: "nothing_loaded c" "forkpty_ok os"
  shows "all_reaped os c' \<and> (\<exists>xs bs. signals c' = signals c @ xs @ bs \<and> (\<forall>a\<in>set xs. single_process a)
      \<and> (bs = [] \<or> bs = [Signalled (- 1) SIGTERM] \<or> bs = [Signalled (- 1) SIGTERM, Signalled (- 1) SIGKILL]))"
proof -
  obtain r0 c0 where up: "bring_up env os dk lo fuel c = (r0, c0)" by fastforce
  obtain c1 c2 where t: "try_catch (r0, c0) (\<lambda>e c1. (Ok (), request_shutdown (log e c1))) = (Ok (), c1)"
    and ml: "main_loop os dk fuel c1 = (Ok (), c2)" and w: "wind_down os dk fuel fd (raised r0) c2 = (Ok status, c')"
    using s unfolding supervise_def up Let_def bind_st_Ok fst_conv by auto
  have nh: "\<forall>h. r0 \<noteq> Halt h" using t by (cases r0) auto
  note U = bring_up_frame [OF up nh ok]
  have "c1 = c0 \<or> (\<exists>e. c1 = request_shutdown (log e c0))" using t by (cases r0) (auto split: if_splits)
  then have e1: "evolves live_ok single_process c0 c1"
  proof
    assume "\<exists>e. c1 = request_shutdown (log e c0)"
    then obtain e where e: "c1 = request_shutdown (log e c0)" by blast
    have "evolves live_ok single_process c0 (log e c0)" by (rule evolves_core [OF same_core_log(1)])
    then show ?thesis by (simp add: e request_shutdown_def evolves_def)
  qed simp
  define c3 where "c3 = say (Unlinked CMD_FIFO_PATH) (if fd \<noteq> - 1 then say (ClosedFd fd) c2 else c2)"
  have l1: "length (services c1) = MAX_NUM_SERVICES" using evolves_length [OF e1] U by simp
  have e2: "evolves live_ok single_process c1 c2"
    using live.runs_main_loop [OF ok(2) l1, of dk fuel] ml by (simp add: runs_def)
  have "same_core c2 c3" unfolding c3_def
    by (cases "fd = - 1") (auto intro: same_core_trans [OF same_core_say same_core_say] same_core_say)
  then have e03: "evolves live_ok single_process c0 c3" using e1 e2 evolves_trans evolves_core by metis
  have l3: "length (services c3) = MAX_NUM_SERVICES" using evolves_length [OF e03] U by simp
  have nm: "num_services c3 = num_services c0"
  proof -
    have "num_services x = length (takeWhile (\<lambda>n. n \<noteq> []) (map srv_name (services x)))" for x
      by (simp add: num_services_def takeWhile_map comp_def)
    then show ?thesis using e03 by (simp add: evolves_def)
  qed
  have live3: "live_ok (services c3)" and o3: "order_ok c3"
    using e03 U nm by (simp_all add: evolves_def order_ok_def)
  obtain xs where xs: "signals c0 = signals c @ xs" "\<forall>a\<in>set xs. single_process a" using U by blast
  obtain ys where ys: "signals c3 = signals c0 @ ys" "\<forall>a\<in>set ys. single_process a"
    using signals_evolves [OF e03] U by blast
  have "do_shutdown c3" using main_loop_shutdown [OF ml] by (simp add: c3_def say_def)
  then obtain c4 where sh: "cinit_shutdown os dk fuel c3 = (Ok (), c4)" and c': "c' = unload_services 0 c4"
    using w by (auto simp: wind_down_def Let_def bind_st_Ok c3_def [symmetric])
  note S = cinit_shutdown_frame [OF sh o3 l3]
  obtain zs bs where zs: "signals c4 = signals c3 @ map (\<lambda>x. Signalled (pid (srv c3 (nat x))) SIGTERM) zs @ bs"
    "subseq zs (rev (start_order c3))" "\<forall>x\<in>set zs. 0 \<le> x \<and> pid (srv c3 (nat x)) \<noteq> 0"
    "bs = [] \<or> bs = [Signalled (- 1) SIGTERM] \<or> bs = [Signalled (- 1) SIGTERM, Signalled (- 1) SIGKILL]"
    using S by blast
  have "single_process (Signalled (pid (srv c3 (nat x))) SIGTERM)" if x: "x \<in> set zs" for x
  proof -
    have "x \<in> set (start_order c3)" using list_emb_set [OF zs(2) x] by auto
    moreover have "0 \<le> x" using zs(3) x by blast
    ultimately have "nat x < num_services c3" "0 \<le> x" using o3 unfolding order_ok_def by fastforce+
    then have "0 \<le> pid (srv c3 (nat x))"
      using live_ok_nth [OF live3, of "nat x"] named_below num_services_le [of c3] by simp
    moreover have "pid (srv c3 (nat x)) \<noteq> 0" using zs(3) x by blast
    ultimately show ?thesis by simp
  qed
  then have all: "\<forall>a\<in>set (xs @ ys @ map (\<lambda>x. Signalled (pid (srv c3 (nat x))) SIGTERM) zs). single_process a"
    using xs(2) ys(2) by auto
  obtain ss where ss: "c' = c4\<lparr>services := ss\<rparr>" using unload_services_frame c' by blast
  have "signals c' = signals c @ (xs @ ys @ map (\<lambda>x. Signalled (pid (srv c3 (nat x))) SIGTERM) zs) @ bs"
    using xs(1) ys(1) zs(1) ss by (simp add: signals_def)
  moreover have "all_reaped os c'" using S ss by (simp add: all_reaped_def)
  ultimately show ?thesis using all zs(4) by blast
qed

section \<open>Properties\<close>

text \<open>
  C3. The whole run, from the first service to the last: every signal goes to a single process, apart from the
  final \<open>SIGTERM\<close> and \<open>SIGKILL\<close> to all of them, and when the run is over no child is left unreaped.
\<close>

theorem run_signals_and_reaps:
  assumes "supervise env os dk lo fuel fd c = (Ok status, c')" and "nothing_loaded c" and "forkpty_ok os"
  shows "all_reaped os c' \<and> (\<exists>xs bs. signals c' = signals c @ xs @ bs \<and> (\<forall>a\<in>set xs. single_process a)
      \<and> (bs = [] \<or> bs = [Signalled (- 1) SIGTERM] \<or> bs = [Signalled (- 1) SIGTERM, Signalled (- 1) SIGKILL]))"
  using assms by (rule supervise_frame)

theorem run_signals_and_reaps_witness:
  "all_reaped (sample_os (\<lambda>_. NoChild)) (snd (supervise env0 (sample_os (\<lambda>_. NoChild)) tree_disk (\<lambda>_ _. True) 5 3 main_ctx))"
proof -
  let ?r = "supervise env0 (sample_os (\<lambda>_. NoChild)) tree_disk (\<lambda>_ _. True) 5 3 main_ctx"
  have r: "?r = (Ok 0, snd ?r)" by (rule prod_eqI) (simp_all, code_simp)
  have "forkpty_ok (sample_os w)" for w by (auto simp: forkpty_ok_def sample_os_def)
  from run_signals_and_reaps [OF r main_ctx_nothing_loaded this] show ?thesis by blast
qed

text \<open>
  C17. The main loop keeps the invariant of the table (a service without a process has no logger thread and no open
  output) and the configuration of every service, and it is left only with a shutdown request, so the assertion
  before the shutdown holds.
\<close>

theorem main_loop_keeps_table:
  assumes "main_loop os dk fuel c = (Ok (), c')" and "live_ok (services c)" and "length (services c) = MAX_NUM_SERVICES"
    and "forkpty_ok os"
  shows "live_ok (services c') \<and> same_config (services c) (services c') \<and> do_shutdown c'"
proof -
  have "live_ok (services c')"
    using live.runs_main_loop [OF assms(4,3), of dk fuel] assms(1,2) by (simp add: runs_def evolves_def)
  moreover have "same_config (services c) (services c')"
    using config.runs_main_loop [OF assms(4,3), of "services c" dk fuel] assms(1) by (simp add: runs_def evolves_def)
  ultimately show ?thesis using main_loop_shutdown [OF assms(1)] by blast
qed

theorem main_loop_keeps_table_witness:
  "live_ok (services (snd (main_loop sample_deaths quiet_disk 20 two_services)))"
proof -
  let ?r = "main_loop sample_deaths quiet_disk 20 two_services"
  have r: "?r = (Ok (), snd ?r)" by (rule prod_eqI) (simp_all, code_simp)
  have "live_ok (services two_services)" "length (services two_services) = MAX_NUM_SERVICES" "forkpty_ok sample_deaths"
    by (auto simp: live_ok_def two_services_def sizes forkpty_ok_def sample_deaths_def sample_os_def)
  from main_loop_keeps_table [OF r this] show ?thesis by blast
qed

text \<open>
  C39. When a service that runs at an interval is due: the interval is multiplied by \<open>1000\<close> in 32 bits, so it is the
  configured number of seconds up to \<open>4294967\<close>, and a shorter time beyond.
\<close>

theorem interval_in_seconds:
  assumes "interval (srv c sid) > 0" and "get_time os c = (Ok t, c1)" and "pid (srv c1 sid) = 0"
  shows "run_at_interval os dk sid c =
      (if unat (interval (srv c1 sid)) * 1000 mod 2 ^ 32 \<le> unat (t - start_time (srv c1 sid))
       then start_or_log os dk sid c1 else (Ok (), c1))
    \<and> (unat (interval (srv c1 sid)) * 1000 mod 2 ^ 32 = unat (interval (srv c1 sid)) * 1000
       \<longleftrightarrow> interval (srv c1 sid) \<le> 4294967)"
proof -
  have u: "unat (interval_msec s) = unat (interval s) * 1000 mod 2 ^ 32" for s
  proof -
    have "unat (interval s * 1000) < 2 ^ 32" using unsigned_less [of "interval s * 1000"] by simp
    then show ?thesis by (simp add: interval_msec_def unsigned_ucast_eq take_bit_nat_eq_self unat_word_ariths)
  qed
  have "unat (interval s) * 1000 mod 2 ^ 32 = unat (interval s) * 1000 \<longleftrightarrow> interval s \<le> 4294967" for s
  proof -
    have "interval s \<le> 4294967 \<longleftrightarrow> unat (interval s) \<le> 4294967" by (simp add: word_le_nat_alt)
    also have "\<dots> \<longleftrightarrow> unat (interval s) * 1000 < 2 ^ 32" by auto
    finally show ?thesis by (metis mod_less mod_less_divisor zero_less_numeral zero_less_power)
  qed
  then show ?thesis using assms by (auto simp: run_at_interval_def word_le_nat_alt u)
qed

theorem interval_in_seconds_witness:
  "run_at_interval (sample_os (\<lambda>_. NoChild)) quiet_disk 0
     (g_ctx\<lparr>ticks := 1471229, services := [zero_service\<lparr>srv_name := ''x'', interval := 31536000\<rparr>]\<rparr>)
   = start_or_log (sample_os (\<lambda>_. NoChild)) quiet_disk 0
     (g_ctx\<lparr>ticks := 1471230, services := [zero_service\<lparr>srv_name := ''x'', interval := 31536000\<rparr>]\<rparr>)"
  using interval_in_seconds [of "g_ctx\<lparr>ticks := 1471229, services := [zero_service\<lparr>srv_name := ''x'', interval := 31536000\<rparr>]\<rparr>" 0
      "sample_os (\<lambda>_. NoChild)" 1471229000
      "g_ctx\<lparr>ticks := 1471230, services := [zero_service\<lparr>srv_name := ''x'', interval := 31536000\<rparr>]\<rparr>" quiet_disk]
  by (simp add: get_time_def sample_os_def tick_def deliver_def zero_service_def)

text \<open>
  C40. A restart command without the name of a service fails an assertion, which ends the supervisor.
\<close>

theorem empty_restart_command_aborts:
  assumes "os_read os (ticks c) = Some bytes" and "clean_value (cstr (take 255 bytes)) = ''restart:''"
  shows "fst (handle_command os dk c) = Halt (AssertFailed ''service != NULL && service[0] != 0'')"
proof -
  have "take 255 bytes \<noteq> []" using assms(2) by (auto simp: clean_value_def first_line_def trim_str_def rtrim_str_def)
  then show ?thesis
    using assms by (simp add: handle_command_def run_command_def restart_command_def find_service_def)
qed

theorem empty_restart_command_aborts_witness:
  "fst (handle_command (sample_os (\<lambda>_. NoChild)\<lparr>os_read := \<lambda>_. Some (''restart:'' @ [LF])\<rparr>) quiet_disk g_ctx)
   = Halt (AssertFailed ''service != NULL && service[0] != 0'')"
proof (rule empty_restart_command_aborts)
  show "os_read (sample_os (\<lambda>_. NoChild)\<lparr>os_read := \<lambda>_. Some (''restart:'' @ [LF])\<rparr>) (ticks g_ctx) = Some (''restart:'' @ [LF])"
    by simp
  show "clean_value (cstr (take 255 (''restart:'' @ [LF]))) = ''restart:''" by code_simp
qed

end
