(* ===== verification/Boot.thy ===== *)
theory Boot
  imports MainLoop
begin

text \<open>
  The whole run of \<open>cinit\<close> seen through the processes it starts: loading, starting and the main loop together start a
  service only after the services it depends on.
\<close>

section \<open>Processes that are started\<close>

lemma forks_evolves: "evolves J K c c' \<Longrightarrow> J (services c) \<Longrightarrow> \<exists>zs. forks c' = forks c @ zs"
  by (auto simp: evolves_def forks_append)

text \<open>Stopping and reaping start nothing.\<close>

fun no_fork :: "action \<Rightarrow> bool" where
  "no_fork (Forked sid p) = False"
| "no_fork _ = True"

interpretation halting: stopping "\<lambda>_. True" no_fork
  by unfold_locales simp_all

lemma forks_none: "evolves (\<lambda>_. True) no_fork c c' \<Longrightarrow> forks c' = forks c"
proof -
  assume "evolves (\<lambda>_. True) no_fork c c'"
  then obtain new where n: "actions c' = actions c @ new" "\<forall>a\<in>set new. loud a \<longrightarrow> no_fork a" by (auto simp: evolves_def)
  have "List.map_filter (\<lambda>a. case a of Forked sid p \<Rightarrow> Some sid | _ \<Rightarrow> None) new = []"
    using n(2) by (induction new) (auto simp: List.map_filter_simps split: action.split)
  with forks_append [OF n(1)] show ?thesis by simp
qed

context stopping
begin

lemma runs_stop_all:
  assumes "\<forall>x\<in>set xs. x < 0 \<or> named (nat x) c"
  shows "runs J K c (stop_all os dk fuel xs c)"
  using assms
proof (induction xs arbitrary: c)
  case (Cons x xs)
  have n: "\<forall>y\<in>set xs. y < 0 \<or> named (nat y) c'" if "evolves J K c c'" for c'
    using Cons.prems evolves_named [OF that] by simp
  have l: "evolves J K d (log_err m d)" for m d by (rule evolves_core [OF same_core_log(2)])
  have stop: "runs J K c (bind_st (try_catch (stop_service os dk (nat x) c)
                  (\<lambda>e c1. (Ok (), log_err (''failed to stop service '' @ quoted (srv_name (srv c1 (nat x))) @ '': '' @ e) c1)))
          (\<lambda>_ c1. bind_st (child_handler os dk fuel 250 x c1) (\<lambda>all_gone c2.
             if all_gone then (Ok True, c2) else stop_all os dk fuel xs c2)))" if "\<not> x < 0"
  proof (rule runs_bind)
    have "named (nat x) c" using Cons.prems that by simp
    then show "runs J K c (try_catch (stop_service os dk (nat x) c)
        (\<lambda>e c1. (Ok (), log_err (''failed to stop service '' @ quoted (srv_name (srv c1 (nat x))) @ '': '' @ e) c1)))"
      by (intro runs_try runs_stop_service) (simp_all add: l)
    fix u c1 assume e1: "evolves J K c c1"
    show "runs J K c1 (bind_st (child_handler os dk fuel 250 x c1) (\<lambda>all_gone c2.
             if all_gone then (Ok True, c2) else stop_all os dk fuel xs c2))"
    proof (rule runs_bind [OF runs_child_handler])
      fix g c2 assume "evolves J K c1 c2"
      then have "evolves J K c c2" using e1 evolves_trans by blast
      then show "runs J K c2 (if g then (Ok True, c2) else stop_all os dk fuel xs c2)"
        using Cons.IH n by simp
    qed
  qed
  have "runs J K c (stop_all os dk fuel xs c)" using Cons n by simp
  with stop show ?case by (simp del: try_catch.simps)
qed simp

lemma runs_shutdown:
  assumes od: "\<forall>x\<in>set (start_order c). x < 0 \<or> named (nat x) c" and all: "\<And>sig. K (Signalled (- 1) sig)"
  shows "runs J K c (cinit_shutdown os dk fuel c)"
proof -
  have k: "evolves J K d (kill os (- 1) sig (log m d))" for sig m d
  proof -
    have t: "same_core d (tick os (log m d))" by (rule same_core_trans [OF same_core_log(1) same_core_tick])
    have "evolves J K (tick os (log m d)) (kill os (- 1) sig (log m d))"
      using all by (simp add: evolves_def kill_def say_def)
    then show ?thesis using evolves_trans [OF evolves_core [OF t]] by blast
  qed
  have c: "runs J K d (child_handler os dk fuel per s (kill os (- 1) sig (log m d)))" for per s sig m d
    by (rule runs_core [OF k runs_child_handler])
  show ?thesis
    unfolding cinit_shutdown_def
    by (intro runs_bind [OF runs_stop_all] runs_bind [OF runs_child_handler] runs_bind [OF c] runs_ignore c)
      (use od in \<open>auto intro!: runs_bind [OF runs_child_handler] runs_bind [OF c] runs_ignore c\<close>)
qed

end

section \<open>Bringing the services up\<close>

lemma order_table_takeWhile: "takeWhile (\<lambda>x. 0 \<le> x) (order_table F) = map int F"
proof -
  have "takeWhile (\<lambda>x. 0 \<le> x) (replicate n (- 1 :: int)) = []" for n by (cases n) simp_all
  then show ?thesis unfolding order_table_def by (subst takeWhile_append2) auto
qed

lemma to_start_table: "to_start c (order_table F) = filter (\<lambda>a. \<not> is_service_group (srv c a)) F"
  by (simp add: to_start_def order_table_takeWhile filter_map comp_def)

lemma loads_forks: "loads c c' \<Longrightarrow> forks c' = forks c"
  by (auto simp: loads_def load_frame_def quiet_actions_def forks_append no_forks)

text \<open>What \<open>bring_up\<close> starts, in terms of the table \<open>c1\<close> that was loaded.\<close>

lemma bring_up_started:
  assumes up: "bring_up env os dk lo fuel c = (r, c')" "\<forall>h. r \<noteq> Halt h" and ok: "nothing_loaded c" "forkpty_ok os"
    and load: "load_service_with_deps env dk lo fuel ''default'' (- 1) (log ''loading services...'' c) = (Ok (), c1)"
  shows "\<exists>F ys. load_inv c1 F [] \<and> forks c' = forks c @ ys
    \<and> started (\<lambda>a. ignore_failure (srv c1 a)) (r = Ok () \<and> \<not> do_shutdown c') (filter (\<lambda>a. \<not> is_service_group (srv c1 a)) F) ys"
proof -
  let ?c0 = "log ''loading services...'' c"
  define c2 where "c2 = log ''starting services...'' (widen_prefix (log ''all services loaded.'' c1))"
  have n0: "nothing_loaded ?c0" using ok(1) by (simp add: nothing_loaded_def log_say)
  then have t0: "table_ok ?c0" "num_services ?c0 = 0" by (simp_all add: nothing_loaded_def)
  obtain F where F: "load_inv c1 F []" using load_default_inv [OF load n0] by blast
  then have so: "start_order c1 = order_table F" "distinct F" "set F \<subseteq> {..<num_services c1}" by (auto simp: load_inv_def)
  have L: "loads ?c0 c1" using load_service_with_deps_loads [OF load t0(1)] by simp
  obtain n where w: "widen_prefix (log ''all services loaded.'' c1) = (log ''all services loaded.'' c1)\<lparr>log_prefix_length := n\<rparr>"
    using widen_prefix_frame by blast
  have c2: "services c2 = services c1" "start_order c2 = order_table F"
    using so(1) unfolding c2_def w by (simp_all add: log_say)
  have "forks (widen_prefix (log ''all services loaded.'' c1)) = forks c1"
    unfolding w using forks_same(2) [of "''all services loaded.''" c1] by (simp add: forks_def)
  then have f2: "forks c2 = forks c" using loads_forks [OF L] by (simp add: c2_def)
  obtain rs cs where st: "start_services os dk fuel c2 = (rs, cs)" by fastforce
  have eq: "bind_st (rs, cs) (\<lambda>_ c2. (Ok (), log ''all services started.'' c2)) = (r, c')"
    using up(1) by (simp add: bring_up_def load c2_def [symmetric] st)
  have nh: "\<forall>h. rs \<noteq> Halt h" using eq up(2) by (cases rs) auto
  have fin: "(rs = Ok () \<longleftrightarrow> r = Ok ()) \<and> forks c' = forks cs \<and> do_shutdown c' = do_shutdown cs"
    using eq nh by (cases rs) (auto simp: log_def say_def forks_def List.map_filter_def)
  have "named a c2 \<and> pid (srv c2 a) = 0" if "a \<in> set F" for a
  proof -
    have a: "a < num_services c1" using that so(3) by auto
    then have "loaded_ok ?c0 (srv_name (srv c1 a)) (srv c1 a)" using L t0(2) by (simp add: loads_def)
    then show ?thesis using a named_below [OF a] num_services_le [of c1] by (simp add: loaded_ok_def named_def c2)
  qed
  then have nm: "\<forall>x\<in>set (takeWhile (\<lambda>x. 0 \<le> x) (start_order c2)). named (nat x) c2 \<and> pid (srv c2 (nat x)) = 0"
    unfolding c2(2) order_table_takeWhile by simp
  have "distinct (takeWhile (\<lambda>x. 0 \<le> x) (start_order c2))"
    unfolding c2(2) order_table_takeWhile using so(2) by (simp add: distinct_map)
  from start_from_order [OF ok(2) st [unfolded start_services_def] nh nm this]
  obtain ys where ys: "forks cs = forks c2 @ ys"
      "started (\<lambda>a. ignore_failure (srv c2 a)) (rs = Ok () \<and> \<not> do_shutdown cs) (to_start c2 (start_order c2)) ys" by blast
  show ?thesis
    using F ys f2 fin unfolding c2 to_start_table by (intro exI [of _ F] exI [of _ ys]) simp
qed

section \<open>After that\<close>

lemma main_loop_stopped: "main_loop os dk fuel c = (Ok (), c') \<Longrightarrow> do_shutdown c \<Longrightarrow> c' = c"
  by (cases fuel) simp_all

lemma wind_down_forks:
  assumes "wind_down os dk fuel fd b c = (Ok status, c')" and "\<forall>x\<in>set (start_order c). x < 0 \<or> named (nat x) c"
  shows "forks c' = forks c"
proof -
  define c3 where "c3 = say (Unlinked CMD_FIFO_PATH) (if fd \<noteq> - 1 then say (ClosedFd fd) c else c)"
  have same: "same_core c c3" unfolding c3_def
    by (cases "fd = - 1") (auto intro: same_core_trans [OF same_core_say same_core_say] same_core_say)
  have od: "\<forall>x\<in>set (start_order c3). x < 0 \<or> named (nat x) c3" using assms(2) same by (simp add: same_core_def named_def)
  obtain c4 where sh: "cinit_shutdown os dk fuel c3 = (Ok (), c4)" and c': "c' = unload_services 0 c4"
    using assms(1) by (auto simp: wind_down_def Let_def bind_st_Ok c3_def [symmetric] split: if_splits)
  have "evolves (\<lambda>_. True) no_fork c3 c4" using halting.runs_shutdown [OF od, of os dk fuel] sh by (simp add: runs_def)
  then have "forks c4 = forks c" using forks_none forks_core [OF same] by simp
  moreover obtain ss where "c' = c4\<lparr>services := ss\<rparr>" using unload_services_frame c' by blast
  ultimately show ?thesis by (simp add: forks_def)
qed

text \<open>The run in two parts: what is started by \<open>bring_up\<close>, and what is started later, which is nothing after a shutdown request.\<close>

lemma supervise_forks:
  assumes run: "supervise env os dk lo fuel fd c = (Ok status, c')" and ok: "nothing_loaded c" "forkpty_ok os"
  obtains r c0 zs where "bring_up env os dk lo fuel c = (r, c0)" "\<forall>h. r \<noteq> Halt h" "forks c' = forks c0 @ zs"
    "r \<noteq> Ok () \<or> do_shutdown c0 \<Longrightarrow> zs = [] \<or> r = Exn cexception_none"
proof -
  obtain r0 c0 where up: "bring_up env os dk lo fuel c = (r0, c0)" by fastforce
  obtain c1 c2 where t: "try_catch (r0, c0) (\<lambda>e c1. (Ok (), request_shutdown (log e c1))) = (Ok (), c1)"
    and ml: "main_loop os dk fuel c1 = (Ok (), c2)" and w: "wind_down os dk fuel fd (raised r0) c2 = (Ok status, c')"
    using run unfolding supervise_def up Let_def bind_st_Ok fst_conv by auto
  have nh: "\<forall>h. r0 \<noteq> Halt h" using t by (cases r0) auto
  note U = bring_up_frame [OF up nh ok]
  have c1: "services c1 = services c0" "start_order c1 = start_order c0" "forks c1 = forks c0"
      "do_shutdown c0 \<longrightarrow> do_shutdown c1" "(\<exists>e. r0 = Exn e \<and> e \<noteq> cexception_none) \<longrightarrow> do_shutdown c1"
    using t by (cases r0; auto simp: request_shutdown_def log_say forks_def List.map_filter_def say_def split: if_splits)+
  have l1: "length (services c1) = MAX_NUM_SERVICES" using U c1(1) by simp
  have e: "evolves (same_config (services c1)) (\<lambda>_. True) c1 c2"
    using config.runs_main_loop [OF ok(2) l1, of "services c1" dk fuel] ml by (simp add: runs_def)
  obtain zs where zs: "forks c2 = forks c1 @ zs" using forks_evolves [OF e] by auto
  have "\<forall>x\<in>set (start_order c1). x < 0 \<or> named (nat x) c1"
    using U c1 num_services_le [of c0] named_below [of _ c0] by (fastforce simp: order_ok_def named_def)
  then have "\<forall>x\<in>set (start_order c2). x < 0 \<or> named (nat x) c2"
    using e evolves_named [OF e] by (simp add: evolves_def)
  then have fc: "forks c' = forks c0 @ zs" using wind_down_forks [OF w] zs c1(3) by simp
  have "zs = [] \<or> r0 = Exn cexception_none" if "r0 \<noteq> Ok () \<or> do_shutdown c0"
  proof (cases "do_shutdown c1")
    case True
    then show ?thesis using main_loop_stopped [OF ml] zs by simp
  next
    case False
    then show ?thesis using that c1(4,5) nh by (cases r0) auto
  qed
  then show thesis using that [OF up nh fc] by blast
qed

lemma start_failed_message: "start_failed sid e c = (Exn m, c') \<Longrightarrow> m \<noteq> cexception_none"
  by (auto simp: start_failed_def Let_def throw_message_def cexception_none_def split: if_splits)

lemma start_from_message: "start_from os dk fuel xs c = (Exn m, c') \<Longrightarrow> m \<noteq> cexception_none"
proof (induction xs arbitrary: c)
  case (Cons x xs)
  show ?case
  proof (cases "x < 0 \<or> is_service_group (srv c (nat x)) \<or> do_shutdown c")
    case False
    obtain r2 c2 where t: "try_catch (start_and_wait os dk fuel (nat x) c) (start_failed (nat x)) = (r2, c2)" by fastforce
    have rest: "bind_st (r2, c2) (\<lambda>_. start_from os dk fuel xs) = (Exn m, c')"
      using Cons.prems False t by (simp del: try_catch.simps)
    obtain r1 c1 where sw: "start_and_wait os dk fuel (nat x) c = (r1, c1)" by fastforce
    show ?thesis
    proof (cases r2)
      case (Ok u)
      then show ?thesis using rest Cons.IH by simp
    next
      case (Exn e)
      then have "e = m" using rest by simp
      then show ?thesis using t Exn start_failed_message unfolding sw by (cases r1) (auto split: if_splits)
    qed (use rest in simp)
  qed (use Cons in \<open>auto split: if_splits\<close>)
qed simp

lemma bring_up_message:
  assumes "load_service_with_deps env dk lo fuel ''default'' (- 1) (log ''loading services...'' c) = (Ok (), c1)"
    and "bring_up env os dk lo fuel c = (Exn m, c')"
  shows "m \<noteq> cexception_none"
proof -
  obtain c2 where "bind_st (start_services os dk fuel c2) (\<lambda>_ c2. (Ok (), log ''all services started.'' c2)) = (Exn m, c')"
    using assms by (simp add: bring_up_def)
  then have "\<exists>c3. start_services os dk fuel c2 = (Exn m, c3)"
    by (cases "start_services os dk fuel c2"; cases "fst (start_services os dk fuel c2)") auto
  then show ?thesis unfolding start_services_def using start_from_message by blast
qed

section \<open>Two services\<close>

text \<open>\<open>default\<close> depends on \<open>a\<close>; both have a program. The container is asked to stop after a while.\<close>

definition boot_disk :: disk where
  "boot_disk = tree_disk\<lparr>dk_exists := (\<lambda>_ f. f = ''run''), dk_executable := (\<lambda>_ f. f = ''run'')\<rparr>"

definition boot_os :: os where
  "boot_os = (sample_os (\<lambda>t. if t < 20 then StillRunning else NoChild))\<lparr>os_signal := (\<lambda>t. if t = 18 then Some SIGTERM else None)\<rparr>"

definition boot_loaded :: cinit where
  "boot_loaded = snd (load_service_with_deps env0 boot_disk (\<lambda>_ _. True) 9 ''default'' (- 1) (log ''loading services...'' main_ctx))"

definition boot_run :: cinit where
  "boot_run = snd (supervise env0 boot_os boot_disk (\<lambda>_ _. True) 9 5 main_ctx)"

lemma boot_load:
  "load_service_with_deps env0 boot_disk (\<lambda>_ _. True) 9 ''default'' (- 1) (log ''loading services...'' main_ctx) = (Ok (), boot_loaded)"
  unfolding boot_loaded_def by (rule prod_eqI) (simp_all, code_simp)

lemma boot_table:
  "num_services boot_loaded = 2 \<and> requests boot_loaded = [(''default'', - 1), (''a'', 0)]
   \<and> srv_name (srv boot_loaded 0) = ''default'' \<and> srv_name (srv boot_loaded 1) = ''a''
   \<and> \<not> disabled (srv boot_loaded 1) \<and> \<not> is_service_group (srv boot_loaded 1) \<and> \<not> ignore_failure (srv boot_loaded 1)"
  by code_simp

lemma boot_depends: "depends_on boot_loaded = {(0, 1)}"
  using boot_table by (auto simp: depends_on_def less_2_cases_iff)

lemma boot_supervised: "supervise env0 boot_os boot_disk (\<lambda>_ _. True) 9 5 main_ctx = (Ok 0, boot_run)"
  unfolding boot_run_def by (rule prod_eqI) (simp_all, code_simp)

lemma subseq_pair_split:
  assumes "subseq [d, s] ys" and "distinct ys"
  obtains pre post where "ys = pre @ post" "d \<in> set pre" "s \<notin> set pre"
proof -
  obtain us vs where u: "ys = us @ d # vs" "subseq [s] vs" using list_emb_ConsD [OF assms(1)] by blast
  then have "s \<in> set vs" by (simp add: subseq_singleton_left)
  then have "s \<notin> set (us @ [d])" using assms(2) u(1) by auto
  then show thesis using that [of "us @ [d]" vs] u(1) by simp
qed

section \<open>Properties\<close>

text \<open>
  C1. Dependencies start first. Take a service \<open>s\<close> whose directory requests \<open>d\<close>, where the requests have no cycle and \<open>d\<close>
  is an enabled service with a program that may not fail. If the run ever starts \<open>s\<close> (when the services come up, or later, at an
  interval, after its death, or on a command), then a process of \<open>d\<close> was started before the first one of \<open>s\<close>.
\<close>

theorem dependencies_start_first:
  assumes "nothing_loaded c" and "forkpty_ok os" and "forks c = []"
    and "load_service_with_deps env dk lo fuel ''default'' (- 1) (log ''loading services...'' c) = (Ok (), c1)"
    and "acyclic (depends_on c1)" and "(s, d) \<in> depends_on c1"
    and "\<not> disabled (srv c1 d)" and "\<not> is_service_group (srv c1 d)" and "\<not> ignore_failure (srv c1 d)"
    and "supervise env os dk lo fuel fd c = (Ok status, c')" and "s \<in> set (forks c')"
  shows "\<exists>pre post. forks c' = pre @ post \<and> d \<in> set pre \<and> s \<notin> set pre"
proof -
  obtain r c0 zs where up: "bring_up env os dk lo fuel c = (r, c0)" "\<forall>h. r \<noteq> Halt h" and fk: "forks c' = forks c0 @ zs"
    and later: "r \<noteq> Ok () \<or> do_shutdown c0 \<Longrightarrow> zs = [] \<or> r = Exn cexception_none"
    using supervise_forks [OF assms(10,1,2)] by blast
  let ?f = "\<lambda>a. ignore_failure (srv c1 a)" and ?g = "\<lambda>a. \<not> is_service_group (srv c1 a)"
  obtain F ys where F: "load_inv c1 F []" and ys: "forks c0 = ys" "started ?f (r = Ok () \<and> \<not> do_shutdown c0) (filter ?g F) ys"
    using bring_up_started [OF up assms(1,2,4)] assms(3) by auto
  have before: "subseq [d, s] F" by (rule requested_before [OF F assms(5,6,7)])
  show ?thesis
  proof (cases "s \<in> set ys")
    case True
    then have "?g s" using ys(2) list_emb_set [of "(=)" ys "filter ?g F" s] by (auto simp: started_def)
    then have "subseq [d, s] (filter ?g F)" using subseq_filter [OF before, of ?g] assms(8) by simp
    then have "subseq [d, s] ys" using started_pair [OF ys(2)] True assms(9) by blast
    moreover have "distinct ys"
      using ys(2) F by (auto simp: started_def load_inv_def subseq_conv_nths distinct_nthsI)
    ultimately obtain pre post where "ys = pre @ post" "d \<in> set pre" "s \<notin> set pre" by (rule subseq_pair_split)
    then show ?thesis using fk ys(1) by (intro exI [of _ pre] exI [of _ "post @ zs"]) simp
  next
    case False
    then have "zs \<noteq> []" using assms(11) fk ys(1) by auto
    then have "r = Ok () \<and> \<not> do_shutdown c0" using later bring_up_message [OF assms(4)] up(1) by blast
    moreover have "d \<in> set (filter ?g F)" using list_emb_set [OF before, of d] assms(8) by auto
    ultimately have "d \<in> set ys" using ys(2) assms(9) by (simp add: started_def)
    then show ?thesis using fk ys(1) False by blast
  qed
qed

theorem dependencies_start_first_witness:
  "forks boot_run = [1, 0] \<and> (\<exists>pre post. forks boot_run = pre @ post \<and> 1 \<in> set pre \<and> 0 \<notin> set pre)"
proof -
  have f: "forks boot_run = [1, 0]" by code_simp
  have os: "forkpty_ok boot_os" by (auto simp: forkpty_ok_def boot_os_def sample_os_def)
  have n: "forks main_ctx = []" by code_simp
  have ac: "acyclic (depends_on boot_loaded)"
    unfolding boot_depends by (rule acyclicI_order [where f = "\<lambda>x. 1 - x"]) auto
  have "\<exists>pre post. forks boot_run = pre @ post \<and> 1 \<in> set pre \<and> 0 \<notin> set pre"
    by (rule dependencies_start_first [OF main_ctx_nothing_loaded os n boot_load ac _ _ _ _ boot_supervised])
      (use boot_depends boot_table f in simp_all)
  with f show ?thesis by blast
qed

end
