(* ===== verification/Steps.thy ===== *)
theory Steps
  imports MainLoop
begin

text \<open>
  The supervisor of \<open>src/src/cinit/cinit.c\<close> as a transition system: every operation of the running phase is a sequence of
  elementary steps (a system call, at which a signal may be delivered, an output, a write to a table entry, a change of
  the directory, a shutdown request). Invariants of the steps hold of every operation, halted ones included; from
  them follows that a termination signal ends the main loop.
\<close>

section \<open>Elementary steps\<close>

text \<open>A status that \<open>waitpid\<close> has reported so far.\<close>

definition reported :: "os \<Rightarrow> cinit \<Rightarrow> wstatus \<Rightarrow> bool" where
  "reported os c status \<longleftrightarrow> (\<exists>t < ticks c. \<exists>p q. os_waitpid os t p = Reaped q status)"

text \<open>
  A write to an entry keeps the name and the flag \<open>shutdown_on_terminate\<close>; the exit code is written once, with the request
  for a shutdown, and stands for a reported status.
\<close>

definition keeps :: "(service \<Rightarrow> service) \<Rightarrow> bool" where
  [simp]: "keeps f \<longleftrightarrow> (\<forall>s. srv_name (f s) = srv_name s \<and> shutdown_on_terminate (f s) = shutdown_on_terminate s)"

inductive sys_step :: "os \<Rightarrow> cinit \<Rightarrow> cinit \<Rightarrow> bool" for os where
  call: "sys_step os c (tick os c)"
| put: "sys_step os c (say a c)"
| entry: "keeps f \<Longrightarrow> sys_step os c (upd_srv sid f c)"
| directory: "sys_step os c (c\<lparr>cwd := w\<rparr>)"
| request: "sys_step os c (request_shutdown c)"
| blame: "\<not> do_shutdown c \<Longrightarrow> named sid c \<Longrightarrow> shutdown_on_terminate (srv c sid) \<Longrightarrow> reported os c status
    \<Longrightarrow> sys_step os c ((request_shutdown c)\<lparr>exit_code := exit_status_of 1 status\<rparr>)"

inductive_cases sys_stepE: "sys_step os c c'"

abbreviation sys_steps :: "os \<Rightarrow> cinit \<Rightarrow> cinit \<Rightarrow> bool" where
  "sys_steps os \<equiv> (sys_step os)\<^sup>*\<^sup>*"

definition does :: "os \<Rightarrow> cinit \<Rightarrow> 'a res \<times> cinit \<Rightarrow> bool" where
  "does os c p \<longleftrightarrow> sys_steps os c (snd p)"

named_theorems steps

lemma does_return [simp]: "does os c (r, c') \<longleftrightarrow> sys_steps os c c'"
  by (simp add: does_def)

lemma does_bind: "does os c p \<Longrightarrow> (\<And>x c1. p = (Ok x, c1) \<Longrightarrow> does os c1 (f x c1)) \<Longrightarrow> does os c (bind_st p f)"
  by (cases p; cases "fst p") (auto simp: does_def)

lemma does_try: "does os c p \<Longrightarrow> (\<And>e c1. p = (Exn e, c1) \<Longrightarrow> does os c1 (h e c1)) \<Longrightarrow> does os c (try_catch p h)"
  by (cases p; cases "fst p") (auto simp: does_def)

lemma does_if: "(b \<Longrightarrow> does os c p) \<Longrightarrow> (\<not> b \<Longrightarrow> does os c q) \<Longrightarrow> does os c (if b then p else q)"
  by simp

lemma does_after: "sys_steps os c c1 \<Longrightarrow> does os c1 p \<Longrightarrow> does os c p"
  unfolding does_def by (rule rtranclp_trans)

lemma steps_tick [steps]: "sys_steps os c (tick os c)"
  by (rule r_into_rtranclp, rule sys_step.call)

lemma steps_say [steps]: "sys_steps os c (say a c)"
  by (rule r_into_rtranclp, rule sys_step.put)

lemma steps_upd [steps]: "keeps f \<Longrightarrow> sys_steps os c (upd_srv sid f c)"
  by (rule r_into_rtranclp, rule sys_step.entry)

lemma steps_cwd [steps]: "sys_steps os c (c\<lparr>cwd := w\<rparr>)"
  by (rule r_into_rtranclp, rule sys_step.directory)

lemma steps_log [steps]:
  "sys_steps os c (log m c)" "sys_steps os c (log_err m c)" "sys_steps os c (log_fatal m c)" "sys_steps os c (log_debug m c)"
  by (simp_all add: log_def log_err_def log_fatal_def log_debug_def steps_say)

lemma steps_request [steps]: "sys_steps os c (request_shutdown c)"
  by (rule r_into_rtranclp, rule sys_step.request)

lemmas after = rtranclp_trans [of "sys_step os" for os]

lemma steps_msleep [steps]: "sys_steps os c (msleep os ms c)"
  unfolding msleep_def by (rule after [OF steps_tick steps_say])

lemma steps_kill [steps]: "sys_steps os c (kill os p sig c)"
  unfolding kill_def by (rule after [OF steps_tick steps_say])

lemma ticks_step: "sys_step os c c' \<Longrightarrow> ticks c \<le> ticks c'"
  by (erule sys_stepE) (simp_all add: say_def upd_srv_def request_shutdown_def)

lemma ticks_steps: "sys_steps os c c' \<Longrightarrow> ticks c \<le> ticks c'"
  by (induction rule: rtranclp_induct) (auto dest: ticks_step)

lemma reported_steps: "sys_steps os c c' \<Longrightarrow> reported os c status \<Longrightarrow> reported os c' status"
  unfolding reported_def by (meson ticks_steps less_le_trans)

lemma step_table:
  "sys_step os c c' \<Longrightarrow> map (\<lambda>s. (srv_name s, shutdown_on_terminate s)) (services c')
     = map (\<lambda>s. (srv_name s, shutdown_on_terminate s)) (services c)"
  by (erule sys_stepE) (simp_all add: say_def upd_srv_def request_shutdown_def map_update_same)

lemma steps_table:
  "sys_steps os c c' \<Longrightarrow> map (\<lambda>s. (srv_name s, shutdown_on_terminate s)) (services c')
     = map (\<lambda>s. (srv_name s, shutdown_on_terminate s)) (services c)"
  by (induction rule: rtranclp_induct) (auto dest: step_table)

lemma steps_entry:
  assumes "sys_steps os c c'" and "sid < length (services c)"
  shows "srv_name (srv c' sid) = srv_name (srv c sid) \<and> shutdown_on_terminate (srv c' sid) = shutdown_on_terminate (srv c sid)"
proof -
  note t = steps_table [OF assms(1)]
  then have l: "length (services c') = length (services c)" by (metis length_map)
  have "map (\<lambda>s. (srv_name s, shutdown_on_terminate s)) (services c') ! sid
      = map (\<lambda>s. (srv_name s, shutdown_on_terminate s)) (services c) ! sid" using t by simp
  then show ?thesis using assms(2) l by simp
qed

lemma named_steps: "sys_steps os c c' \<Longrightarrow> named sid c \<Longrightarrow> named sid c'"
  using steps_entry [of os c c' sid] steps_table [of os c c'] by (auto simp: named_def dest: map_eq_imp_length_eq)

section \<open>The operations as sequences of steps\<close>

lemma does_throw [simp]:
  "does os c (throw_message m, c') \<longleftrightarrow> sys_steps os c c'" "does os c (throw_message_errno m err, c') \<longleftrightarrow> sys_steps os c c'"
  by (simp_all add: does_def)

lemma does_get_time [steps]: "does os c (get_time os c)"
  by (auto simp: get_time_def no_time_def steps_tick after [OF steps_tick steps_log(3)] split: clock_answer.split sum.split)

lemma does_chdir [steps]: "does os c (chdir_to_service dk name c)"
  by (auto simp: chdir_to_service_def Let_def steps_cwd does_def)

lemma steps_fold: "(\<And>x c. sys_steps os c (f x c)) \<Longrightarrow> sys_steps os c (fold f xs c)"
  by (induction xs arbitrary: c) (auto intro: after)

lemma does_exec [steps]: "does os c (exec_service_cmd os sid cmd path arg c)"
proof -
  have 1: "sys_steps os c (say a (tick os c))" for a by (rule after [OF steps_tick steps_say])
  have "sys_steps os c (fold say_line ls (say a (tick os c)))" for ls a
    by (rule after [OF 1 steps_fold]) (simp add: say_line_def steps_say)
  with 1 show ?thesis by (auto simp: exec_service_cmd_def Let_def split: res.split option.split)
qed

lemma does_ignore: "does os c p \<Longrightarrow> does os c (ignore p)"
  unfolding ignore_def by (rule does_bind) simp_all

lemma does_fork_and_exec [steps]: "does os c (fork_and_exec os sid c)"
  by (auto simp: fork_and_exec_def steps_tick intro: after [OF after [OF steps_tick steps_say] steps_upd] split: option.split)

lemma does_start_logger [steps]: "does os c (start_logger os sid c)"
proof -
  have "keeps f \<Longrightarrow> sys_steps os c (tick os (upd_srv sid f c))" for f by (rule after [OF steps_upd steps_tick])
  then show ?thesis
    by (auto simp: start_logger_def Let_def intro: after [OF after [OF _ steps_say] steps_upd] split: option.split)
qed

lemma does_fork_attempts [steps]: "does os c (fork_attempts os n sid c)"
proof (induction n arbitrary: c)
  case (Suc n)
  have g: "does os c1 (bind_st (get_time os (log_debug m (upd_srv sid f c1)))
      (\<lambda>t c3. start_logger os sid (upd_srv sid (\<lambda>s. s\<lparr>start_time := t\<rparr>) c3)))" if "keeps f" for c1 m f
    by (rule does_after [OF after [OF steps_upd [OF that] steps_log(4)]], rule does_bind [OF does_get_time],
        rule does_after [OF steps_upd does_start_logger]) simp
  have r: "does os c1 (fork_attempts os n sid (msleep os 500 (upd_srv sid f c1)))" if "keeps f" for c1 f
    by (rule does_after [OF after [OF steps_upd [OF that] steps_msleep] Suc.IH])
  show ?case
    unfolding fork_attempts.simps Let_def by (intro does_bind [OF does_fork_and_exec] does_if g r) simp_all
qed simp

lemma does_start_service [steps]: "does os c (start_service os dk sid c)"
proof -
  have "sys_steps os c (announce_start sid c)" by (simp add: announce_start_def Let_def steps_log)
  then show ?thesis
    unfolding start_service_def
    by (intro does_if does_after [OF _ does_bind [OF does_chdir does_fork_attempts]]) simp_all
qed

lemma does_stop_service [steps]: "does os c (stop_service os dk sid c)"
  unfolding stop_service_def Let_def
  by (intro does_if does_after [OF steps_log(1) does_bind [OF does_chdir]] does_bind does_ignore does_exec)
    (simp_all add: steps_kill)

lemma does_join_logger [steps]: "does os c (join_logger os sid c)"
proof -
  have "keeps f \<Longrightarrow> sys_steps os c (tick os (upd_srv sid f (log_debug m c)))" for f m
    by (rule after [OF after [OF steps_log(4) steps_upd] steps_tick])
  then show ?thesis
    by (auto simp: join_logger_def Let_def intro: after [OF after [OF after [OF _ steps_say] steps_log(4)] steps_upd]
        split: option.split)
qed

lemma steps_close_output [steps]: "sys_steps os c (close_output sid c)"
  by (simp add: close_output_def after [OF steps_say steps_upd])

lemma does_run_finish [steps]: "does os c (run_finish os dk sid status c)"
  unfolding run_finish_def
  by (intro does_try does_bind [OF does_chdir] does_if does_ignore does_exec) (simp_all add: steps_log)

lemma steps_trigger [steps]: "named sid c \<Longrightarrow> reported os c status \<Longrightarrow> sys_steps os c (trigger_shutdown sid status c)"
proof -
  assume n: "named sid c" and r: "reported os c status"
  let ?c1 = "log (''service '' @ quoted (srv_name (srv c sid)) @ '' exited, shutting down...'') c"
  have "sys_step os ?c1 ((request_shutdown ?c1)\<lparr>exit_code := exit_status_of 1 status\<rparr>)"
    if "\<not> do_shutdown c" "shutdown_on_terminate (srv c sid)"
    using that n r by (intro sys_step.blame [of _ sid]) (simp_all add: log_say say_def named_def reported_def)
  then show ?thesis by (auto simp: trigger_shutdown_def intro: after [OF steps_log(1) r_into_rtranclp])
qed

lemma does_handle_killed [steps]:
  assumes "killed \<noteq> 0 \<and> killed \<noteq> - 1 \<longrightarrow> reported os c status"
  shows "does os c (handle_killed os dk killed status c)"
proof (cases "killed = - 1 \<or> killed = 0 \<or> find_service_by_pid killed c = None")
  case True
  then show ?thesis by (auto simp: handle_killed_def)
next
  case False
  then obtain sid where sid: "find_service_by_pid killed c = Some sid" by blast
  have n: "named sid c" using sid num_services_le [of c] named_below [of sid c]
    by (auto simp: find_service_by_pid_def named_def dest!: find_index_Some)
  let ?c1 = "upd_srv sid (\<lambda>s. s\<lparr>pid := 0\<rparr>) (log_exit sid status c)"
  have s1: "sys_steps os c ?c1"
    by (rule after [OF _ steps_upd]) (simp_all add: log_exit_def steps_log split: wstatus.split)
  have rest: "does os c2 (bind_st (run_finish os dk sid status (close_output sid c2)) (\<lambda>_ c3. (Ok (), trigger_shutdown sid status c3)))"
    if "sys_steps os ?c1 c2" for c2
  proof (rule does_bind [OF does_after [OF steps_close_output does_run_finish]])
    fix u c3 assume "run_finish os dk sid status (close_output sid c2) = (Ok u, c3)"
    then have "sys_steps os (close_output sid c2) c3" using does_run_finish [of os "close_output sid c2" dk sid status] by simp
    then have "sys_steps os c c3" using after [OF after [OF s1 that] after [OF steps_close_output]] by blast
    then have "named sid c3" "reported os c3 status" using named_steps reported_steps n assms False by blast+
    then show "does os c3 (Ok (), trigger_shutdown sid status c3)" by (simp add: steps_trigger)
  qed
  have "does os ?c1 (bind_st (join_logger os sid ?c1) (\<lambda>_ c2.
       bind_st (run_finish os dk sid status (close_output sid c2)) (\<lambda>_ c3. (Ok (), trigger_shutdown sid status c3))))"
    by (rule does_bind [OF does_join_logger rest]) (use does_join_logger [of os ?c1 sid] in simp)
  then show ?thesis using False sid by (simp add: handle_killed_def does_after [OF s1])
qed

text \<open>The status that a call of \<open>waitpid\<close> gives is reported afterwards.\<close>

lemma reported_reaped:
  "reaped_pid (os_waitpid os (ticks c) p) \<noteq> 0 \<Longrightarrow> reaped_pid (os_waitpid os (ticks c) p) \<noteq> - 1
    \<Longrightarrow> reported os (tick os c) (reaped_status (os_waitpid os (ticks c) p))"
  by (cases "os_waitpid os (ticks c) p") (auto simp: reported_def)

lemma does_reap [steps]: "does os c (reap os dk fuel c)"
proof (induction fuel arbitrary: c)
  case (Suc fuel)
  show ?case
    unfolding reap.simps Let_def
    by (intro does_bind [OF does_after [OF steps_tick does_handle_killed]] does_if Suc.IH)
      (auto simp: reported_reaped)
qed simp

lemma does_child_loop [steps]: "does os c (child_loop os dk fuel now period service c)"
proof (induction fuel arbitrary: c)
  case (Suc fuel)
  have p: "does os c (period_over os period now c)" for c
    unfolding period_over_def by (intro does_if does_bind [OF does_get_time]) simp_all
  show ?case
    unfolding child_loop.simps
    by (intro does_bind [OF does_reap] does_if does_bind [OF p] does_after [OF steps_msleep Suc.IH]) simp_all
qed simp

lemma does_child_handler [steps]: "does os c (child_handler os dk fuel period service c)"
  unfolding child_handler_def by (rule does_bind [OF does_get_time does_child_loop])

lemma does_for_each: "(\<And>sid c. does os c (body sid c)) \<Longrightarrow> does os c (for_each body sid c)"
proof (induction "MAX_NUM_SERVICES - sid" arbitrary: sid c)
  case 0
  then show ?case by (subst for_each.simps) simp
next
  case (Suc n)
  show ?case 
    using Suc.hyps(2) by (subst for_each.simps) (auto intro!: does_bind [OF Suc.prems] Suc.hyps(1) simp: Suc.prems)
qed

lemma does_run_at_interval [steps]: "does os c (run_at_interval os dk sid c)"
  unfolding run_at_interval_def start_or_log_def
  by (intro does_if does_bind [OF does_get_time] does_bind [OF does_after [OF steps_log(2) does_get_time]]
      does_try does_start_service) (simp_all add: steps_upd steps_log)

lemma does_restart_service [steps]: "does os c (restart_service os dk sid c)"
  unfolding restart_service_def
  by (intro does_if does_bind [OF does_get_time] does_try does_bind [OF does_after [OF steps_log(1) does_start_service]])
    (simp_all add: steps_upd steps_log)

lemma does_request_restart [steps]: "does os c (request_restart os dk sid c)"
  unfolding request_restart_def
  by (intro does_try does_bind [OF does_after [OF steps_log(1) does_stop_service]]) (simp_all add: steps_upd steps_log)

lemma does_handle_command [steps]: "does os c (handle_command os dk c)"
proof -
  have "does os c (run_command os dk buf c)" for buf c
    by (simp add: run_command_def Let_def find_service_def steps_log does_request_restart split: option.split)
  then show ?thesis
    by (auto simp: handle_command_def Let_def steps_tick intro: does_after [OF steps_tick] split: option.split)
qed

section \<open>Signals are not lost\<close>

text \<open>Once the call of tick \<open>T\<close> is over, a termination signal delivered at it has become a shutdown request.\<close>

definition term_signal :: "os \<Rightarrow> nat \<Rightarrow> bool" where
  "term_signal os T \<longleftrightarrow> os_signal os T = Some SIGINT \<or> os_signal os T = Some SIGTERM"

definition heard :: "nat \<Rightarrow> cinit \<Rightarrow> bool" where
  "heard T c \<longleftrightarrow> (T < ticks c \<longrightarrow> do_shutdown c)"

lemma heard_step: "sys_step os c c' \<Longrightarrow> term_signal os T \<Longrightarrow> heard T c \<Longrightarrow> heard T c'"
  by (erule sys_stepE)
    (auto simp: heard_def term_signal_def tick_def deliver_def sigint_def sigterm_def request_shutdown_def log_def say_def
       upd_srv_def less_Suc_eq)

lemma heard_steps: "sys_steps os c c' \<Longrightarrow> term_signal os T \<Longrightarrow> heard T c \<Longrightarrow> heard T c'"
  by (induction rule: rtranclp_induct) (auto intro: heard_step)

section \<open>The main loop hears them\<close>

text \<open>From tick \<open>Q\<close> on \<open>waitpid\<close> reports no dead child any more: running ones, or none.\<close>

definition calm_from :: "os \<Rightarrow> nat \<Rightarrow> bool" where
  "calm_from os Q \<longleftrightarrow> (\<forall>t \<ge> Q. os_waitpid os t (- 1) \<in> {StillRunning, NoChild})"

lemma settles_does:
  "fst p \<noteq> Halt NoFuel \<Longrightarrow> does os c p \<Longrightarrow> settles p (\<lambda>_ c'. sys_steps os c c')"
  by (rule settlesI) (auto simp: does_def)

lemma reap_settles:
  "calm_from os Q \<Longrightarrow> Q - ticks c < fuel \<Longrightarrow> fst (reap os dk fuel c) \<noteq> Halt NoFuel"
proof (induction fuel arbitrary: c)
  case (Suc fuel)
  let ?w = "os_waitpid os (ticks c) (- 1)"
  obtain r c1 where h: "handle_killed os dk (reaped_pid ?w) (reaped_status ?w) (tick os c) = (r, c1)" by fastforce
  have nf: "r \<noteq> Halt NoFuel" using handle_killed_no_fuel h by (metis fst_conv)
  have t1: "Suc (ticks c) \<le> ticks c1"
    using ticks_steps [of os "tick os c" c1] h reported_reaped [of os c "- 1"]
      does_handle_killed [of "reaped_pid ?w" os "tick os c" "reaped_status ?w" dk]
    by (simp add: does_def)
  show ?case
  proof (cases "reaped_pid ?w \<noteq> 0 \<and> reaped_pid ?w \<noteq> - 1")
    case True
    then have "\<not> Q \<le> ticks c" using Suc.prems(1) by (auto simp: calm_from_def)
    then have "fst (reap os dk fuel c1) \<noteq> Halt NoFuel" using Suc t1 by simp
    with True h nf show ?thesis by (cases r) (simp_all add: Let_def)
  next
    case False
    with h nf show ?thesis by (cases r) (auto simp: Let_def)
  qed
qed simp

text \<open>With period \<open>0\<close> the loop of \<open>child_handler\<close> makes one pass.\<close>

lemma child_handler_settles_calm:
  assumes "calm_from os Q" and "Q - ticks c + 1 < fuel"
  shows "settles (child_handler os dk fuel 0 (- 1) c) (\<lambda>_ c'. sys_steps os c c')"
proof (rule settles_does [OF _ does_child_handler])
  have "fst (child_loop os dk fuel now 0 (- 1) c1) \<noteq> Halt NoFuel" if "ticks c \<le> ticks c1" for now c1
  proof -
    obtain f where f: "fuel = Suc f" using assms(2) by (cases fuel) auto
    have "fst (reap os dk f c1) \<noteq> Halt NoFuel" using reap_settles [OF assms(1)] assms(2) f that by simp
    then show ?thesis by (auto simp: f no_fuel period_over_def)
  qed
  moreover have "ticks c \<le> ticks c1" if "get_time os c = (Ok t, c1)" for t c1
    using does_get_time [of os c] ticks_steps that by (auto simp: does_def)
  ultimately show "fst (child_handler os dk fuel 0 (- 1) c) \<noteq> Halt NoFuel"
    by (auto simp: child_handler_def no_fuel)
qed

lemma try_no_fuel [no_fuel]:
  "(\<And>e c. fst (h e c) = Ok ()) \<Longrightarrow> fst (try_catch p h) = Halt NoFuel \<longleftrightarrow> fst p = Halt NoFuel"
  by (cases p; cases "fst p") auto

lemma fork_attempts_no_fuel [no_fuel]: "fst (fork_attempts os n sid c) \<noteq> Halt NoFuel"
proof (induction n arbitrary: c)
  case (Suc n)
  have "fst (start_logger os sid x) \<noteq> Halt NoFuel" for x
    by (simp add: start_logger_def Let_def no_fuel split: option.split)
  moreover have "fst (fork_and_exec os sid c) \<noteq> Halt NoFuel" by (simp add: fork_and_exec_def split: option.split)
  ultimately show ?case using Suc by (auto simp: no_fuel Let_def)
qed (simp add: no_fuel)

lemma start_service_no_fuel [no_fuel]: "fst (start_service os dk sid c) \<noteq> Halt NoFuel"
  by (auto simp: start_service_def no_fuel)

lemma for_each_no_fuel: "(\<And>sid c. fst (body sid c) \<noteq> Halt NoFuel) \<Longrightarrow> fst (for_each body sid c) \<noteq> Halt NoFuel"
proof (induction "MAX_NUM_SERVICES - sid" arbitrary: sid c)
  case 0
  then show ?case by (subst for_each.simps) simp
next
  case (Suc n)
  have "fst (for_each body (Suc sid) x) \<noteq> Halt NoFuel" for x using Suc by (intro Suc.hyps(1)) auto
  then show ?case using Suc.prems by (subst for_each.simps) (auto simp: no_fuel)
qed

lemma passes_no_fuel [no_fuel]:
  "fst (for_each (run_at_interval os dk) 0 c) \<noteq> Halt NoFuel" "fst (for_each (restart_service os dk) 0 c) \<noteq> Halt NoFuel"
proof -
  show "fst (for_each (run_at_interval os dk) 0 c) \<noteq> Halt NoFuel"
    by (rule for_each_no_fuel) (auto simp: run_at_interval_def start_or_log_def no_fuel)
  show "fst (for_each (restart_service os dk) 0 c) \<noteq> Halt NoFuel"
    by (rule for_each_no_fuel) (auto simp: restart_service_def no_fuel)
qed

lemma handle_command_no_fuel [no_fuel]: "fst (handle_command os dk c) \<noteq> Halt NoFuel"
proof -
  have "fst (run_command os dk buf c) \<noteq> Halt NoFuel" for buf c
    by (auto simp: run_command_def find_service_def request_restart_def Let_def no_fuel split: option.split)
  then show ?thesis by (auto simp: handle_command_def Let_def split: option.split)
qed

lemma main_loop_settles:
  assumes calm: "calm_from os Q" and sig: "term_signal os T"
  shows "heard T c \<Longrightarrow> Suc T - ticks c + (Q - ticks c) + 3 < fuel \<Longrightarrow> settles (main_loop os dk fuel c) (\<lambda>_ c'. do_shutdown c')"
proof (induction fuel arbitrary: c)
  case (Suc fuel)
  have rest: "settles (bind_st (for_each (run_at_interval os dk) 0 c1) (\<lambda>_ c2.
          bind_st (for_each (restart_service os dk) 0 c2) (\<lambda>_ c3.
          bind_st (handle_command os dk c3) (\<lambda>_ c4. main_loop os dk fuel (msleep os 1000 c4))))) (\<lambda>_ c'. do_shutdown c')"
    if c1: "sys_steps os c c1" and running: "\<not> do_shutdown c" for c1
    unfolding settles_bind
  proof (intro settles_mono [OF settles_does [OF passes_no_fuel(1) does_for_each [OF does_run_at_interval]]]
      settles_mono [OF settles_does [OF passes_no_fuel(2) does_for_each [OF does_restart_service]]]
      settles_mono [OF settles_does [OF handle_command_no_fuel does_handle_command]])
    fix c2 c3 c4 assume "sys_steps os c1 c2" "sys_steps os c2 c3" "sys_steps os c3 c4"
    then have s: "sys_steps os c c4" using c1 by auto
    let ?c5 = "msleep os 1000 c4"
    have "ticks ?c5 = Suc (ticks c4)" by (simp add: msleep_def say_def)
    then have t: "Suc (ticks c) \<le> ticks ?c5" using ticks_steps [OF s] by simp
    have "heard T ?c5" using heard_steps [OF after [OF s steps_msleep] sig Suc.prems(1)] .
    moreover have "ticks c \<le> T" using Suc.prems(1) running by (simp add: heard_def not_less)
    ultimately show "settles (main_loop os dk fuel ?c5) (\<lambda>_ c'. do_shutdown c')"
      using Suc.prems(2) t by (intro Suc.IH) simp_all
  qed
  have "settles (child_handler os dk fuel 0 (- 1) c) (\<lambda>_ c'. sys_steps os c c')"
    by (rule child_handler_settles_calm [OF calm]) (use Suc.prems(2) in simp)
  then show ?case
    unfolding main_loop.simps settles_if settles_bind
    using rest [unfolded settles_bind] by (auto elim!: settles_mono simp: request_shutdown_def)
qed simp

section \<open>Properties\<close>

text \<open>
  C18. A termination signal ends the main loop: when \<open>SIGTERM\<close> or \<open>SIGINT\<close> is delivered at some call and dead children
  do not go on being reported for ever, the main loop returns, with a shutdown request.
\<close>

theorem signal_ends_main_loop:
  assumes "term_signal os T" and "ticks c \<le> T" and "calm_from os Q" and "T + Q + 4 < fuel"
  shows "fst (main_loop os dk fuel c) \<noteq> Halt NoFuel
    \<and> (\<forall>c'. main_loop os dk fuel c = (Ok (), c') \<longrightarrow> do_shutdown c')"
proof -
  have "heard T c" using assms(2) by (simp add: heard_def)
  moreover have "Suc T - ticks c + (Q - ticks c) + 3 < fuel" using assms(4) by simp
  ultimately have "settles (main_loop os dk fuel c) (\<lambda>_ c'. do_shutdown c')" by (rule main_loop_settles [OF assms(3,1)])
  then show ?thesis by (auto simp: settles_def)
qed

theorem signal_ends_main_loop_witness:
  "fst (main_loop (sample_os (\<lambda>t. if t = 4 then Reaped 12 (WExited 0) else StillRunning)
      \<lparr>os_signal := \<lambda>t. if t = 40 then Some SIGTERM else None\<rparr>) quiet_disk 50 two_services) \<noteq> Halt NoFuel"
proof -
  let ?os = "sample_os (\<lambda>t. if t = 4 then Reaped 12 (WExited 0) else StillRunning)
      \<lparr>os_signal := \<lambda>t. if t = 40 then Some SIGTERM else None\<rparr>"
  have "term_signal ?os 40" "ticks two_services \<le> 40" "calm_from ?os 5"
    by (simp_all add: term_signal_def two_services_def g_ctx_def calm_from_def sample_os_def)
  from signal_ends_main_loop [OF this, of 50 quiet_disk] show ?thesis by simp
qed

end
