(* ===== verification/ExitStatus.thy ===== *)
theory ExitStatus
  imports Boot Steps
begin

text \<open>
  The exit status of \<open>cinit\<close>: the whole run as a sequence of the elementary steps of \<open>Steps\<close>, from which follows where the
  status comes from.
\<close>

section \<open>Starting and stopping as sequences of steps\<close>

lemma does_wait_sync [steps]: "does os c (wait_sync os fuel sid c)"
proof (induction fuel arbitrary: c)
  case (Suc fuel)
  show ?case by (auto simp: steps_tick intro: does_after [OF steps_tick Suc.IH] split: reaped.split)
qed simp

lemma reported_now: "os_waitpid os (ticks c) p = Reaped q status \<Longrightarrow> reported os (tick os c) status"
  by (auto simp: reported_def)

lemma wait_sync_reported: "wait_sync os fuel sid c = (Ok (Some status), c') \<Longrightarrow> reported os c' status"
proof (induction fuel arbitrary: c)
  case (Suc fuel)
  then show ?case by (auto simp: throw_message_def throw_message_errno_def reported_now split: reaped.splits if_splits)
qed simp

lemma does_min_uptime [steps]: "does os c (min_uptime os dk fuel sid c)"
proof (induction fuel arbitrary: c)
  case (Suc fuel)
  have wait: "does os x (let w = os_waitpid os (ticks x) (pid (srv x sid)); rc = reaped_pid w; c2 = tick os x in
           if rc = pid (srv c2 sid) then
             bind_st (handle_killed os dk (pid (srv c2 sid)) (reaped_status w) c2)
               (\<lambda>_ c3. (throw_message ''minimum uptime not met'', c3))
           else if rc < 0 then (throw_message_errno (m c2) e, c2)
           else min_uptime os dk fuel sid (msleep os 500 c2))" for x m e
    unfolding Let_def
    by (rule does_after [OF steps_tick], intro does_if does_bind [OF does_handle_killed] does_after [OF steps_msleep Suc.IH])
      (use reported_reaped [of os x "pid (srv x sid)"] in simp_all)
  show ?case
    unfolding min_uptime.simps
    by (intro does_if does_bind [OF does_get_time] wait) simp_all
qed simp

lemma does_wait_ready [steps]: "does os c (wait_ready os fuel sid arg c)"
proof (induction fuel arbitrary: c)
  case (Suc fuel)
  show ?case
    unfolding wait_ready.simps
    by (intro does_if does_bind [OF does_get_time] does_after [OF steps_tick does_bind [OF does_exec]]
        does_after [OF steps_msleep Suc.IH]) (simp_all add: steps_tick)
qed simp

lemma does_wait_for_service [steps]: "does os c (wait_for_service os dk fuel sid c)"
proof -
  have w: "does os c2 (case st of None \<Rightarrow> (Ok (), c2)
        | Some status \<Rightarrow> bind_st (handle_killed os dk (pid (srv c2 sid)) status c2) (\<lambda>_ c3.
            if status \<noteq> WExited 0 then (throw_message m, c3) else (Ok (), c3)))"
    if "wait_sync os fuel sid c1 = (Ok st, c2)" for c1 c2 st m
    using wait_sync_reported that by (cases st) (auto intro!: does_bind [OF does_handle_killed])
  show ?thesis
    unfolding wait_for_service_def
    by (intro does_if does_after [OF steps_log(4) does_bind [OF does_wait_sync w]] does_bind [OF does_min_uptime]
        does_bind [OF does_chdir] does_after [OF steps_log(4) does_wait_ready]) simp_all
qed

lemma does_start_from [steps]: "does os c (start_from os dk fuel xs c)"
proof (induction xs arbitrary: c)
  case (Cons x xs)
  have "does os c1 (start_failed sid e c1)" for sid e c1 by (simp add: start_failed_def Let_def steps_log)
  then show ?case
    unfolding start_from.simps start_and_wait_def
    by (intro does_if does_bind [OF does_try [OF does_bind [OF does_start_service does_wait_for_service]]] Cons.IH) simp_all
qed simp

lemma does_main_loop [steps]: "does os c (main_loop os dk fuel c)"
proof (induction fuel arbitrary: c)
  case (Suc fuel)
  have "sys_steps os c1 (request_shutdown (log m c1))" for c1 m by (rule after [OF steps_log(1) steps_request])
  then show ?case
    unfolding main_loop.simps
    by (intro does_if does_bind [OF does_child_handler] does_bind [OF does_for_each [OF does_run_at_interval]]
        does_bind [OF does_for_each [OF does_restart_service]] does_bind [OF does_handle_command]
        does_after [OF steps_msleep Suc.IH]) simp_all
qed simp

lemma does_stop_all [steps]: "does os c (stop_all os dk fuel xs c)"
proof (induction xs arbitrary: c)
  case (Cons x xs)
  show ?case
    unfolding stop_all.simps
    by (intro does_if Cons.IH does_bind [OF does_try [OF does_stop_service]] does_bind [OF does_child_handler])
      (simp_all add: steps_log)
qed simp

lemma does_cinit_shutdown [steps]: "does os c (cinit_shutdown os dk fuel c)"
proof -
  have "does os c1 (child_handler os dk fuel per s (kill os p sig (log m c1)))" for c1 per s p sig m
    by (rule does_after [OF after [OF steps_log(1) steps_kill] does_child_handler])
  then show ?thesis
    unfolding cinit_shutdown_def
    by (intro does_if does_ignore does_bind [OF does_stop_all] does_bind [OF does_child_handler] does_bind) simp_all
qed

section \<open>Where the exit code comes from\<close>

lemma step_exit_code: "sys_step os c c' \<Longrightarrow> do_shutdown c \<Longrightarrow> do_shutdown c' \<and> exit_code c' = exit_code c"
  by (erule sys_stepE)
    (auto simp: tick_def deliver_def sigint_def sigterm_def request_shutdown_def log_say say_def upd_srv_def split: if_splits)

text \<open>Once the shutdown is requested the exit code is final.\<close>

lemma exit_code_final: "sys_steps os c c' \<Longrightarrow> do_shutdown c \<Longrightarrow> do_shutdown c' \<and> exit_code c' = exit_code c"
  by (induction rule: rtranclp_induct) (auto dest: step_exit_code)

text \<open>The exit code is the initial one, or stands for the status of a process, reported by \<open>waitpid\<close>.\<close>

definition explained :: "os \<Rightarrow> int \<Rightarrow> cinit \<Rightarrow> bool" where
  "explained os e c \<longleftrightarrow> exit_code c = e
     \<or> (\<exists>sid. named sid c \<and> shutdown_on_terminate (srv c sid))
       \<and> (\<exists>status. reported os c status \<and> exit_code c = exit_status_of 1 status)"

lemma explained_step: "sys_step os c c' \<Longrightarrow> explained os e c \<Longrightarrow> explained os e c'"
proof -
  assume step: "sys_step os c c'" and ex: "explained os e c"
  have steps: "sys_steps os c c'" by (rule r_into_rtranclp [of "sys_step os", OF step])
  have r: "reported os c' status" if "reported os c status" for status by (rule reported_steps [OF steps that])
  have n: "named sid c' \<and> shutdown_on_terminate (srv c' sid)" if "named sid c" "shutdown_on_terminate (srv c sid)" for sid
    using named_steps [OF steps that(1)] steps_entry [OF steps, of sid] that by (simp add: named_def)
  have "exit_code c' = exit_code c \<or> explained os e c'"
    using step
  proof cases
    case (blame sid status)
    then show ?thesis using n r by (auto simp: explained_def)
  qed (simp_all add: tick_def deliver_def sigint_def sigterm_def request_shutdown_def log_say say_def upd_srv_def split: option.split)
  then show ?thesis using ex r n unfolding explained_def by metis
qed

lemma explained_steps: "sys_steps os c c' \<Longrightarrow> explained os e c \<Longrightarrow> explained os e c'"
  by (induction rule: rtranclp_induct) (auto intro: explained_step)

lemma bring_up_explained:
  assumes up: "bring_up env os dk lo fuel c = (r, c')" "\<forall>h. r \<noteq> Halt h" and n: "nothing_loaded c"
  shows "explained os (exit_code c) c'"
proof -
  let ?c0 = "log ''loading services...'' c"
  have t0: "table_ok ?c0" using n by (simp add: nothing_loaded_def log_say)
  obtain r1 c1 where l: "load_service_with_deps env dk lo fuel ''default'' (- 1) ?c0 = (r1, c1)" by fastforce
  have "\<forall>h. r1 \<noteq> Halt h" using up l by (auto simp: bring_up_def)
  then have "load_frame ?c0 c1" using load_service_with_deps_loads [OF l t0] by (simp add: loads_def)
  then obtain w ss od as where c1: "c1 = ?c0\<lparr>cwd := w, services := ss, start_order := od, actions := as\<rparr>"
    unfolding load_frame_def by blast
  then have e1: "exit_code c1 = exit_code c" by (simp add: log_say say_def)
  show ?thesis
  proof (cases r1)
    case (Ok u)
    define c2 where "c2 = log ''starting services...'' (widen_prefix (log ''all services loaded.'' c1))"
    obtain m where "widen_prefix (log ''all services loaded.'' c1) = (log ''all services loaded.'' c1)\<lparr>log_prefix_length := m\<rparr>"
      using widen_prefix_frame by blast
    then have "exit_code c2 = exit_code c" using e1 by (simp add: c2_def log_say say_def)
    then have x2: "explained os (exit_code c) c2" by (simp add: explained_def)
    have "does os c2 (bind_st (start_services os dk fuel c2) (\<lambda>_ c3. (Ok (), log ''all services started.'' c3)))"
      unfolding start_services_def by (rule does_bind [OF does_start_from]) (simp add: steps_log)
    then have "sys_steps os c2 c'" using up(1) l Ok by (simp add: bring_up_def c2_def does_def)
    then show ?thesis using explained_steps x2 by blast
  qed (use up(1) l e1 in \<open>auto simp: bring_up_def explained_def\<close>)
qed

lemma wind_down_status:
  "wind_down os dk fuel fd b c = (Ok status, c') \<Longrightarrow>
     status = (if b then 1 else exit_code c) \<and> (\<forall>s. reported os c s \<longrightarrow> reported os c' s)"
proof -
  assume w: "wind_down os dk fuel fd b c = (Ok status, c')"
  define c3 where "c3 = say (Unlinked CMD_FIFO_PATH) (if fd \<noteq> - 1 then say (ClosedFd fd) c else c)"
  obtain c4 where sh: "cinit_shutdown os dk fuel c3 = (Ok (), c4)" and c': "c' = unload_services 0 c4"
    and st: "status = (if b then 1 else exit_code c)"
    using w by (auto simp: wind_down_def Let_def bind_st_Ok c3_def [symmetric] split: if_splits)
  have "sys_steps os c3 c4" using does_cinit_shutdown [of os c3 dk fuel] sh by simp
  moreover have "sys_steps os c c3" by (simp add: c3_def steps_say after [OF steps_say steps_say])
  moreover have "ticks c' = ticks c4" using unload_services_frame [of 0 c4] c' by auto
  ultimately have "ticks c \<le> ticks c'" using ticks_steps [of os c c3] ticks_steps [of os c3 c4] by simp
  then show ?thesis using st unfolding reported_def by (meson less_le_trans)
qed

section \<open>A service that is killed\<close>

text \<open>The only service ends the container; its process is killed after the start.\<close>

definition mortal_disk :: disk where
  "mortal_disk = quiet_disk\<lparr>dk_settings := (\<lambda>_. [''shutdown_on_terminate'' \<mapsto> Plain ''true''])\<rparr>"

definition mortal_os :: os where
  "mortal_os = sample_os (\<lambda>t. if t < 5 then StillRunning else if t = 5 then Reaped 100 (WSignaled 9) else NoChild)"

definition mortal_up :: "unit res \<times> cinit" where
  "mortal_up = bring_up env0 mortal_os mortal_disk (\<lambda>_ _. True) 9 main_ctx"

definition mortal_run :: "int res \<times> cinit" where
  "mortal_run = supervise env0 mortal_os mortal_disk (\<lambda>_ _. True) 9 5 main_ctx"

section \<open>Properties\<close>

text \<open>
  C5. The exit status of the container. A run that returns a status returns 1 when bringing up the services failed. Otherwise it
  returns 0, or a service that is configured to end the container exists and the status is that of a process that \<open>waitpid\<close>
  reported (its exit status, 128 plus its signal, or 1 for other ones). A shutdown that was requested while the services came
  up leaves the status as it is at that time, whatever dies during the shutdown.
\<close>

theorem exit_status_explained:
  assumes "supervise env os dk lo fuel fd c = (Ok status, c')" and "nothing_loaded c" and "exit_code c = 0"
    and "bring_up env os dk lo fuel c = (r, c1)"
  shows "if raised r then status = 1
    else (do_shutdown c1 \<longrightarrow> status = exit_code c1)
      \<and> (status = 0 \<or> (\<exists>sid. named sid c1 \<and> shutdown_on_terminate (srv c1 sid))
           \<and> (\<exists>s. reported os c' s \<and> status = exit_status_of 1 s))"
proof -
  obtain c2 c3 where t: "try_catch (r, c1) (\<lambda>e c1. (Ok (), request_shutdown (log e c1))) = (Ok (), c2)"
    and ml: "main_loop os dk fuel c2 = (Ok (), c3)" and w: "wind_down os dk fuel fd (raised r) c3 = (Ok status, c')"
    using assms(1) unfolding supervise_def assms(4) Let_def bind_st_Ok fst_conv by auto
  have nh: "\<forall>h. r \<noteq> Halt h" using t by (cases r) auto
  have x1: "explained os 0 c1" using bring_up_explained [OF assms(4) nh assms(2)] assms(3) by simp
  have s: "sys_steps os c2 c3" using does_main_loop [of os c2 dk fuel] ml by simp
  note W = wind_down_status [OF w]
  show ?thesis
  proof (cases "raised r")
    case False
    then have c2: "c2 = c1" using t by (cases r) auto
    have "explained os 0 c3" using explained_steps [OF s] x1 c2 by simp
    moreover have "named sid c1 \<and> shutdown_on_terminate (srv c1 sid)" if "named sid c3" "shutdown_on_terminate (srv c3 sid)" for sid
    proof -
      have "sid < length (services c2)" using that steps_table [OF s] by (auto simp: named_def dest: map_eq_imp_length_eq)
      then show ?thesis using that steps_entry [OF s, of sid] c2 by (simp add: named_def)
    qed
    ultimately have "status = 0 \<or> (\<exists>sid. named sid c1 \<and> shutdown_on_terminate (srv c1 sid))
           \<and> (\<exists>s. reported os c' s \<and> status = exit_status_of 1 s)"
      using W False unfolding explained_def by metis
    moreover have "do_shutdown c1 \<longrightarrow> status = exit_code c1" using exit_code_final [OF s] W False c2 by simp
    ultimately show ?thesis using False by simp
  qed (use W in simp)
qed

theorem exit_status_explained_witness:
  "fst mortal_run = Ok 137 \<and> (\<exists>s. reported mortal_os (snd mortal_run) s \<and> 137 = exit_status_of 1 s)"
proof -
  have r: "fst mortal_run = Ok 137" and u: "fst mortal_up = Ok ()" by code_simp+
  then have run: "supervise env0 mortal_os mortal_disk (\<lambda>_ _. True) 9 5 main_ctx = (Ok 137, snd mortal_run)"
    and up: "bring_up env0 mortal_os mortal_disk (\<lambda>_ _. True) 9 main_ctx = (Ok (), snd mortal_up)"
    by (simp_all add: mortal_run_def mortal_up_def prod_eq_iff)
  have e: "exit_code main_ctx = 0" by code_simp
  show ?thesis using exit_status_explained [OF run main_ctx_nothing_loaded e up] r by simp
qed

end
