(* ===== verification/Options.thy ===== *)
theory Options
  imports MainLoop
begin

text \<open>
  The front of \<open>main\<close> in \<open>src/src/cinit/cinit.c\<close>: the options (\<open>parse_args\<close>), the usage text, the named pipe, the
  limit of open files, and the whole program \<open>cinit_main\<close>. \<open>getopt_long\<close> is represented by what it hands out: the
  option characters with their arguments, in order, and the arguments that are left.
\<close>

section \<open>Options\<close>

definition option_value :: "string \<Rightarrow> string \<Rightarrow> string" where
  "option_value what arg = ''Invalid '' @ what @ '' value '' @ quoted arg"

text \<open>A value that is converted and stored; the exception of the conversion is wrapped.\<close>

definition set_option :: "string \<Rightarrow> string \<Rightarrow> 'a res \<Rightarrow> ('a \<Rightarrow> cinit \<Rightarrow> cinit) \<Rightarrow> cinit \<Rightarrow> unit res \<times> cinit" where
  "set_option what arg conv store c =
     (case conv of
        Ok x \<Rightarrow> (Ok (), store x c)
      | Exn e \<Rightarrow> (throw_message (option_value what arg @ '': '' @ e @ ''.''), c)
      | Halt h \<Rightarrow> (Halt h, c))"

text \<open>One group after the other is written behind those that are there; the array has 32 entries.\<close>

fun add_default_gids :: "load_env \<Rightarrow> string list \<Rightarrow> cinit \<Rightarrow> unit res \<times> cinit" where
  "add_default_gids env [] c = (Ok (), c)"
| "add_default_gids env (t # ts) c =
     (if t = [] then add_default_gids env ts c
      else
        (case string_to_gid (le_getgrnam env) t of
           Ok g \<Rightarrow>
             (if length (default_srv_sgid_list c) < SERVICE_SGID_LIST_SIZE
              then add_default_gids env ts (c\<lparr>default_srv_sgid_list := default_srv_sgid_list c @ [g]\<rparr>)
              else (Halt (Undefined ''write behind the end of default_srv_sgid_list''), c))
         | Exn e \<Rightarrow> (throw_message (''invalid GID '' @ quoted t @ '': '' @ e), c)
         | Halt h \<Rightarrow> (Halt h, c)))"

text \<open>
  The argument is trimmed and split in place, so the message shows what is left of it: its first token.
\<close>

definition set_default_sgids :: "load_env \<Rightarrow> string \<Rightarrow> cinit \<Rightarrow> unit res \<times> cinit" where
  "set_default_sgids env arg c =
     (let trimmed = trim_str isspace arg;
          tokens = split_str (CHR '','') trimmed;
          shown = (if le_malloc env then hd tokens else squeeze_str (CHR '','') trimmed);
          body = (if \<not> le_malloc env then (throw_message ''failed to process list'', c)
                  else if length tokens > SERVICE_SGID_LIST_SIZE then (throw_message ''too much groups'', c)
                  else add_default_gids env tokens c) in
      case body of
        (Exn e, c1) \<Rightarrow> (throw_message (''Invalid default service supplementary group list '' @ quoted shown @ '': '' @ e), c1)
      | r \<Rightarrow> r)"

definition handle_option :: "load_env \<Rightarrow> char \<Rightarrow> string \<Rightarrow> cinit \<Rightarrow> unit res \<times> cinit" where
  "handle_option env opt arg c =
     (if opt = CHR ''d'' then (Ok (), c\<lparr>debug := True\<rparr>)
      else if opt = CHR ''p'' then
        (if length arg \<ge> NAME_SIZE then (throw_message ''Programme name too long.'', c) else (Ok (), c\<lparr>progname := arg\<rparr>))
      else if opt = CHR ''r'' then
        (if length arg \<ge> NAME_SIZE then (throw_message ''Root directory path too long.'', c)
         else if take 1 arg \<noteq> ''/'' then (throw_message ''Root directory path must be absolute.'', c)
         else (Ok (), c\<lparr>services_root := arg\<rparr>))
      else if opt = CHR ''g'' then
        set_option ''gracetime'' arg (string_to_uint arg) (\<lambda>x c. c\<lparr>services_gracetime := x\<rparr>) c
      else if opt = CHR ''t'' then
        set_option ''default service ready timeout'' arg (string_to_uint arg) (\<lambda>x c. c\<lparr>default_srv_ready_timeout := x\<rparr>) c
      else if opt = CHR ''u'' then
        set_option ''default service UID'' arg (string_to_uid (le_getpwnam env) arg) (\<lambda>x c. c\<lparr>default_srv_uid := x\<rparr>) c
      else if opt = CHR ''i'' then
        set_option ''default service GID'' arg (string_to_gid (le_getgrnam env) arg) (\<lambda>x c. c\<lparr>default_srv_gid := x\<rparr>) c
      else if opt = CHR ''s'' then set_default_sgids env arg c
      else if opt = CHR ''m'' then
        set_option ''default service umask'' arg (string_to_mode arg) (\<lambda>x c. c\<lparr>default_srv_umask := x\<rparr>) c
      else if opt = CHR ''h'' \<or> opt = CHR ''?'' then (throw_message ''help'', c)
      else (Ok (), c))"

fun parse_args :: "load_env \<Rightarrow> (char \<times> string) list \<Rightarrow> string list \<Rightarrow> cinit \<Rightarrow> unit res \<times> cinit" where
  "parse_args env [] [] c = (Ok (), c)"
| "parse_args env [] (a # rest) c = (throw_message (''Unexpected argument: '' @ quoted a @ ''.''), c)"
| "parse_args env ((opt, arg) # os) rest c = bind_st (handle_option env opt arg c) (\<lambda>_ c1. parse_args env os rest c1)"

definition usage :: "string \<Rightarrow> string list" where
  "usage name =
    [''Usage: '' @ name @ '' [OPTIONS...]'',
     '''',
     ''Options:'',
     ''  -d, --debug                                 Enable debug logging.'',
     ''  -p, --progname <NAME>                       Override the name that will be displayed in log messages to NAME.'',
     ''  -r, --root-directory <DIR>                  Set the root directory to DIR. Default is '' @ services_root g_ctx @ ''.'',
     ''  -g, --services-gracetime <VALUE>            Set the amount of time (in msec) allowed to'',
     ''                                              services to gracefully terminate before sending'',
     ''                                              the KILL signal to everyone. Default is '' @ dec_int (uint (services_gracetime g_ctx)) @ '' msec.'',
     ''  -t, --default-service-ready-timeout <VALUE> Maximum amount of time (in msec) to wait for a'',
     ''                                              service to be ready. Default is '' @ dec_int (uint (default_srv_ready_timeout g_ctx)) @ '' msec.'',
     ''  -u, --default-service-uid <VALUE>           UID to apply when not set in service'' @ [CHR 0x27] @ ''s definition directory.'',
     ''                                              Default is '' @ dec_int (uint (default_srv_uid g_ctx)) @ ''.'',
     ''  -i, --default-service-gid <VALUE>           GID to apply when not set in service'' @ [CHR 0x27] @ ''s definition directory.'',
     ''                                              Default is '' @ dec_int (uint (default_srv_gid g_ctx)) @ ''.'',
     ''  -s, --default-service-sgid-list <LIST>      Comma-separated list of supplementary groups to apply when not'',
     ''                                              set in service'' @ [CHR 0x27] @ ''s definition directory. No group by default.'',
     ''  -m, --default-service-umask <VALUE>         Umask value (in octal notation) to apply when not set in service'' @ [CHR 0x27] @ ''s'',
     ''                                              definition directory. Default is 0022.'',
     ''  -h, --help                                  Display this help and exit.'']"

section \<open>The whole program\<close>

text \<open>What the system answers during the setup; an error is its text.\<close>

record init_env =
  su_mkfifo :: "string option"
  su_getgrnam :: "string option"
  su_chown :: "string option"
  su_chmod :: "string option"
  su_open :: "string + int"
  su_getrlimit :: "string + int"      \<comment> \<open>\<open>rlim_max\<close>\<close>
  su_setrlimit :: "string option"
  su_exit_script :: bool              \<comment> \<open>\<open>execve\<close> of the exit script succeeds\<close>

definition MIN_LOG_PREFIX_LENGTH :: int where "MIN_LOG_PREFIX_LENGTH = 12"

definition program_name :: "string \<Rightarrow> string" where
  "program_name argv0 = take (NAME_SIZE - 1) (base_name argv0)"

definition parse_and_enter :: "load_env \<Rightarrow> disk \<Rightarrow> (char \<times> string) list \<Rightarrow> string list \<Rightarrow> cinit \<Rightarrow> unit res \<times> cinit" where
  "parse_and_enter env dk opts rest c =
     bind_st (parse_args env opts rest c) (\<lambda>_ c1.
       if dk_chdir dk (services_root c1) = ChdirOk then (Ok (), c1\<lparr>cwd := services_root c1\<rparr>)
       else (throw_message (''Root directory not found: '' @ services_root c1), c1))"

text \<open>The first step that fails, with what is printed for it; the descriptor of the pipe otherwise.\<close>

definition open_pipe :: "init_env \<Rightarrow> string + int" where
  "open_pipe su =
     (case su_mkfifo su of Some e \<Rightarrow> Inl (''Could not create named pipe: '' @ e @ ''.'')
      | None \<Rightarrow> (case su_getgrnam su of Some e \<Rightarrow> Inl (''Could not get cinit group: '' @ e @ ''.'')
      | None \<Rightarrow> (case su_chown su of Some e \<Rightarrow> Inl (''Could not set group of named pipe: '' @ e @ ''.'')
      | None \<Rightarrow> (case su_chmod su of Some e \<Rightarrow> Inl (''Could not set permissions of named pipe: '' @ e @ ''.'')
      | None \<Rightarrow> (case su_open su of Inl e \<Rightarrow> Inl (''Could not create name pipe: '' @ e @ ''.'')
      | Inr fd \<Rightarrow> Inr fd)))))"

definition limit_files :: "init_env \<Rightarrow> cinit \<Rightarrow> cinit" where
  "limit_files su c =
     (case su_getrlimit su of
        Inl e \<Rightarrow> log_err (''Could not get the maximum number of file descriptors: '' @ e @ ''.'') c
      | Inr rlim_max \<Rightarrow>
          (if rlim_max > 1048576
           then (case su_setrlimit su of
                   Some e \<Rightarrow> log_err (''Could not set the maximum number of file descriptors: '' @ e @ ''.'') c
                 | None \<Rightarrow> c)
           else c))"

definition print_line :: "cinit \<Rightarrow> string \<Rightarrow> cinit" where
  "print_line c l = say (Stdout (l @ [LF])) c"

definition cinit_main ::
  "load_env \<Rightarrow> os \<Rightarrow> disk \<Rightarrow> leftover \<Rightarrow> init_env \<Rightarrow> nat \<Rightarrow> string \<Rightarrow> (char \<times> string) list \<Rightarrow> string list \<Rightarrow> unit res \<times> cinit" where
  "cinit_main env os dk lo su fuel argv0 opts rest =
     (case parse_and_enter env dk opts rest (g_ctx\<lparr>progname := program_name argv0\<rparr>) of
        (Halt h, c) \<Rightarrow> (Halt h, c)
      | (Exn e, c) \<Rightarrow>
          (Ok (), say (Exited 1)
             (if e = ''help'' then foldl print_line c (usage (progname c)) else print_line c e))
      | (Ok _, c) \<Rightarrow>
          (let c1 = say (Unlinked CMD_FIFO_PATH) c in
           case open_pipe su of
             Inl e \<Rightarrow> (Ok (), say (Exited 1) (print_line c1 e))
           | Inr fd \<Rightarrow>
               bind_st (supervise env os dk lo fuel fd (limit_files su
                   (init_start_order (c1\<lparr>log_prefix_length := max MIN_LOG_PREFIX_LENGTH (int (length (progname c1)))\<rparr>))))
                 (\<lambda>status c2. (Ok (), cinit_exit dk (su_exit_script su) status c2))))"

section \<open>What the options leave behind\<close>

text \<open>The fields of the context fit the arrays and types of \<open>context_t\<close>.\<close>

definition context_ok :: "cinit \<Rightarrow> bool" where
  "context_ok c \<longleftrightarrow>
     length (progname c) < NAME_SIZE \<and> length (services_root c) < NAME_SIZE \<and> take 1 (services_root c) = ''/''
     \<and> length (default_srv_sgid_list c) \<le> SERVICE_SGID_LIST_SIZE \<and> unat (default_srv_umask c) \<le> 511"

lemma context_ok_upd [simp]:
  "context_ok (c\<lparr>debug := b\<rparr>) = context_ok c" "context_ok (c\<lparr>services_gracetime := x\<rparr>) = context_ok c"
  "context_ok (c\<lparr>default_srv_ready_timeout := x\<rparr>) = context_ok c" "context_ok (c\<lparr>default_srv_uid := x\<rparr>) = context_ok c"
  "context_ok (c\<lparr>default_srv_gid := x\<rparr>) = context_ok c"
  by (simp_all add: context_ok_def)

lemma throw_defined [simp]: "throw_message m \<noteq> Halt (Undefined u)"
  by (simp add: throw_message_def)

lemma conversions_defined:
  "string_to_uint s \<noteq> Halt (Undefined u)" "string_to_mode s \<noteq> Halt (Undefined u)"
  "string_to_uid db s \<noteq> Halt (Undefined u)" "string_to_gid db s \<noteq> Halt (Undefined u)"
  by (simp_all add: string_to_uint_def string_to_mode_def string_to_uid_def string_to_gid_def Let_def
      split: option.splits prod.splits)

lemma set_option_ok:
  assumes "set_option what arg conv store c = (r, c')" and "context_ok c"
    and "\<And>x. conv = Ok x \<Longrightarrow> context_ok (store x c) \<and> default_srv_sgid_list (store x c) = default_srv_sgid_list c"
    and "\<And>u. conv \<noteq> Halt (Undefined u)"
  shows "context_ok c' \<and> default_srv_sgid_list c' = default_srv_sgid_list c \<and> r \<noteq> Halt (Undefined u)"
  using assms by (auto simp: set_option_def split: res.splits)

lemma add_default_gids_ok:
  "add_default_gids env ts c = (r, c') \<Longrightarrow> context_ok c \<Longrightarrow> context_ok c'
   \<and> length (default_srv_sgid_list c') \<le> length (default_srv_sgid_list c) + length ts
   \<and> (r = Halt (Undefined u) \<longrightarrow> SERVICE_SGID_LIST_SIZE < length (default_srv_sgid_list c) + length ts)"
proof (induction ts arbitrary: c)
  case (Cons t ts)
  show ?case
  proof (cases "t = []")
    case True
    with Cons.IH [of c] Cons.prems show ?thesis by auto
  next
    case False
    show ?thesis
    proof (cases "\<exists>g. string_to_gid (le_getgrnam env) t = Ok g \<and> length (default_srv_sgid_list c) < SERVICE_SGID_LIST_SIZE")
      case True
      then obtain g where g: "string_to_gid (le_getgrnam env) t = Ok g" by blast
      let ?c1 = "c\<lparr>default_srv_sgid_list := default_srv_sgid_list c @ [g]\<rparr>"
      have "context_ok ?c1" using Cons.prems(2) True by (auto simp: context_ok_def)
      with Cons.IH [of ?c1] Cons.prems(1) False g True show ?thesis by auto
    next
      case no: False
      with Cons.prems False show ?thesis using conversions_defined(4) [of "le_getgrnam env" t u]
        by (auto split: res.splits if_splits)
    qed
  qed
qed auto

text \<open>The tokens of the group lists on the command line.\<close>

definition group_tokens :: "(char \<times> string) list \<Rightarrow> string list" where
  "group_tokens opts = concat (map (\<lambda>(opt, arg). if opt = CHR ''s'' then split_str (CHR '','') (trim_str isspace arg) else []) opts)"

lemma set_default_sgids_ok:
  assumes "set_default_sgids env arg c = (r, c')" and "context_ok c"
  shows "context_ok c'
   \<and> length (default_srv_sgid_list c') \<le> length (default_srv_sgid_list c) + length (split_str (CHR '','') (trim_str isspace arg))
   \<and> (r = Halt (Undefined u) \<longrightarrow>
        SERVICE_SGID_LIST_SIZE < length (default_srv_sgid_list c) + length (split_str (CHR '','') (trim_str isspace arg)))"
proof -
  let ?ts = "split_str (CHR '','') (trim_str isspace arg)"
  obtain r1 c1 where b: "add_default_gids env ?ts c = (r1, c1)" by fastforce
  show ?thesis
    using assms add_default_gids_ok [OF b assms(2), of u] b
    by (auto simp: set_default_sgids_def Let_def split: if_splits res.splits)
qed

lemma handle_option_ok:
  assumes h: "handle_option env opt arg c = (r, c')" and ok: "context_ok c"
  shows "context_ok c'
   \<and> length (default_srv_sgid_list c') \<le> length (default_srv_sgid_list c) + length (group_tokens [(opt, arg)])
   \<and> (r = Halt (Undefined u) \<longrightarrow> SERVICE_SGID_LIST_SIZE < length (default_srv_sgid_list c) + length (group_tokens [(opt, arg)]))"
proof (cases "opt = CHR ''s''")
  case True
  with h set_default_sgids_ok [OF _ ok, of env arg r c' u] show ?thesis by (simp add: handle_option_def group_tokens_def)
next
  case False
  have m: "string_to_mode arg = Ok x \<Longrightarrow> context_ok (c\<lparr>default_srv_umask := x\<rparr>)" for x
    using ok string_to_mode_range by (simp add: context_ok_def)
  have p: "length arg < NAME_SIZE \<Longrightarrow> context_ok (c\<lparr>progname := arg\<rparr>)"
    "length arg < NAME_SIZE \<Longrightarrow> take 1 arg = ''/'' \<Longrightarrow> context_ok (c\<lparr>services_root := arg\<rparr>)"
    using ok by (simp_all add: context_ok_def)
  have "context_ok c' \<and> default_srv_sgid_list c' = default_srv_sgid_list c \<and> r \<noteq> Halt (Undefined u)"
  proof (cases "opt \<in> {CHR ''g'', CHR ''t'', CHR ''u'', CHR ''i'', CHR ''m''}")
    case True
    have s: "set_option what arg conv store c = (r, c') \<Longrightarrow>
        (\<And>x. conv = Ok x \<Longrightarrow> context_ok (store x c) \<and> default_srv_sgid_list (store x c) = default_srv_sgid_list c) \<Longrightarrow>
        (\<And>u. conv \<noteq> Halt (Undefined u)) \<Longrightarrow> ?thesis" for what and conv :: "uint res" and store
      using set_option_ok [OF _ ok] by blast
    consider "opt = CHR ''g''" | "opt = CHR ''t''" | "opt = CHR ''u''" | "opt = CHR ''i''" | "opt = CHR ''m''"
      using True by blast
    then show ?thesis
      by cases (rule s, use h in \<open>simp add: handle_option_def\<close>, simp add: ok m conversions_defined,
          simp add: conversions_defined)+
  next
    case no: False
    consider "opt = CHR ''d''" | "opt = CHR ''p''" | "opt = CHR ''r''"
      | "opt \<notin> {CHR ''d'', CHR ''p'', CHR ''r'', CHR ''g'', CHR ''t'', CHR ''u'', CHR ''i'', CHR ''s'', CHR ''m''}"
      using no False by blast
    then show ?thesis
    proof cases
      case 1
      with h ok show ?thesis by (auto simp: handle_option_def)
    next
      case 2
      with h ok p(1) show ?thesis by (simp add: handle_option_def not_le split: if_split_asm) auto
    next
      case 3
      consider "length arg \<ge> NAME_SIZE" | "length arg < NAME_SIZE" "take 1 arg \<noteq> ''/''"
        | "length arg < NAME_SIZE" "take 1 arg = ''/''" by (meson not_le)
      then show ?thesis
        by cases (use h 3 ok in \<open>force simp: handle_option_def\<close>, use h 3 ok in \<open>force simp: handle_option_def\<close>,
            use h 3 p(2) in \<open>force simp: handle_option_def\<close>)
    next
      case 4
      then have "handle_option env opt arg c
          = (if opt = CHR ''h'' \<or> opt = CHR ''?'' then (throw_message ''help'', c) else (Ok (), c))"
        by (simp add: handle_option_def)
      with h ok throw_defined [of "''help''" u] show ?thesis by (cases "opt = CHR ''h'' \<or> opt = CHR ''?''") auto
    qed
  qed
  then show ?thesis by simp
qed

lemma parse_args_ok:
  "parse_args env opts rest c = (r, c') \<Longrightarrow> context_ok c \<Longrightarrow> context_ok c'
   \<and> (r = Halt (Undefined u) \<longrightarrow> SERVICE_SGID_LIST_SIZE < length (default_srv_sgid_list c) + length (group_tokens opts))"
proof (induction env opts rest c rule: parse_args.induct)
  case (3 env opt arg os rest c)
  obtain r1 c1 where h: "handle_option env opt arg c = (r1, c1)" by fastforce
  note H = handle_option_ok [OF h 3(3), of u]
  have g: "length (group_tokens ((opt, arg) # os)) = length (group_tokens [(opt, arg)]) + length (group_tokens os)"
    by (simp add: group_tokens_def)
  show ?case
  proof (cases r1)
    case (Ok x)
    then show ?thesis using 3(1) [of c1] 3(2) h H g by auto
  qed (use 3(2) h H g in auto)
qed auto

text \<open>Two lists of twenty groups each: both pass their own check, the second one runs over the array.\<close>

definition sample_db :: load_env where
  "sample_db = \<lparr>le_malloc = True, le_strerror = (\<lambda>_. ''Error''), le_getpwnam = (\<lambda>_. None), le_getgrnam = (\<lambda>_. None)\<rparr>"

definition twenty_groups :: string where
  "twenty_groups = concat (replicate 20 ''7,'')"

definition two_group_lists :: "(char \<times> string) list" where
  "two_group_lists = [(CHR ''s'', twenty_groups), (CHR ''s'', twenty_groups)]"

lemma squeeze_repeated: "a \<noteq> s \<Longrightarrow> squeeze_str s (concat (replicate n [a, s])) = concat (replicate n [a, s])"
proof (induction n)
  case (Suc n)
  then show ?case by (cases n) auto
qed simp

lemma drop_last_repeated: "drop_last_empty (replicate (Suc n) [a] @ [[]]) = replicate (Suc n) [a]"
  by (induction n) auto

lemma fields_repeated: "a \<noteq> s \<Longrightarrow> Tokens.fields s (concat (replicate n [a, s])) = replicate n [a] @ [[]]"
  by (induction n) auto

lemma tokens_repeated: "split_str (CHR '','') (trim_str isspace twenty_groups) = replicate 20 ''7''"
proof -
  have "isspace (CHR '','') = False" "isspace (CHR ''7'') = False" by code_simp+
  then have "trim_str isspace twenty_groups = twenty_groups"
    by (simp add: twenty_groups_def trim_str_def rtrim_str_def numeral_eq_Suc)
  then show ?thesis
    using drop_last_repeated [of 19 "CHR ''7''"]
    by (simp add: split_str_def twenty_groups_def squeeze_repeated fields_repeated)
qed

lemma add_default_gids_repeated:
  assumes "string_to_gid (le_getgrnam env) t = Ok g" and "t \<noteq> []"
    and "length (default_srv_sgid_list c) \<le> SERVICE_SGID_LIST_SIZE"
  shows "add_default_gids env (replicate n t) c =
    (let c' = c\<lparr>default_srv_sgid_list := default_srv_sgid_list c @
                   replicate (min n (SERVICE_SGID_LIST_SIZE - length (default_srv_sgid_list c))) g\<rparr> in
     if length (default_srv_sgid_list c) + n \<le> SERVICE_SGID_LIST_SIZE then (Ok (), c')
     else (Halt (Undefined ''write behind the end of default_srv_sgid_list''), c'))"
  using assms(3)
proof (induction n arbitrary: c)
  case (Suc n)
  show ?case
  proof (cases "length (default_srv_sgid_list c) < SERVICE_SGID_LIST_SIZE")
    case True
    let ?c1 = "c\<lparr>default_srv_sgid_list := default_srv_sgid_list c @ [g]\<rparr>"
    have "min (Suc n) (SERVICE_SGID_LIST_SIZE - length (default_srv_sgid_list c))
        = Suc (min n (SERVICE_SGID_LIST_SIZE - Suc (length (default_srv_sgid_list c))))"
      using True by simp
    with Suc.IH [of ?c1] True assms(1,2) show ?thesis by (simp add: Let_def)
  qed (use assms Suc.prems in simp)
qed simp

lemma repeated_groups_overflow:
  "fst (parse_args sample_db two_group_lists [] g_ctx) = Halt (Undefined ''write behind the end of default_srv_sgid_list'')"
proof -
  have g: "string_to_gid (le_getgrnam sample_db) ''7'' = Ok 7" by code_simp
  have m: "le_malloc sample_db" and d: "default_srv_sgid_list g_ctx = []" by (simp_all add: sample_db_def g_ctx_def)
  have s: "set_default_sgids sample_db twenty_groups c = add_default_gids sample_db (replicate 20 ''7'') c"
    if "length (default_srv_sgid_list c) \<le> SERVICE_SGID_LIST_SIZE" for c
    using that by (simp add: set_default_sgids_def tokens_repeated Let_def m add_default_gids_repeated [OF g]
        SERVICE_SGID_LIST_SIZE_def)
  show ?thesis
    by (simp add: two_group_lists_def handle_option_def s d Let_def add_default_gids_repeated [OF g] SERVICE_SGID_LIST_SIZE_def)
qed

section \<open>Properties\<close>

text \<open>
  C25. The options leave a context whose fields fit their arrays and types (names shorter than 256 bytes, an
  absolute root directory, at most 32 groups, a umask of nine bits), whatever is on the command line; and a write
  behind the array of groups can happen only when the lists of all \<open>-s\<close> options together have more than 32 elements,
  although each list by itself is checked.
\<close>

theorem options_fit_context:
  assumes "parse_args env opts rest c = (r, c')" and "context_ok c"
  shows "context_ok c' \<and> (r = Halt (Undefined u) \<longrightarrow>
    SERVICE_SGID_LIST_SIZE < length (default_srv_sgid_list c) + length (group_tokens opts))"
  using parse_args_ok [OF assms, of u] .

theorem options_fit_context_witness:
  "context_ok (snd (parse_args sample_db two_group_lists [] g_ctx)) \<and> SERVICE_SGID_LIST_SIZE < length (group_tokens two_group_lists)"
proof -
  have r: "parse_args sample_db two_group_lists [] g_ctx
      = (Halt (Undefined ''write behind the end of default_srv_sgid_list''), snd (parse_args sample_db two_group_lists [] g_ctx))"
    using repeated_groups_overflow by (metis surjective_pairing)
  have "context_ok g_ctx" by code_simp
  from options_fit_context [OF r this, of "''write behind the end of default_srv_sgid_list''"]
  show ?thesis by (simp add: g_ctx_def)
qed

end
