(* ===== verification/LogSystem.thy ===== *)
theory LogSystem
  imports Numbers Runtime
begin

text \<open>
  The ground of \<open>src/src/logmonitor/logmonitor.c\<close>: its data, what the system answers to its calls, the string
  helpers, the reads, and the programs it runs.

  The system is an oracle: the answer to a call is a function of the number of calls made before (\<open>lm_ticks\<close>) and of
  the arguments. \<open>LM_ERROR\<close> is \<open>Exn\<close> with the message that was printed last; a \<open>NULL\<close> string of a notification or a
  target is the empty string, which the code treats alike. A pointer to a target is its index in the context, so
  notifications share the targets. Memory is released without a trace.
\<close>

section \<open>Data\<close>

definition MAX_NUM_NOTIFICATIONS :: nat where "MAX_NUM_NOTIFICATIONS = 16"
definition MAX_NUM_MONITORED_FILES_PER_NOTIFICATION :: nat where "MAX_NUM_MONITORED_FILES_PER_NOTIFICATION = 4"
definition MAX_NUM_TARGETS :: nat where "MAX_NUM_TARGETS = 16"
definition MAX_READ_FILE_SIZE :: int where "MAX_READ_FILE_SIZE = 100 * 1024"

record lm_target =
  tg_name :: string
  tg_send :: string
  debouncing :: int
  last_notif_sent :: "int list"

record lm_notification =
  nt_name :: string
  nt_filter :: string
  nt_title :: string
  is_title_exe :: bool
  nt_desc :: string
  is_desc_exe :: bool
  nt_level :: string
  is_level_exe :: bool
  nt_files :: "(string \<times> bool) list"      \<comment> \<open>path and \<open>is_status\<close>\<close>
  nt_targets :: "nat list"

record file_stat =
  st_size :: int
  st_mtime :: int
  st_dev :: int
  st_ino :: int

record lm_file =
  mf_path :: string
  mf_fd :: int
  is_status :: bool
  last_read :: int
  last_stat :: file_stat
  pending_buf :: "string option"

text \<open>
  What the program does to the outside. \<open>LineSeen\<close> and \<open>Stamped\<close> leave no trace outside: they mark the call of
  \<open>handle_line\<close> for a monitored file, and the time that is stored for a target and a notification.
\<close>

datatype lm_action =
    Printed string
  | PrintedErr string
  | Ran string "string list"
  | Sent string "string list"
  | LineSeen nat string
  | Stamped nat nat int
  | OpenedFile string int
  | ClosedFile int
  | ReapedChildren nat
  | SleptSeconds nat

record lm =
  config_dir :: string
  monitored_files :: "lm_file list"
  notifications :: "lm_notification list"
  targets :: "lm_target list"
  lm_debug :: bool
  lm_ticks :: nat
  lm_pos :: "int \<Rightarrow> int"             \<comment> \<open>the file position of an open descriptor\<close>
  lm_actions :: "lm_action list"

section \<open>The system\<close>

text \<open>
  The answers to consecutive reads of a descriptor; when they are used up the file has ended. A \<open>read\<close> gives at most
  the bytes that were asked for, and the others with the next call.
\<close>

datatype read_ans = Bytes "char list" | Eintr | Eagain | Efail

datatype wait_ans = WaitEintr | WaitError | WaitDone wstatus

text \<open>What becomes of a program that is run: the errors of \<open>pipe\<close> and \<open>fork\<close>, its output, its end.\<close>

record run_answer =
  ra_pipe :: "string option"
  ra_fork :: "string option"
  ra_reads :: "read_ans list"
  ra_wait :: "wait_ans list"

record lm_os =
  lo_clock :: "nat \<Rightarrow> clock_answer"
  lo_uptime :: "nat \<Rightarrow> string + int"
  lo_malloc :: "nat \<Rightarrow> bool"
  lo_run :: "nat \<Rightarrow> string \<Rightarrow> string list \<Rightarrow> run_answer"
  lo_fork :: "nat \<Rightarrow> string option"
  lo_stat :: "nat \<Rightarrow> string \<Rightarrow> file_stat option"
  lo_fstat :: "nat \<Rightarrow> int \<Rightarrow> file_stat option"
  lo_open :: "nat \<Rightarrow> string \<Rightarrow> int"
  lo_read :: "nat \<Rightarrow> int \<Rightarrow> int \<Rightarrow> read_ans list"   \<comment> \<open>descriptor and file position\<close>
  lo_zombies :: "nat \<Rightarrow> nat"
  lo_strerror :: "nat \<Rightarrow> string"

definition lm_tick :: "lm \<Rightarrow> lm" where "lm_tick c = c\<lparr>lm_ticks := Suc (lm_ticks c)\<rparr>"

definition put :: "lm_action \<Rightarrow> lm \<Rightarrow> lm" where "put a c = c\<lparr>lm_actions := lm_actions c @ [a]\<rparr>"

definition INFO :: "string \<Rightarrow> lm \<Rightarrow> lm" where "INFO msg = put (Printed msg)"
definition ERROR :: "string \<Rightarrow> lm \<Rightarrow> lm" where "ERROR msg = put (Printed msg)"
definition DEBUG :: "string \<Rightarrow> lm \<Rightarrow> lm" where "DEBUG msg c = (if lm_debug c then put (Printed msg) c else c)"

definition SET_ERROR :: "string \<Rightarrow> lm \<Rightarrow> 'a res \<times> lm" where "SET_ERROR msg c = (Exn msg, ERROR msg c)"

text \<open>An error that is followed by another message.\<close>

fun or_error :: "'a res \<times> lm \<Rightarrow> string \<Rightarrow> 'a res \<times> lm" where
  "or_error (Exn e, c) msg = SET_ERROR msg c"
| "or_error p msg = p"

definition lm_get_time :: "lm_os \<Rightarrow> lm \<Rightarrow> int res \<times> lm" where
  "lm_get_time os c =
     (case lo_clock os (lm_ticks c) of
        Monotonic sec nsec \<Rightarrow> (Ok (sec + nsec div 1000000000), lm_tick c)
      | ClockError \<Rightarrow>
          (Halt (Aborted ''get_time''),
           ERROR (''FATAL: Could not get time: '' @ lo_strerror os (lm_ticks c) @ ''.'') (lm_tick c))
      | NotPermitted \<Rightarrow>
          (case lo_uptime os (lm_ticks c) of
             Inr t \<Rightarrow> (Ok t, lm_tick c)
           | Inl why \<Rightarrow> (Halt (Aborted ''get_time''), ERROR (''FATAL: Could not get time: '' @ why @ ''.'') (lm_tick c))))"

section \<open>Strings\<close>

definition str_ends_with :: "string \<Rightarrow> char \<Rightarrow> bool" where
  "str_ends_with str c \<longleftrightarrow> str \<noteq> [] \<and> last str = c"

definition str_starts_with :: "string \<Rightarrow> char \<Rightarrow> bool" where
  "str_starts_with str c \<longleftrightarrow> str \<noteq> [] \<and> hd str = c"

definition join_path :: "string \<Rightarrow> string \<Rightarrow> string" where
  "join_path dir file =
     dir @ (if \<not> str_ends_with dir (CHR ''/'') \<and> \<not> str_starts_with file (CHR ''/'') then ''/'' else '''') @ file"

definition terminate_str_at_first_eol :: "string \<Rightarrow> string" where
  "terminate_str_at_first_eol str = first_line str"

section \<open>Reads\<close>

fun safe_read :: "read_ans list \<Rightarrow> nat \<Rightarrow> string option \<times> read_ans list" where
  "safe_read [] n = (Some [], [])"
| "safe_read (Eintr # s) n = safe_read s n"
| "safe_read (Eagain # s) n = (Some [], s)"
| "safe_read (Efail # s) n = (None, s)"
| "safe_read (Bytes b # s) n = (if length b \<le> n then (Some b, s) else (Some (take n b), Bytes (drop n b) # s))"

function full_read :: "read_ans list \<Rightarrow> nat \<Rightarrow> string option \<times> read_ans list" where
  "full_read s len =
     (if len = 0 then (Some [], s)
      else
        (case safe_read s len of
           (None, s1) \<Rightarrow> (None, s1)
         | (Some cc, s1) \<Rightarrow>
             (if cc = [] then (Some [], s1)
              else
                (case full_read s1 (len - length cc) of
                   (None, s2) \<Rightarrow> (Some cc, s2)
                 | (Some b, s2) \<Rightarrow> (Some (cc @ b), s2)))))"
  by pat_completeness auto
termination by (relation "measure (\<lambda>(s, n). n)") auto

declare full_read.simps [simp del]

lemma safe_read_length: "safe_read s n = (Some b, s') \<Longrightarrow> length b \<le> n"
  by (induction s n rule: safe_read.induct) (auto split: if_splits)

lemma full_read_length: "full_read s n = (Some b, s') \<Longrightarrow> length b \<le> n"
proof (induction s n arbitrary: b s' rule: full_read.induct)
  case (1 s n)
  show ?case
  proof (cases "n = 0")
    case True
    with 1(2) show ?thesis by (simp add: full_read.simps [of s 0])
  next
    case False
    obtain r s1 where r: "safe_read s n = (r, s1)" by fastforce
    with False 1(2) obtain cc where cc: "r = Some cc" by (cases r) (auto simp: full_read.simps [of s n])
    have l: "length cc \<le> n" using safe_read_length r cc by blast
    show ?thesis
    proof (cases "cc = []")
      case True
      with 1(2) r cc False show ?thesis by (simp add: full_read.simps [of s n])
    next
      case n: False
      obtain q s2 where q: "full_read s1 (n - length cc) = (q, s2)" by fastforce
      have "length m \<le> n - length cc" if "q = Some m" for m
        using 1(1) [OF False r [unfolded cc, symmetric] refl n] q that by blast
      with 1(2) r cc False n q l show ?thesis by (cases q) (auto simp: full_read.simps [of s n])
    qed
  qed
qed

definition tail_read :: "lm_os \<Rightarrow> int \<Rightarrow> nat \<Rightarrow> lm \<Rightarrow> string option \<times> lm" where
  "tail_read os fd cnt c =
     (case fst (full_read (lo_read os (lm_ticks c) fd (lm_pos c fd)) cnt) of
        None \<Rightarrow> (None, ERROR (''read error: '' @ lo_strerror os (lm_ticks c)) (lm_tick c))
      | Some b \<Rightarrow> (Some b, (lm_tick c)\<lparr>lm_pos := (lm_pos c)(fd := lm_pos c fd + int (length b))\<rparr>))"

section \<open>Programs\<close>

text \<open>\<open>waitpid\<close>, again after an interruption.\<close>

fun wait_child :: "wait_ans list \<Rightarrow> wstatus option res" where
  "wait_child [] = Halt (Hangs ''waitpid'')"
| "wait_child (WaitEintr # w) = wait_child w"
| "wait_child (WaitError # w) = Ok None"
| "wait_child (WaitDone st # w) = Ok (Some st)"

text \<open>
  The parent: what is read from the pipe (\<open>outputsize - 1\<close> bytes at most) is a C string in \<open>output\<close>; the exit code
  is stored also when the read failed. \<open>Ran\<close> records the arguments of \<open>execv\<close> in the child, which exits with 127 when
  that fails.
\<close>

definition child_argv :: "string \<Rightarrow> string list \<Rightarrow> string list" where
  "child_argv exec args = exec # args"

definition invoke_exec :: "lm_os \<Rightarrow> string \<Rightarrow> string list \<Rightarrow> nat \<Rightarrow> lm \<Rightarrow> (int \<times> string) res \<times> lm" where
  "invoke_exec os exec args outputsize c =
     (let a = lo_run os (lm_ticks c) exec args; redirect_stdout = (0 < outputsize); c0 = lm_tick c in
      if redirect_stdout \<and> ra_pipe a \<noteq> None then SET_ERROR (''Pipe creation failed: '' @ the (ra_pipe a) @ ''.'') c0
      else if ra_fork a \<noteq> None then SET_ERROR (''Fork failed: '' @ the (ra_fork a) @ ''.'') c0
      else
        (let c1 = put (Ran exec (child_argv exec args)) c0;
             cnt = (if redirect_stdout then fst (full_read (ra_reads a) (outputsize - 1)) else Some []);
             c2 = (if cnt = None then ERROR ''Failed to read output of child.'' c1 else c1) in
         case wait_child (ra_wait a) of
           Ok (Some (WExited code)) \<Rightarrow>
             (case cnt of
                None \<Rightarrow> (Exn ''Failed to read output of child.'', c2)
              | Some out \<Rightarrow> (Ok (code, cstr out), c2))
         | Ok (Some _) \<Rightarrow> (Exn '''', c2)
         | Ok None \<Rightarrow> SET_ERROR ''wait_pid failure'' c2
         | Exn e \<Rightarrow> (Exn e, c2)
         | Halt h \<Rightarrow> (Halt h, c2)))"

definition invoke_exec_no_wait :: "lm_os \<Rightarrow> string \<Rightarrow> string list \<Rightarrow> lm \<Rightarrow> unit res \<times> lm" where
  "invoke_exec_no_wait os exec args c =
     (case lo_fork os (lm_ticks c) of
        Some e \<Rightarrow> SET_ERROR (''Fork failed: '' @ e @ ''.'') (lm_tick c)
      | None \<Rightarrow> (Ok (), put (Sent exec (child_argv exec args)) (lm_tick c)))"

text \<open>Whether the filter accepts the line.\<close>

fun exit_success :: "(int \<times> string) res \<Rightarrow> bool res" where
  "exit_success (Ok (code, out)) = Ok (code = 0)"
| "exit_success (Exn e) = Ok False"
| "exit_success (Halt h) = Halt h"

definition invoke_filter :: "lm_os \<Rightarrow> string \<Rightarrow> string \<Rightarrow> lm \<Rightarrow> bool res \<times> lm" where
  "invoke_filter os filter_exe line c =
     (let (r, c1) = invoke_exec os filter_exe [line] 0 c in (exit_success r, c1))"

definition invoke_target :: "lm_os \<Rightarrow> string \<Rightarrow> string \<Rightarrow> string \<Rightarrow> string \<Rightarrow> lm \<Rightarrow> unit res \<times> lm" where
  "invoke_target os send_exe title desc level c = invoke_exec_no_wait os send_exe [title, desc, level] c"

section \<open>The ends of the loops over an array\<close>

text \<open>
  \<open>FOR_EACH_NOTIFICATION\<close> and \<open>FOR_EACH_TARGET\<close> load the entry behind the last one before they compare the index, so a
  loop that is not left early reads outside of the array when the array is full.
\<close>

definition array_end :: "nat \<Rightarrow> nat \<Rightarrow> string \<Rightarrow> lm \<Rightarrow> unit res \<times> lm" where
  "array_end num dim what c =
     (if num < dim then (Ok (), c) else (Halt (Undefined (''read behind the end of '' @ what)), c))"

end
