(* ===== verification/LogConfig.thy ===== *)
theory LogConfig
  imports LogSystem
begin

text \<open>
  The configuration of \<open>src/src/logmonitor/logmonitor.c\<close>: \<open>file2str\<close>, the targets and notifications that are read
  from their directories, and \<open>create_context\<close>, which collects the monitored files.
\<close>

section \<open>The files\<close>

datatype dtype = DT_REG | DT_DIR | DT_OTHER

text \<open>A file: its size (\<open>stat\<close>), whether it can be opened, the bytes that the first \<open>read\<close> gives.\<close>

record file_answer =
  fa_size :: "nat option"
  fa_open :: bool
  fa_read :: "char list option"

record lm_disk =
  ld_entries :: "string \<Rightarrow> (string \<times> dtype) list option"  \<comment> \<open>in the order of \<open>readdir\<close>\<close>
  ld_exec :: "string \<Rightarrow> bool"
  ld_file :: "string \<Rightarrow> file_answer"

text \<open>
  The buffer has the size of the file; when a single \<open>read\<close> gives less, and no terminator, the string runs into bytes
  that were never written.
\<close>

definition buffer_string :: "nat \<Rightarrow> char list \<Rightarrow> string res" where
  "buffer_string sz b =
     (if NUL \<in> set b \<or> length b = sz then Ok (cstr b) else Halt (Undefined ''read of memory that was never written''))"

definition file2str :: "lm_os \<Rightarrow> lm_disk \<Rightarrow> string \<Rightarrow> lm \<Rightarrow> string res \<times> lm" where
  "file2str os dk filepath c =
     (let f = ld_file dk filepath in
      case fa_size f of
        None \<Rightarrow> SET_ERROR (''Failed to get stats of '' @ quoted filepath @ ''.'') c
      | Some sz \<Rightarrow>
          (if int sz > MAX_READ_FILE_SIZE then SET_ERROR (''File too big: '' @ quoted filepath @ ''.'') c
           else if \<not> lo_malloc os (lm_ticks c) then
             SET_ERROR (''Failed to allocated '' @ dec_nat (sz + 1) @ '' bytes of memory to read file '' @ quoted filepath @ ''.'') c
           else if \<not> fa_open f then SET_ERROR (''Failed to open '' @ quoted filepath @ ''.'') c
           else
             (case fa_read f of
                None \<Rightarrow> SET_ERROR (''Failed to read '' @ quoted filepath @ ''.'') c
              | Some b \<Rightarrow> (buffer_string sz (take sz b), c))))"

text \<open>\<open>join_path\<close> and \<open>strdup\<close> with their allocation.\<close>

definition alloc_or :: "lm_os \<Rightarrow> 'a \<Rightarrow> string \<Rightarrow> lm \<Rightarrow> 'a res \<times> lm" where
  "alloc_or os x msg c = (if lo_malloc os (lm_ticks c) then (Ok x, c) else SET_ERROR msg c)"

text \<open>\<open>readdir\<close>, entry after entry, as long as no error has occurred.\<close>

fun for_entries :: "(string \<Rightarrow> dtype \<Rightarrow> 'x \<Rightarrow> lm \<Rightarrow> 'x res \<times> lm) \<Rightarrow> (string \<times> dtype) list \<Rightarrow> 'x \<Rightarrow> lm \<Rightarrow> 'x res \<times> lm" where
  "for_entries step [] x c = (Ok x, c)"
| "for_entries step ((name, ty) # es) x c = bind_st (step name ty x c) (\<lambda>y c1. for_entries step es y c1)"

section \<open>Targets\<close>

definition new_target :: "string \<Rightarrow> lm_target" where
  "new_target name = \<lparr>tg_name = name, tg_send = '''', debouncing = - 1, last_notif_sent = replicate MAX_NUM_NOTIFICATIONS 0\<rparr>"

text \<open>\<open>strtol\<close> with its checks.\<close>

definition debouncing_value :: "string \<Rightarrow> int option" where
  "debouncing_value s =
     (case subject 10 s of
        None \<Rightarrow> None
      | Some (neg, n, rest) \<Rightarrow>
          (let (val, erange) = strtol_value neg n in
           if rest \<noteq> [] \<or> ((LONG_MIN = val \<or> LONG_MAX = val) \<and> erange) \<or> val > INT_MAX \<or> val < 0 then None
           else Some val))"

definition target_entry :: "lm_os \<Rightarrow> lm_disk \<Rightarrow> string \<Rightarrow> string \<Rightarrow> dtype \<Rightarrow> lm_target \<Rightarrow> lm \<Rightarrow> lm_target res \<times> lm" where
  "target_entry os dk target_dir name ty t c =
     (if ty \<noteq> DT_REG then (Ok t, c)
      else bind_st (alloc_or os (join_path target_dir name) ''Failed to build path.'' c) (\<lambda>filepath c1.
        if name = ''send'' then
          (if ld_exec dk filepath then (Ok (t\<lparr>tg_send := filepath\<rparr>), c1)
           else SET_ERROR (''Target send '' @ quoted filepath @ '' not executable.'') c1)
        else if name = ''debouncing'' then
          bind_st (or_error (file2str os dk filepath c1) ''Failed to read target debouncing.'') (\<lambda>s c2.
            let str = terminate_str_at_first_eol s in
            case debouncing_value str of
              None \<Rightarrow> SET_ERROR (''Invalid debouncing value '' @ quoted str @ '' defined in '' @ filepath @ ''.'') c2
            | Some v \<Rightarrow> (Ok (t\<lparr>debouncing := v\<rparr>), c2))
        else (Ok t, c1)))"

definition alloc_target :: "lm_os \<Rightarrow> lm_disk \<Rightarrow> string \<Rightarrow> string \<Rightarrow> lm \<Rightarrow> lm_target res \<times> lm" where
  "alloc_target os dk targets_dir name c =
     bind_st (alloc_or os (join_path targets_dir name) ''Failed to build target directory path.'' c) (\<lambda>target_dir c1.
     bind_st (alloc_or os (new_target name) ''Failed to alloc memory for new target.'' c1) (\<lambda>t c2.
     case ld_entries dk target_dir of
       None \<Rightarrow> SET_ERROR (''Config directory '' @ quoted target_dir @ '' not found.'') c2
     | Some es \<Rightarrow>
         bind_st (for_entries (target_entry os dk target_dir) es t c2) (\<lambda>t1 c3.
           if tg_send t1 = [] then
             SET_ERROR (''Missing send executable for target defined at '' @ quoted target_dir @ ''.'') c3
           else (Ok t1, c3))))"

definition dot_entry :: "string \<Rightarrow> bool" where
  "dot_entry name \<longleftrightarrow> name = ''.'' \<or> name = ''..''"

definition load_target :: "lm_os \<Rightarrow> lm_disk \<Rightarrow> string \<Rightarrow> string \<Rightarrow> dtype \<Rightarrow> unit \<Rightarrow> lm \<Rightarrow> unit res \<times> lm" where
  "load_target os dk targets_dir name ty u c =
     (if ty \<noteq> DT_DIR \<or> dot_entry name then (Ok (), c)
      else if length (targets c) < MAX_NUM_TARGETS then
        bind_st (or_error (alloc_target os dk targets_dir name c) (''Failed to load target '' @ quoted name @ ''.''))
          (\<lambda>t c1. (Ok (), c1\<lparr>targets := targets c1 @ [t]\<rparr>))
      else SET_ERROR ''Too many targets defined.'' c)"

definition load_config_targets :: "lm_os \<Rightarrow> lm_disk \<Rightarrow> string \<Rightarrow> lm \<Rightarrow> unit res \<times> lm" where
  "load_config_targets os dk targets_dir c =
     (case ld_entries dk targets_dir of
        None \<Rightarrow> SET_ERROR (''Config directory not found: '' @ targets_dir @ ''.'') c
      | Some es \<Rightarrow> for_entries (load_target os dk targets_dir) es () c)"

section \<open>Notifications\<close>

definition new_notification :: "string \<Rightarrow> lm_notification" where
  "new_notification name =
     \<lparr>nt_name = name, nt_filter = '''', nt_title = '''', is_title_exe = False, nt_desc = '''', is_desc_exe = False,
      nt_level = '''', is_level_exe = False, nt_files = [], nt_targets = []\<rparr>"

definition level_ok :: "string \<Rightarrow> bool" where
  "level_ok l \<longleftrightarrow> l = ''ERROR'' \<or> l = ''WARNING'' \<or> l = ''INFO''"

text \<open>The tokens that \<open>strtok (str, "\n")\<close> finds; none of them is empty.\<close>

definition strtok_lines :: "string \<Rightarrow> string list" where
  "strtok_lines str = filter (\<lambda>f. f \<noteq> []) (Tokens.fields LF str)"

text \<open>The path of a source line, and whether it is a status file.\<close>

definition source_kind :: "string \<Rightarrow> string \<times> bool" where
  "source_kind token =
     (if take 4 token = ''log:'' then (drop 4 token, False)
      else if take 7 token = ''status:'' then (drop 7 token, True)
      else (token, False))"

fun add_sources :: "lm_os \<Rightarrow> string list \<Rightarrow> lm_notification \<Rightarrow> lm \<Rightarrow> lm_notification res \<times> lm" where
  "add_sources os [] n c = (Ok n, c)"
| "add_sources os (token # ts) n c =
     (let (path, status) = source_kind token in
      if path = [] then SET_ERROR ''Source file path is empty.'' c
      else if hd path \<noteq> CHR ''/'' then SET_ERROR ''Source file path is not absolute.'' c
      else if length (nt_files n) < MAX_NUM_MONITORED_FILES_PER_NOTIFICATION then
        bind_st (alloc_or os (n\<lparr>nt_files := nt_files n @ [(path, status)]\<rparr>)
            ''Failed to alloc memory for monitored file path.'' c) (\<lambda>n1 c1. add_sources os ts n1 c1)
      else SET_ERROR ''Maximum number of monitored files reached.'' c)"

definition find_target :: "string \<Rightarrow> lm_target list \<Rightarrow> nat option" where
  "find_target token ts = List.find (\<lambda>i. tg_name (ts ! i) = token) [0..<length ts]"

fun add_targets :: "string list \<Rightarrow> lm_notification \<Rightarrow> lm \<Rightarrow> lm_notification res \<times> lm" where
  "add_targets [] n c = (Ok n, c)"
| "add_targets (token # ts) n c =
     (case find_target token (targets c) of
        None \<Rightarrow>
          bind_st (array_end (length (targets c)) MAX_NUM_TARGETS ''targets'' c)
            (\<lambda>_ c1. SET_ERROR (''Invalid notification target value '' @ quoted token @ ''.'') c1)
      | Some i \<Rightarrow>
          (if length (nt_targets n) < MAX_NUM_TARGETS then add_targets ts (n\<lparr>nt_targets := nt_targets n @ [i]\<rparr>) c
           else SET_ERROR ''Maximum number of notification targets reached.'' c))"

text \<open>A title, a description or a level: the path of a program, or the first line of the file.\<close>

definition text_or_program :: "lm_os \<Rightarrow> lm_disk \<Rightarrow> string \<Rightarrow> string \<Rightarrow> lm \<Rightarrow> (string \<times> bool) res \<times> lm" where
  "text_or_program os dk filepath msg c =
     (if ld_exec dk filepath then (Ok (filepath, True), c)
      else bind_st (or_error (file2str os dk filepath c) msg) (\<lambda>s c1. (Ok (terminate_str_at_first_eol s, False), c1)))"

definition notification_file ::
  "lm_os \<Rightarrow> lm_disk \<Rightarrow> string \<Rightarrow> string \<Rightarrow> lm_notification \<Rightarrow> lm \<Rightarrow> lm_notification res \<times> lm" where
  "notification_file os dk filepath name n c =
     (if name = ''filter'' then
        (if ld_exec dk filepath then (Ok (n\<lparr>nt_filter := filepath\<rparr>), c)
         else SET_ERROR (''Notification filter '' @ quoted filepath @ '' not executable.'') c)
      else if name = ''title'' then
        bind_st (text_or_program os dk filepath ''Failed to read notification title.'' c)
          (\<lambda>(s, exe) c1. (Ok (n\<lparr>nt_title := s, is_title_exe := exe\<rparr>), c1))
      else if name = ''desc'' then
        bind_st (text_or_program os dk filepath ''Failed to read notification description.'' c)
          (\<lambda>(s, exe) c1. (Ok (n\<lparr>nt_desc := s, is_desc_exe := exe\<rparr>), c1))
      else if name = ''level'' then
        bind_st (text_or_program os dk filepath ''Failed to read notification level.'' c)
          (\<lambda>(s, exe) c1.
             if \<not> exe \<and> \<not> level_ok s then SET_ERROR (''Invalid level '' @ quoted s @ ''.'') c1
             else (Ok (n\<lparr>nt_level := s, is_level_exe := exe\<rparr>), c1))
      else if name = ''source'' then
        bind_st (or_error (file2str os dk filepath c) ''Failed to read notification monitored file path.'')
          (\<lambda>s c1. add_sources os (strtok_lines s) n c1)
      else if name = ''target'' then
        bind_st (or_error (file2str os dk filepath c) ''Failed to read notification target.'')
          (\<lambda>s c1. add_targets (strtok_lines s) n c1)
      else (Ok n, c))"

definition notification_entry ::
  "lm_os \<Rightarrow> lm_disk \<Rightarrow> string \<Rightarrow> string \<Rightarrow> dtype \<Rightarrow> lm_notification \<Rightarrow> lm \<Rightarrow> lm_notification res \<times> lm" where
  "notification_entry os dk notification_dir name ty n c =
     (if ty \<noteq> DT_REG then (Ok n, c)
      else bind_st (alloc_or os (join_path notification_dir name) ''Failed to build path.'' c)
        (\<lambda>filepath c1. notification_file os dk filepath name n c1))"

definition validate_notification :: "string \<Rightarrow> lm_notification \<Rightarrow> lm \<Rightarrow> unit res \<times> lm" where
  "validate_notification notification_dir n c =
     (if nt_filter n = [] then
        SET_ERROR (''Filter executable missing for notification defined at '' @ quoted notification_dir) c
      else if nt_title n = [] then SET_ERROR (''Title missing for notification defined at '' @ quoted notification_dir) c
      else if nt_desc n = [] then SET_ERROR (''Description missing for notification defined at '' @ quoted notification_dir) c
      else if nt_level n = [] then SET_ERROR (''Level missing for notification defined at '' @ quoted notification_dir) c
      else if nt_files n = [] then SET_ERROR ''At least one file to monitor must be specified.'' c
      else (Ok (), c))"

text \<open>Without a target of its own a notification goes to all of them.\<close>

definition default_targets :: "lm_notification \<Rightarrow> lm \<Rightarrow> lm_notification res \<times> lm" where
  "default_targets n c =
     (if nt_targets n = [] then
        bind_st (array_end (length (targets c)) MAX_NUM_TARGETS ''targets'' c)
          (\<lambda>_ c1. (Ok (n\<lparr>nt_targets := [0..<length (targets c1)]\<rparr>), c1))
      else (Ok n, c))"

definition alloc_notification :: "lm_os \<Rightarrow> lm_disk \<Rightarrow> string \<Rightarrow> string \<Rightarrow> lm \<Rightarrow> lm_notification res \<times> lm" where
  "alloc_notification os dk notifications_dir name c =
     bind_st (alloc_or os (join_path notifications_dir name) ''Failed to build notification directory path.'' c) (\<lambda>dir c1.
     bind_st (alloc_or os (new_notification name) ''Failed to alloc memory for new notification.'' c1) (\<lambda>n c2.
     case ld_entries dk dir of
       None \<Rightarrow> SET_ERROR (''Notification config '' @ quoted dir @ '' directory not found.'') c2
     | Some es \<Rightarrow>
         bind_st (for_entries (notification_entry os dk dir) es n c2) (\<lambda>n1 c3.
         bind_st (validate_notification dir n1 c3) (\<lambda>_ c4. default_targets n1 c4))))"

definition load_notification :: "lm_os \<Rightarrow> lm_disk \<Rightarrow> string \<Rightarrow> string \<Rightarrow> dtype \<Rightarrow> unit \<Rightarrow> lm \<Rightarrow> unit res \<times> lm" where
  "load_notification os dk notifications_dir name ty u c =
     (if ty \<noteq> DT_DIR \<or> dot_entry name then (Ok (), c)
      else if length (notifications c) < MAX_NUM_NOTIFICATIONS then
        bind_st (or_error (alloc_notification os dk notifications_dir name c) (''Failed to load notification '' @ quoted name @ ''.''))
          (\<lambda>n c1. (Ok (), c1\<lparr>notifications := notifications c1 @ [n]\<rparr>))
      else SET_ERROR ''Too many notifications defined.'' c)"

definition load_config_notifications :: "lm_os \<Rightarrow> lm_disk \<Rightarrow> string \<Rightarrow> lm \<Rightarrow> unit res \<times> lm" where
  "load_config_notifications os dk notifications_dir c =
     (case ld_entries dk notifications_dir of
        None \<Rightarrow> SET_ERROR (''Config directory '' @ quoted notifications_dir @ '' not found.'') c
      | Some es \<Rightarrow> for_entries (load_notification os dk notifications_dir) es () c)"

section \<open>The context\<close>

definition zero_stat :: file_stat where
  "zero_stat = \<lparr>st_size = 0, st_mtime = 0, st_dev = 0, st_ino = 0\<rparr>"

definition new_file :: "string \<Rightarrow> bool \<Rightarrow> lm_file" where
  "new_file path status =
     \<lparr>mf_path = path, mf_fd = - 1, is_status = status, last_read = 0, last_stat = zero_stat, pending_buf = None\<rparr>"

text \<open>The files of one notification after another, each path once.\<close>

fun monitor_files :: "lm_os \<Rightarrow> (string \<times> bool) list \<Rightarrow> lm \<Rightarrow> unit res \<times> lm" where
  "monitor_files os [] c = (Ok (), c)"
| "monitor_files os ((path, status) # fs) c =
     (case List.find (\<lambda>mf. mf_path mf = path) (monitored_files c) of
        Some mf \<Rightarrow>
          (if is_status mf = status then monitor_files os fs c
           else SET_ERROR (''Monitored file defined multiple times with different types: '' @ path @ ''.'') c)
      | None \<Rightarrow>
          bind_st (alloc_or os (new_file path status) ''Failed to alloc memory for monitored file path.'' c)
            (\<lambda>mf c1. monitor_files os fs (c1\<lparr>monitored_files := monitored_files c1 @ [mf]\<rparr>)))"

fun monitor_notifications :: "lm_os \<Rightarrow> lm_notification list \<Rightarrow> lm \<Rightarrow> unit res \<times> lm" where
  "monitor_notifications os [] c = array_end (length (notifications c)) MAX_NUM_NOTIFICATIONS ''notifications'' c"
| "monitor_notifications os (n # ns) c =
     bind_st (monitor_files os (nt_files n) c) (\<lambda>_ c1. monitor_notifications os ns c1)"

definition empty_context :: "lm \<Rightarrow> lm" where
  "empty_context c = c\<lparr>config_dir := '''', notifications := [], targets := [], monitored_files := []\<rparr>"

definition destroy_context :: "lm \<Rightarrow> unit res \<times> lm" where
  "destroy_context c =
     bind_st (array_end (length (notifications c)) MAX_NUM_NOTIFICATIONS ''notifications'' c) (\<lambda>_ c1.
     bind_st (array_end (length (targets c1)) MAX_NUM_TARGETS ''targets'' c1) (\<lambda>_ c2. (Ok (), empty_context c2)))"

text \<open>The steps that can fail; \<open>load_context\<close> takes a context that \<open>calloc\<close> has cleared.\<close>

definition load_context :: "lm_os \<Rightarrow> lm_disk \<Rightarrow> string \<Rightarrow> lm \<Rightarrow> unit res \<times> lm" where
  "load_context os dk cfgdir c =
     bind_st (alloc_or os cfgdir ''Failed to set context configuration directory.'' c) (\<lambda>dir c0.
     bind_st (alloc_or os (join_path dir ''targets.d'') ''Failed to build targets directory path.''
               (c0\<lparr>config_dir := dir\<rparr>)) (\<lambda>path c2.
     bind_st (load_config_targets os dk path c2) (\<lambda>_ c3.
     bind_st (alloc_or os (join_path dir ''notifications.d'') ''Failed to build notifications directory path.'' c3) (\<lambda>path c4.
     bind_st (load_config_notifications os dk path c4) (\<lambda>_ c5.
       monitor_notifications os (notifications c5) c5)))))"

definition create_context :: "lm_os \<Rightarrow> lm_disk \<Rightarrow> string \<Rightarrow> lm \<Rightarrow> unit res \<times> lm" where
  "create_context os dk cfgdir c =
     bind_st (alloc_or os () ''Failed to alloc memory for context.'' c) (\<lambda>_ c0.
     case load_context os dk cfgdir (empty_context c0) of
       (Exn e, c1) \<Rightarrow> bind_st (destroy_context c1) (\<lambda>_ c2. (Exn e, c2))
     | p \<Rightarrow> p)"

end
