(* ===== verification/LogLines.thy ===== *)
theory LogLines
  imports LogSystem
begin

text \<open>
  What \<open>src/src/logmonitor/logmonitor.c\<close> does with what it has read: \<open>handle_read\<close> cuts the text into lines, and
  \<open>handle_line\<close> runs the filters, works out title, description and level, and sends to the targets.
\<close>

section \<open>One line\<close>

definition BUFFER_SIZE :: nat where "BUFFER_SIZE = 512"

text \<open>The text of a notification, or what its program prints; \<open>None\<close> when that fails.\<close>

definition notification_text ::
  "lm_os \<Rightarrow> string \<Rightarrow> bool \<Rightarrow> string \<Rightarrow> (string \<Rightarrow> bool) \<Rightarrow> string \<Rightarrow> lm \<Rightarrow> string option res \<times> lm" where
  "notification_text os what exe val valid line c =
     (if \<not> exe then (Ok (Some val), c)
      else if \<not> lo_malloc os (lm_ticks c) then
        (Ok None, ERROR (''Notification '' @ what @ '' memory allocation failure: '' @ val @ ''.'') c)
      else
        (case invoke_exec os val [line] BUFFER_SIZE c of
           (Ok (code, out), c1) \<Rightarrow>
             (if code \<noteq> 0 then
                (Ok None, ERROR (''Notification '' @ what @ '' execution exited with code '' @ dec_int code @ '': '' @ val @ ''.'') c1)
              else
                (let s = terminate_str_at_first_eol out in
                 if valid s then (Ok (Some s), c1)
                 else (Ok None, ERROR (''Notification level level '' @ quoted s @ '' invalid: '' @ val @ ''.'') c1)))
         | (Exn e, c1) \<Rightarrow> (Ok None, ERROR (''Notification '' @ what @ '' execution failure: '' @ val @ ''.'') c1)
         | (Halt h, c1) \<Rightarrow> (Halt h, c1)))"

definition valid_level :: "string \<Rightarrow> bool" where
  "valid_level l \<longleftrightarrow> \<not> (l \<noteq> ''ERROR'' \<and> l \<noteq> ''WARNING'' \<and> l \<noteq> ''INFO'')"

definition EXECERROR :: "string option \<Rightarrow> string" where
  "EXECERROR s = (case s of Some t \<Rightarrow> t | None \<Rightarrow> ''EXECERROR'')"

text \<open>Whether the last notification to the target is too recent; with \<open>0\<close> it is sent only once.\<close>

definition debounced :: "lm_os \<Rightarrow> nat \<Rightarrow> lm_target \<Rightarrow> lm \<Rightarrow> bool res \<times> lm" where
  "debounced os nidx t c =
     (if last_notif_sent t ! nidx > 0 then
        (if debouncing t = 0 then (Ok True, c)
         else if debouncing t > 0 then
           bind_st (lm_get_time os c) (\<lambda>now c1. (Ok (now - last_notif_sent t ! nidx < debouncing t), c1))
         else (Ok False, c))
      else (Ok False, c))"

definition set_last_sent :: "nat \<Rightarrow> nat \<Rightarrow> int \<Rightarrow> lm \<Rightarrow> lm" where
  "set_last_sent tidx nidx t c =
     put (Stamped tidx nidx t)
       (c\<lparr>targets := (targets c)[tidx := (targets c ! tidx)\<lparr>last_notif_sent := (last_notif_sent (targets c ! tidx))[nidx := t]\<rparr>]\<rparr>)"

definition send_target :: "lm_os \<Rightarrow> nat \<Rightarrow> string \<Rightarrow> string \<Rightarrow> string \<Rightarrow> nat \<Rightarrow> lm \<Rightarrow> unit res \<times> lm" where
  "send_target os nidx title desc level tidx c =
     bind_st (debounced os nidx (targets c ! tidx) c) (\<lambda>skip c1.
       if skip then (Ok (), DEBUG (''Ignoring target '' @ quoted (tg_name (targets c1 ! tidx)) @ '': debouncing.'') c1)
       else
         (let (r, c2) = invoke_target os (tg_send (targets c1 ! tidx)) title desc level
                          (DEBUG (''Invoking target '' @ quoted (tg_name (targets c1 ! tidx)) @ ''...'') c1) in
          bind_st (lm_get_time os c2) (\<lambda>now c3. (Ok (), set_last_sent tidx nidx now c3))))"

fun send_targets :: "lm_os \<Rightarrow> nat \<Rightarrow> string \<Rightarrow> string \<Rightarrow> string \<Rightarrow> nat \<Rightarrow> nat list \<Rightarrow> lm \<Rightarrow> unit res \<times> lm" where
  "send_targets os nidx title desc level num [] c = array_end num MAX_NUM_TARGETS ''targets of a notification'' c"
| "send_targets os nidx title desc level num (tidx # ts) c =
     bind_st (send_target os nidx title desc level tidx c)
       (\<lambda>_ c1. send_targets os nidx title desc level num ts c1)"

definition monitors :: "lm_notification \<Rightarrow> string \<Rightarrow> bool" where
  "monitors n path \<longleftrightarrow> path \<in> fst ` set (nt_files n)"

definition notify :: "lm_os \<Rightarrow> nat \<Rightarrow> lm_notification \<Rightarrow> string \<Rightarrow> lm \<Rightarrow> unit res \<times> lm" where
  "notify os nidx n line c =
     bind_st (notification_text os ''title'' (is_title_exe n) (nt_title n) (\<lambda>_. True) line c) (\<lambda>title c1.
     bind_st (notification_text os ''description'' (is_desc_exe n) (nt_desc n) (\<lambda>_. True) line c1) (\<lambda>desc c2.
     bind_st (notification_text os ''level'' (is_level_exe n) (nt_level n) valid_level line c2) (\<lambda>level c3.
       send_targets os nidx (EXECERROR title) (EXECERROR desc) (EXECERROR level) (length (nt_targets n)) (nt_targets n) c3)))"

definition handle_notification :: "lm_os \<Rightarrow> nat \<Rightarrow> string \<Rightarrow> nat \<Rightarrow> lm_notification \<Rightarrow> lm \<Rightarrow> unit res \<times> lm" where
  "handle_notification os mfid line nidx n c =
     (if \<not> monitors n (mf_path (monitored_files c ! mfid)) then (Ok (), c)
      else bind_st (invoke_filter os (nt_filter n) line
                     (DEBUG (''Invoking filter for notification '' @ quoted (nt_name n) @ ''...'') c)) (\<lambda>match c1.
        if match then notify os nidx n line (DEBUG ''Filter result: match.'' c1)
        else (Ok (), DEBUG ''Filter result: no match.'' c1)))"

fun handle_notifications :: "lm_os \<Rightarrow> nat \<Rightarrow> string \<Rightarrow> nat \<Rightarrow> lm_notification list \<Rightarrow> lm \<Rightarrow> unit res \<times> lm" where
  "handle_notifications os mfid line nidx [] c = array_end nidx MAX_NUM_NOTIFICATIONS ''notifications'' c"
| "handle_notifications os mfid line nidx (n # ns) c =
     bind_st (handle_notification os mfid line nidx n c)
       (\<lambda>_ c1. handle_notifications os mfid line (Suc nidx) ns c1)"

definition handle_line :: "lm_os \<Rightarrow> nat \<Rightarrow> string \<Rightarrow> lm \<Rightarrow> unit res \<times> lm" where
  "handle_line os mfid line c = handle_notifications os mfid line 0 (notifications c) (put (LineSeen mfid line) c)"

section \<open>The files stay while a line is handled\<close>

text \<open>
  While a line is handled the monitored files, with the text that is pending, and the positions in them stay, no other
  line is handled, no file is opened or closed, and no loop of the model runs out of fuel.
\<close>

fun is_file_action :: "lm_action \<Rightarrow> bool" where
  "is_file_action (LineSeen i l) = True"
| "is_file_action (OpenedFile path fd) = True"
| "is_file_action (ClosedFile fd) = True"
| "is_file_action _ = False"

definition files_kept :: "lm \<Rightarrow> lm \<Rightarrow> bool" where
  "files_kept c c' \<longleftrightarrow> monitored_files c' = monitored_files c \<and> lm_pos c' = lm_pos c
     \<and> (\<exists>new. lm_actions c' = lm_actions c @ new \<and> (\<forall>a\<in>set new. \<not> is_file_action a))"

definition same_files :: "lm \<Rightarrow> 'a res \<times> lm \<Rightarrow> bool" where
  "same_files c p \<longleftrightarrow> files_kept c (snd p) \<and> fst p \<noteq> Halt NoFuel"

lemma files_kept_refl [simp]: "files_kept c c"
  by (simp add: files_kept_def)

lemma files_kept_trans: "files_kept a b \<Longrightarrow> files_kept b c \<Longrightarrow> files_kept a c"
  by (auto simp: files_kept_def)

lemma same_files_return [simp]: "same_files c (r, c') \<longleftrightarrow> files_kept c c' \<and> r \<noteq> Halt NoFuel"
  by (simp add: same_files_def)

lemma same_files_bind: "same_files c p \<Longrightarrow> (\<And>x c1. p = (Ok x, c1) \<Longrightarrow> same_files c1 (f x c1)) \<Longrightarrow> same_files c (bind_st p f)"
  by (cases p; cases "fst p") (auto simp: same_files_def intro: files_kept_trans)

lemma same_files_after: "files_kept c c1 \<Longrightarrow> same_files c1 p \<Longrightarrow> same_files c p"
  by (auto simp: same_files_def intro: files_kept_trans)

lemma same_files_if: "(b \<Longrightarrow> same_files c p) \<Longrightarrow> (\<not> b \<Longrightarrow> same_files c q) \<Longrightarrow> same_files c (if b then p else q)"
  by simp

lemma files_put: "\<not> is_file_action a \<Longrightarrow> files_kept c d \<Longrightarrow> files_kept c (put a d)"
  by (auto simp: files_kept_def put_def)

lemma files_say [simp]: "files_kept c d \<Longrightarrow> files_kept c (ERROR m d)" "files_kept c d \<Longrightarrow> files_kept c (DEBUG m d)"
  "files_kept c d \<Longrightarrow> files_kept c (lm_tick d)" "files_kept c d \<Longrightarrow> files_kept c (set_last_sent i j t d)"
  "files_kept c d \<Longrightarrow> files_kept c (put (Ran e args) d)" "files_kept c d \<Longrightarrow> files_kept c (put (Sent e args) d)"
  by (auto simp: files_kept_def put_def ERROR_def DEBUG_def lm_tick_def set_last_sent_def)

named_theorems files

lemma files_array_end [files]: "same_files c (array_end n d w c)"
  by (simp add: array_end_def)

lemma files_get_time [files]: "same_files c (lm_get_time os c)"
  by (simp add: lm_get_time_def split: clock_answer.split sum.split)

lemma wait_child_fuel: "wait_child w \<noteq> Halt NoFuel"
  by (induction w rule: wait_child.induct) auto

lemma files_invoke_exec [files]: "same_files c (invoke_exec os exec args n c)"
  using wait_child_fuel [of "ra_wait (lo_run os (lm_ticks c) exec args)"]
  by (auto simp: invoke_exec_def Let_def SET_ERROR_def split: res.split option.split wstatus.split)

lemma files_no_wait: "invoke_exec_no_wait os exec args c = (r, c') \<Longrightarrow> files_kept c c'"
  by (auto simp: invoke_exec_no_wait_def SET_ERROR_def split: option.splits)

lemma exit_success_fuel: "r \<noteq> Halt NoFuel \<Longrightarrow> exit_success r \<noteq> Halt NoFuel"
  by (cases r rule: exit_success.cases) auto

lemma files_filter [files]: "same_files c (invoke_filter os f l c)"
  using files_invoke_exec [of c os f "[l]" 0]
  by (auto simp: invoke_filter_def same_files_def exit_success_fuel split: prod.split)

lemma files_text [files]: "same_files c (notification_text os what exe val ok line c)"
proof -
  obtain r c1 where e: "invoke_exec os val [line] BUFFER_SIZE c = (r, c1)" by fastforce
  then have "files_kept c c1" "r \<noteq> Halt NoFuel" using files_invoke_exec [of c os val "[line]" BUFFER_SIZE] by simp_all
  then show ?thesis by (cases r) (simp_all add: notification_text_def e Let_def case_prod_beta)
qed

lemma files_debounced [files]: "same_files c (debounced os nidx t c)"
  by (auto simp: debounced_def intro!: same_files_bind files)

lemma files_send_target [files]: "same_files c (send_target os nidx a b l tidx c)"
  unfolding send_target_def
proof (rule same_files_bind [OF files_debounced], goal_cases)
  case (1 skip c1)
  let ?m = "DEBUG (''Invoking target '' @ quoted (tg_name (targets c1 ! tidx)) @ ''...'') c1"
  obtain r c2 where i: "invoke_target os (tg_send (targets c1 ! tidx)) a b l ?m = (r, c2)" by fastforce
  then have "files_kept ?m c2" by (intro files_no_wait) (simp add: invoke_target_def)
  then have "files_kept c1 c2" by (rule files_kept_trans [rotated]) simp
  moreover have "same_files c2 (bind_st (lm_get_time os c2) (\<lambda>now c3. (Ok (), set_last_sent tidx nidx now c3)))"
    by (rule same_files_bind [OF files_get_time]) simp
  ultimately have "same_files c1 (bind_st (lm_get_time os c2) (\<lambda>now c3. (Ok (), set_last_sent tidx nidx now c3)))"
    by (rule same_files_after)
  then show ?case by (cases skip) (simp_all only: i Let_def prod.case if_True if_False, simp)
qed

lemma files_send_targets [files]: "same_files c (send_targets os nidx a b l n ts c)"
  by (induction ts arbitrary: c) (auto intro!: same_files_bind files)

lemma files_notify [files]: "same_files c (notify os nidx n line c)"
  unfolding notify_def by (intro same_files_bind files)

lemma files_notification [files]: "same_files c (handle_notification os i line nidx n c)"
proof -
  have d: "files_kept c (DEBUG m c)" for m c by simp
  have "same_files c1 (if match then notify os nidx n line (DEBUG m c1) else (Ok (), DEBUG k c1))" for match m k c1
    using same_files_after [OF d files_notify] by simp
  moreover have "same_files c (invoke_filter os (nt_filter n) line (DEBUG m c))" for m
    by (rule same_files_after [OF d files_filter])
  ultimately show ?thesis unfolding handle_notification_def by (auto intro!: same_files_bind)
qed

lemma files_notifications [files]: "same_files c (handle_notifications os i line nidx ns c)"
  by (induction ns arbitrary: c nidx) (auto intro!: same_files_bind files)

lemma files_handle_line: "same_files (put (LineSeen i line) c) (handle_line os i line c)"
  unfolding handle_line_def by (rule files_notifications)

lemma handle_line_files: "handle_line os i line c = (r, c') \<Longrightarrow> monitored_files c' = monitored_files c"
  using files_handle_line [of i line c os] by (simp add: files_kept_def put_def)

section \<open>What was read\<close>

definition set_pending :: "nat \<Rightarrow> string option \<Rightarrow> lm \<Rightarrow> lm" where
  "set_pending i p c = c\<lparr>monitored_files := (monitored_files c)[i := (monitored_files c ! i)\<lparr>pending_buf := p\<rparr>]\<rparr>"

definition pending_of :: "nat \<Rightarrow> lm \<Rightarrow> string option" where
  "pending_of i c = (if i < length (monitored_files c) then pending_buf (monitored_files c ! i) else None)"

lemma pending_set [simp]: "pending_of i (set_pending i None c) = None"
  "i < length (monitored_files c) \<Longrightarrow> pending_of i (set_pending i p c) = p"
  by (simp_all add: pending_of_def set_pending_def)

lemma pending_files: "monitored_files c' = monitored_files c \<Longrightarrow> pending_of i c' = pending_of i c"
  by (simp add: pending_of_def)

definition MAX_PENDING :: int where "MAX_PENDING = 500 * 1024"

text \<open>The work buffer: what is pending and the new text, or a message why there is none.\<close>

definition work_buffer :: "lm_os \<Rightarrow> string option \<Rightarrow> string \<Rightarrow> nat \<Rightarrow> string + string" where
  "work_buffer os pending buf t =
     (case pending of
        Some p \<Rightarrow>
          (if int (length p + length buf + 1) > MAX_PENDING then Inl ''line too long''
           else if lo_malloc os t then Inr (p @ buf) else Inl ''memory reallocation error'')
      | None \<Rightarrow> (if lo_malloc os t then Inr buf else Inl ''string duplication error''))"

definition drop_cr :: "string \<Rightarrow> string" where
  "drop_cr l = (if l \<noteq> [] \<and> last l = CR then butlast l else l)"

lemma bind_line_cong [fundef_cong]:
  "p = q \<Longrightarrow> (\<And>x s. q = (Ok x, s) \<Longrightarrow> f x s = g x s) \<Longrightarrow> bind_st p f = bind_st q g"
  by (cases q; cases "fst q") auto

definition unread :: "nat \<Rightarrow> string \<Rightarrow> lm \<Rightarrow> nat" where
  "unread i buf c = length buf + (case pending_of i c of None \<Rightarrow> 0 | Some p \<Rightarrow> length p)"

lemma files_line: "(if line \<noteq> [] then handle_line os i line c1 else (Ok (), c1)) = (r, c2)
    \<Longrightarrow> monitored_files c2 = monitored_files c1"
  by (auto dest: handle_line_files split: if_splits)

lemma next_line_shorter: "LF \<in> set work \<Longrightarrow> length (tl (dropWhile (\<lambda>x. x \<noteq> LF) work)) < length work"
  using length_dropWhile_le [of "\<lambda>x. x \<noteq> LF" work] by (cases work) (auto simp: le_imp_less_Suc)

function handle_read :: "lm_os \<Rightarrow> nat \<Rightarrow> string \<Rightarrow> lm \<Rightarrow> unit res \<times> lm" where
  "handle_read os mfid buf c =
     (case work_buffer os (pending_of mfid c) buf (lm_ticks c) of
        Inl msg \<Rightarrow> (Ok (), set_pending mfid None (ERROR msg c))
      | Inr work \<Rightarrow>
          (let c1 = set_pending mfid None c in
           if LF \<in> set work then
             (let line = drop_cr (takeWhile (\<lambda>x. x \<noteq> LF) work);
                  next_line = tl (dropWhile (\<lambda>x. x \<noteq> LF) work) in
              bind_st (if line \<noteq> [] then handle_line os mfid line c1 else (Ok (), c1)) (\<lambda>_ c2.
                if next_line \<noteq> [] then handle_read os mfid next_line c2 else (Ok (), c2)))
           else (Ok (), set_pending mfid (Some work) c1)))"
  by pat_completeness auto

termination
proof (relation "measure (\<lambda>(os, i, buf, c). unread i buf c)", goal_cases)
  case (2 os i buf c work c1 line next_line x c2)
  have "pending_of i c2 = None"
    using pending_files [OF files_line [OF 2(6)], of i] 2(2) by simp
  moreover have "length work = unread i buf c"
    using 2(1) by (auto simp: work_buffer_def unread_def split: option.splits if_splits)
  ultimately show ?case using next_line_shorter [OF 2(3)] 2(5) by (simp add: unread_def)
qed simp

declare handle_read.simps [simp del]

text \<open>
  What holds for the pieces of \<open>handle_read\<close> holds for all of it; \<open>P\<close> relates the state before to the result.
\<close>

lemma handle_read_rule:
  assumes "\<And>c. P c (Ok (), c)" and "\<And>m c. P c (Ok (), set_pending i None (ERROR m c))"
    and "\<And>p q c. P (set_pending i p c) q \<Longrightarrow> P c q" and "\<And>l c. P c (handle_line os i l c)"
    and "\<And>c q f. P c q \<Longrightarrow> (\<And>x c1. q = (Ok x, c1) \<Longrightarrow> P c1 (f x c1)) \<Longrightarrow> P c (bind_st q f)"
  shows "P c (handle_read os i b c)"
  using assms
proof (induction os i b c rule: handle_read.induct)
  case (1 os i b c)
  note ret = 1(2) and error = 1(3) and pending = 1(4) and line = 1(5) and bind = 1(6)
  show ?case
  proof (cases "work_buffer os (pending_of i c) b (lm_ticks c)")
    case (Inl m)
    then show ?thesis using error by (simp add: handle_read.simps [of os i b c])
  next
    case (Inr work)
    let ?c1 = "set_pending i None c" and ?l = "drop_cr (takeWhile (\<lambda>x. x \<noteq> LF) work)"
    let ?n = "tl (dropWhile (\<lambda>x. x \<noteq> LF) work)"
    let ?p = "if ?l \<noteq> [] then handle_line os i ?l ?c1 else (Ok (), ?c1)"
    have e: "handle_read os i b c =
        (if LF \<in> set work then bind_st ?p (\<lambda>_ c2. if ?n \<noteq> [] then handle_read os i ?n c2 else (Ok (), c2))
         else (Ok (), set_pending i (Some work) ?c1))"
      unfolding handle_read.simps [of os i b c] Inr Let_def sum.case ..
    show ?thesis
    proof (cases "LF \<in> set work")
      case True
      have "P ?c1 ?p" using ret line by simp
      moreover have "P c2 (if ?n \<noteq> [] then handle_read os i ?n c2 else (Ok (), c2))" if "?p = (Ok x, c2)" for x c2
        using 1(1) [OF Inr refl True refl refl that] 1(2-6) ret by simp
      ultimately show ?thesis unfolding e if_P [OF True] by (intro pending [OF bind])
    next
      case False
      then show ?thesis using pending [OF pending [OF ret]] by (simp add: e)
    qed
  qed
qed

section \<open>Feeding a file in pieces\<close>

fun feed :: "lm_os \<Rightarrow> nat \<Rightarrow> string list \<Rightarrow> lm \<Rightarrow> unit res \<times> lm" where
  "feed os i [] c = (Ok (), c)"
| "feed os i (b # bs) c = bind_st (handle_read os i b c) (\<lambda>_ c1. feed os i bs c1)"

fun each_line :: "lm_os \<Rightarrow> nat \<Rightarrow> string list \<Rightarrow> lm \<Rightarrow> unit res \<times> lm" where
  "each_line os i [] c = (Ok (), c)"
| "each_line os i (l # ls) c = bind_st (handle_line os i l c) (\<lambda>_ c1. each_line os i ls c1)"

text \<open>The lines of a text that are complete and not empty, and what is pending behind the last line feed.\<close>

definition complete_lines :: "string \<Rightarrow> string list" where
  "complete_lines s = filter (\<lambda>l. l \<noteq> []) (map drop_cr (butlast (Tokens.fields LF s)))"

definition left_over :: "string \<Rightarrow> string option" where
  "left_over s = (if s \<noteq> [] \<and> last s = LF then None else Some (last (Tokens.fields LF s)))"

definition pending_text :: "string option \<Rightarrow> string" where
  "pending_text p = (case p of None \<Rightarrow> [] | Some t \<Rightarrow> t)"

text \<open>No piece makes the pending text too long.\<close>

fun fits :: "string option \<Rightarrow> string list \<Rightarrow> bool" where
  "fits p [] \<longleftrightarrow> True"
| "fits p (b # bs) \<longleftrightarrow> (p = None \<or> int (length (pending_text p) + length b) < MAX_PENDING) \<and> fits (left_over (pending_text p @ b)) bs"

lemma fields_line: "LF \<notin> set l \<Longrightarrow> Tokens.fields LF (l @ LF # r) = l # Tokens.fields LF r"
  by (induction l) auto

lemma fields_one: "LF \<notin> set l \<Longrightarrow> Tokens.fields LF l = [l]"
  by (induction l) auto

lemma complete_lines_one [simp]: "LF \<notin> set l \<Longrightarrow> complete_lines l = []"
  by (simp add: complete_lines_def fields_one)

lemma complete_lines_line: "LF \<notin> set l \<Longrightarrow> complete_lines (l @ LF # r) = (if drop_cr l = [] then [] else [drop_cr l]) @ complete_lines r"
  by (simp add: complete_lines_def fields_line)

lemma left_over_one [simp]: "LF \<notin> set l \<Longrightarrow> left_over l = Some l"
  by (simp add: left_over_def fields_one) (metis last_in_set)

lemma left_over_line: "LF \<notin> set l \<Longrightarrow> left_over (l @ LF # r) = (if r = [] then None else left_over r)"
  by (simp add: left_over_def fields_line)

lemma cut_line: "LF \<notin> set l \<Longrightarrow> takeWhile (\<lambda>x. x \<noteq> LF) (l @ LF # r) = l \<and> dropWhile (\<lambda>x. x \<noteq> LF) (l @ LF # r) = LF # r"
  by (induction l) auto

lemma split_line:
  assumes "LF \<in> set w"
  obtains l r where "w = l @ LF # r" "LF \<notin> set l" "takeWhile (\<lambda>x. x \<noteq> LF) w = l" "tl (dropWhile (\<lambda>x. x \<noteq> LF) w) = r"
proof -
  obtain l r where w: "w = l @ LF # r" "LF \<notin> set l" using split_list_first [OF assms] by blast
  have "takeWhile (\<lambda>x. x \<noteq> LF) w = l" "tl (dropWhile (\<lambda>x. x \<noteq> LF) w) = r"
    using w cut_line by simp_all
  with w that show thesis by blast
qed

lemma lines_induct [case_names one line]:
  assumes "\<And>l. LF \<notin> set l \<Longrightarrow> P l" and "\<And>l r. LF \<notin> set l \<Longrightarrow> P r \<Longrightarrow> P (l @ LF # r)"
  shows "P w"
proof (induction w rule: length_induct)
  case (1 w)
  show ?case
  proof (cases "LF \<in> set w")
    case True
    then obtain l r where w: "w = l @ LF # r" "LF \<notin> set l" using split_list_first by metis
    with 1 show ?thesis using assms(2) [OF w(2), of r] by simp
  qed (rule assms(1))
qed

lemma complete_lines_append: "complete_lines (w @ v) = complete_lines w @ complete_lines (pending_text (left_over w) @ v)"
proof (induction w rule: lines_induct)
  case (line l r)
  then show ?case by (cases "r = []") (auto simp: complete_lines_line left_over_line pending_text_def)
qed (simp add: pending_text_def)

lemma left_over_append: "v \<noteq> [] \<Longrightarrow> left_over (w @ v) = left_over (pending_text (left_over w) @ v)"
proof (induction w rule: lines_induct)
  case (line l r)
  then show ?case by (cases "r = []") (auto simp: left_over_line pending_text_def)
qed (simp add: pending_text_def)

lemma set_pending_simps [simp]:
  "set_pending i p (set_pending i q c) = set_pending i p c"
  "length (monitored_files (set_pending i p c)) = length (monitored_files c)"
  by (cases "i < length (monitored_files c)") (simp_all add: set_pending_def list_update_beyond)

lemma set_pending_same: "i < length (monitored_files c) \<Longrightarrow> pending_of i c = p \<Longrightarrow> set_pending i p c = c"
  by (auto simp: pending_of_def set_pending_def)

lemma bind_st_assoc: "bind_st (bind_st p f) g = bind_st p (\<lambda>x s. bind_st (f x s) g)"
  by (cases p; cases "fst p") auto

lemma bind_st_eq:
  "(\<And>x s. p = (Ok x, s) \<Longrightarrow> f x s = g x s) \<Longrightarrow> bind_st p f = bind_st p g"
  by (rule bind_line_cong [OF refl])

lemma each_line_append: "each_line os i (xs @ ys) c = bind_st (each_line os i xs c) (\<lambda>_ c1. each_line os i ys c1)"
  by (induction xs arbitrary: c) (auto simp: bind_st_assoc intro!: bind_st_eq)

text \<open>The lines of a file that were handled.\<close>

fun line_of :: "nat \<Rightarrow> lm_action \<Rightarrow> string option" where
  "line_of i (LineSeen i' l) = (if i' = i then Some l else None)"
| "line_of i a = None"

definition seen :: "nat \<Rightarrow> lm \<Rightarrow> string list" where
  "seen i c = List.map_filter (line_of i) (lm_actions c)"

lemma seen_put [simp]: "seen i (put a c) = seen i c @ (case line_of i a of Some l \<Rightarrow> [l] | None \<Rightarrow> [])"
  by (simp add: seen_def put_def List.map_filter_def split: option.split)

lemma no_line_of: "\<not> is_file_action a \<Longrightarrow> line_of i a = None"
  by (cases a) auto

lemma no_lines: "\<forall>a\<in>set as. \<not> is_file_action a \<Longrightarrow> List.map_filter (line_of i) as = []"
  by (induction as) (auto simp: List.map_filter_simps no_line_of)

lemma seen_kept: "files_kept c c' \<Longrightarrow> seen i c' = seen i c"
  using no_lines [of _ i] by (auto simp: files_kept_def seen_def List.map_filter_def)

lemma seen_set_pending [simp]: "seen i (set_pending j p c) = seen i c" "lm_pos (set_pending j p c) = lm_pos c"
  by (simp_all add: seen_def set_pending_def)

lemma each_line_effect:
  "each_line os i ls c = (r, c') \<Longrightarrow> monitored_files c' = monitored_files c \<and> lm_pos c' = lm_pos c \<and> r \<noteq> Halt NoFuel
    \<and> (r = Ok () \<longrightarrow> seen i c' = seen i c @ ls)"
proof (induction ls arbitrary: c)
  case (Cons l ls)
  obtain q c1 where h: "handle_line os i l c = (q, c1)" by fastforce
  let ?p = "put (LineSeen i l) c"
  have k: "files_kept ?p c1" "q \<noteq> Halt NoFuel" using files_handle_line [of i l c os] h by simp_all
  have "seen i c1 = seen i c @ [l]" using seen_kept [OF k(1), of i] by simp
  moreover have "lm_pos c1 = lm_pos c" "monitored_files c1 = monitored_files c"
    using k(1) by (simp_all add: files_kept_def put_def)
  ultimately have s: "seen i c1 = seen i c @ [l]" "lm_pos c1 = lm_pos c" "monitored_files c1 = monitored_files c" by simp_all
  show ?case
  proof (cases q)
    case (Ok x)
    with Cons.prems h have "each_line os i ls c1 = (r, c')" by simp
    from Cons.IH [OF this] s show ?thesis by simp
  qed (use Cons.prems h k s in auto)
qed auto

lemma pending_each_line:
  "each_line os i ls c = (r, c') \<Longrightarrow> pending_of i c' = pending_of i c \<and> length (monitored_files c') = length (monitored_files c)"
  using each_line_effect by (fastforce simp: pending_of_def)

lemma handle_read_lines:
  "(\<And>t. lo_malloc os t) \<Longrightarrow> i < length (monitored_files c) \<Longrightarrow> fits (pending_of i c) [b] \<Longrightarrow>
    handle_read os i b c =
      bind_st (each_line os i (complete_lines (pending_text (pending_of i c) @ b)) (set_pending i None c))
        (\<lambda>_ c'. (Ok (), set_pending i (left_over (pending_text (pending_of i c) @ b)) c'))"
proof (induction os i b c rule: handle_read.induct)
  case (1 os i b c)
  let ?w = "pending_text (pending_of i c) @ b" and ?c1 = "set_pending i None c"
  have wb: "work_buffer os (pending_of i c) b (lm_ticks c) = Inr ?w"
    using 1(2,4) by (auto simp: work_buffer_def pending_text_def split: option.split)
  show ?case
  proof (cases "LF \<in> set ?w")
    case False
    then show ?thesis by (simp add: handle_read.simps [of os i b c] wb)
  next
    case True
    from split_line [OF True] obtain l r where w: "?w = l @ LF # r" "LF \<notin> set l"
      and tl: "takeWhile (\<lambda>x. x \<noteq> LF) ?w = l" "tl (dropWhile (\<lambda>x. x \<noteq> LF) ?w) = r" by metis
    have step: "handle_read os i b c =
        bind_st (if drop_cr l \<noteq> [] then handle_line os i (drop_cr l) ?c1 else (Ok (), ?c1)) (\<lambda>_ c2.
          if r \<noteq> [] then handle_read os i r c2 else (Ok (), c2))"
      using wb True tl by (simp add: handle_read.simps [of os i b c] Let_def)
    also have "\<dots> = bind_st (if drop_cr l \<noteq> [] then handle_line os i (drop_cr l) ?c1 else (Ok (), ?c1)) (\<lambda>_ c2.
          bind_st (each_line os i (complete_lines r) c2) (\<lambda>_ c'. (Ok (), set_pending i (if r = [] then None else left_over r) c')))"
    proof (rule bind_st_eq)
      fix x :: unit and c2
      assume h: "(if drop_cr l \<noteq> [] then handle_line os i (drop_cr l) ?c1 else (Ok (), ?c1)) = (Ok x, c2)"
      have f: "monitored_files c2 = monitored_files ?c1" by (rule files_line [OF h])
      then have n: "pending_of i c2 = None" "i < length (monitored_files c2)"
        using pending_files [OF f, of i] 1(3) by simp_all
      have "set_pending i None c2 = c2" using n by (simp add: set_pending_same)
      moreover have "handle_read os i r c2 = bind_st (each_line os i (complete_lines r) (set_pending i None c2))
          (\<lambda>_ c'. (Ok (), set_pending i (left_over r) c'))" if "r \<noteq> []"
        using 1(1) [OF wb refl True refl refl, unfolded tl, OF h that] 1(2) n by (simp add: pending_text_def)
      ultimately show "(if r \<noteq> [] then handle_read os i r c2 else (Ok (), c2)) =
        bind_st (each_line os i (complete_lines r) c2) (\<lambda>_ c'. (Ok (), set_pending i (if r = [] then None else left_over r) c'))"
        by simp
    qed
    finally show ?thesis
      using w by (simp add: complete_lines_line left_over_line bind_st_assoc)
  qed
qed

lemma feed_lines:
  assumes "\<And>t. lo_malloc os t" and "i < length (monitored_files c)" and "fits (pending_of i c) bs" and "[] \<notin> set bs" and "bs \<noteq> []"
  shows "feed os i bs c =
      bind_st (each_line os i (complete_lines (pending_text (pending_of i c) @ concat bs)) (set_pending i None c))
        (\<lambda>_ c'. (Ok (), set_pending i (left_over (pending_text (pending_of i c) @ concat bs)) c'))"
  using assms(2-5)
proof (induction bs arbitrary: c)
  case (Cons b bs)
  let ?w = "pending_text (pending_of i c) @ b"
  have "feed os i (b # bs) c = bind_st (each_line os i (complete_lines ?w) (set_pending i None c))
      (\<lambda>_ c1. feed os i bs (set_pending i (left_over ?w) c1))"
    using handle_read_lines [OF assms(1), of i c b] Cons.prems by (simp add: bind_st_assoc)
  also have "\<dots> = bind_st (each_line os i (complete_lines ?w) (set_pending i None c)) (\<lambda>_ c1.
      bind_st (each_line os i (complete_lines (pending_text (left_over ?w) @ concat bs)) c1)
        (\<lambda>_ c'. (Ok (), set_pending i (left_over (?w @ concat bs)) c')))"
  proof (rule bind_st_eq)
    fix x :: unit and c1
    assume e: "each_line os i (complete_lines ?w) (set_pending i None c) = (Ok x, c1)"
    have n: "pending_of i c1 = None" "i < length (monitored_files c1)"
      using pending_each_line [OF e] Cons.prems(1) by simp_all
    show "feed os i bs (set_pending i (left_over ?w) c1) =
        bind_st (each_line os i (complete_lines (pending_text (left_over ?w) @ concat bs)) c1)
          (\<lambda>_ c'. (Ok (), set_pending i (left_over (?w @ concat bs)) c'))"
    proof (cases "bs = []")
      case True
      have "complete_lines (pending_text (left_over ?w)) = []"
        using complete_lines_append [of ?w "[]"] by simp
      with True show ?thesis by simp
    next
      case False
      with Cons.prems(3) have "concat bs \<noteq> []" by (cases bs) auto
      then show ?thesis
        using Cons.IH [of "set_pending i (left_over ?w) c1"] Cons.prems(2,3) n False left_over_append [of "concat bs" ?w]
        by (simp add: set_pending_same)
    qed
  qed
  finally show ?case
    by (simp add: complete_lines_append [of ?w "concat bs", simplified] each_line_append bind_st_assoc)
qed simp

text \<open>A system in which nothing fails and nothing is printed, and a file of which \<open>a\<close> has been read.\<close>

definition idle_os :: lm_os where
  "idle_os = \<lparr>lo_clock = (\<lambda>t. Monotonic (1 + int t) 0), lo_uptime = (\<lambda>t. Inl ''none''), lo_malloc = (\<lambda>t. True),
     lo_run = (\<lambda>t exec args. \<lparr>ra_pipe = None, ra_fork = None, ra_reads = [], ra_wait = [WaitDone (WExited 0)]\<rparr>),
     lo_fork = (\<lambda>t. None), lo_stat = (\<lambda>t p. None), lo_fstat = (\<lambda>t fd. None),
     lo_open = (\<lambda>t p. - 1), lo_read = (\<lambda>t fd off. []), lo_zombies = (\<lambda>t. 0), lo_strerror = (\<lambda>t. ''Error'')\<rparr>"

definition idle_start :: lm where
  "idle_start = \<lparr>config_dir = '''', monitored_files = [\<lparr>mf_path = ''/l'', mf_fd = 3, is_status = False, last_read = 0,
       last_stat = \<lparr>st_size = 0, st_mtime = 0, st_dev = 0, st_ino = 0\<rparr>, pending_buf = Some ''a''\<rparr>],
     notifications = [], targets = [], lm_debug = False, lm_ticks = 0, lm_pos = (\<lambda>_. 0), lm_actions = []\<rparr>"

text \<open>With as many targets as the array holds, the loop over them reads behind its end.\<close>

lemma full_array_undefined:
  "send_targets os nidx title desc level MAX_NUM_TARGETS [] c = (Halt (Undefined ''read behind the end of targets of a notification''), c)"
  by (simp add: array_end_def)

section \<open>Properties\<close>

text \<open>
  C14. Cutting a text into lines does not depend on the pieces in which it is read: handing the pieces to \<open>handle_read\<close> one
  after the other is the same, up to the last allocation, as one pass over the complete lines of the pending text and all
  pieces together, with the rest pending at the end; also when the handling of a line stops the program.
\<close>

theorem lines_independent_of_chunks:
  assumes "\<And>t. lo_malloc os t" and "i < length (monitored_files c)" and "fits (pending_of i c) bs" and "[] \<notin> set bs" and "bs \<noteq> []"
  shows "feed os i bs c =
      bind_st (each_line os i (complete_lines (pending_text (pending_of i c) @ concat bs)) (set_pending i None c))
        (\<lambda>_ c'. (Ok (), set_pending i (left_over (pending_text (pending_of i c) @ concat bs)) c'))"
  using assms by (rule feed_lines)

theorem lines_independent_of_chunks_witness:
  "feed idle_os 0 [''b'' @ [CR], [LF] @ ''c'' @ [LF] @ ''d''] idle_start
   = bind_st (each_line idle_os 0 [''ab'', ''c''] (set_pending 0 None idle_start)) (\<lambda>_ c'. (Ok (), set_pending 0 (Some ''d'') c'))"
proof -
  have m: "\<And>t. lo_malloc idle_os t" by (simp add: idle_os_def)
  have f: "fits (pending_of 0 idle_start) [''b'' @ [CR], [LF] @ ''c'' @ [LF] @ ''d'']" by code_simp
  have i: "0 < length (monitored_files idle_start)" by code_simp
  have w: "complete_lines (pending_text (pending_of 0 idle_start) @ concat [''b'' @ [CR], [LF] @ ''c'' @ [LF] @ ''d'']) = [''ab'', ''c'']"
    "left_over (pending_text (pending_of 0 idle_start) @ concat [''b'' @ [CR], [LF] @ ''c'' @ [LF] @ ''d'']) = Some ''d''"
    by code_simp+
  show ?thesis using lines_independent_of_chunks [OF m i f] unfolding w by simp
qed

end
