(* ===== verification/LogMain.thy ===== *)
theory LogMain
  imports LogConfig LogLines
begin

text \<open>
  The main program of \<open>src/src/logmonitor/logmonitor.c\<close>: the options, the files that are opened, one pass over the
  monitored files (when a file is opened again, when a status file has changed, how far it is read), the endless loop.
\<close>

section \<open>Descriptors\<close>

definition STATUS_FILE_READ_INTERVAL :: int where "STATUS_FILE_READ_INTERVAL = 5"
definition MAIN_LOOP_SLEEP_PERIOD :: nat where "MAIN_LOOP_SLEEP_PERIOD = 1"

definition upd_file :: "nat \<Rightarrow> (lm_file \<Rightarrow> lm_file) \<Rightarrow> lm \<Rightarrow> lm" where
  "upd_file i f c = c\<lparr>monitored_files := (monitored_files c)[i := f (monitored_files c ! i)]\<rparr>"

definition lseek_set :: "int \<Rightarrow> lm \<Rightarrow> lm" where
  "lseek_set fd c = c\<lparr>lm_pos := (lm_pos c)(fd := 0)\<rparr>"

text \<open>The position at the end is the size of the file.\<close>

definition lseek_end :: "lm_os \<Rightarrow> int \<Rightarrow> lm \<Rightarrow> lm" where
  "lseek_end os fd c =
     (case lo_fstat os (lm_ticks c) fd of
        Some st \<Rightarrow> (lm_tick c)\<lparr>lm_pos := (lm_pos c)(fd := st_size st)\<rparr>
      | None \<Rightarrow> lm_tick c)"

definition open_file :: "lm_os \<Rightarrow> string \<Rightarrow> lm \<Rightarrow> int \<times> lm" where
  "open_file os path c =
     (let fd = lo_open os (lm_ticks c) path; c1 = lm_tick c in
      if fd \<ge> 0 then (fd, put (OpenedFile path fd) (lseek_set fd c1)) else (fd, c1))"

text \<open>At the start a log file is followed from its end, a status file is read from its beginning.\<close>

definition open_monitored :: "lm_os \<Rightarrow> nat \<Rightarrow> lm \<Rightarrow> lm" where
  "open_monitored os i c =
     (let mf = monitored_files c ! i; (fd, c1) = open_file os (mf_path mf) c;
          c2 = (if fd \<ge> 0 \<and> \<not> is_status mf then lseek_end os fd c1 else c1) in
      upd_file i (\<lambda>f. f\<lparr>mf_fd := fd\<rparr>) c2)"

section \<open>One file\<close>

text \<open>\<open>stat_rc\<close> and \<open>sbuf\<close> are \<open>st\<close>; \<open>fstat\<close> is called only for an open descriptor.\<close>

definition open_again :: "lm_os \<Rightarrow> nat \<Rightarrow> string \<Rightarrow> int \<Rightarrow> lm \<Rightarrow> lm" where
  "open_again os i path fd c1 =
     (let c2 = (if fd \<ge> 0 then put (ClosedFile fd) c1 else c1);
          (new_fd, c3) = open_file os path c2;
          c4 = (if new_fd \<ge> 0 then
                  DEBUG (path @ '' has '' @ (if fd < 0 then ''appeared'' else ''been replaced'') @ ''; following end of new file.'') c3
                else if fd \<ge> 0 then DEBUG (path @ '' has become inaccessible.'') c3 else c3) in
      upd_file i (\<lambda>f. f\<lparr>mf_fd := new_fd\<rparr>) c4)"

definition same_inode :: "file_stat option \<Rightarrow> file_stat option \<Rightarrow> bool" where
  "same_inode fsbuf st = (case (fsbuf, st) of (Some a, Some b) \<Rightarrow> st_dev a = st_dev b \<and> st_ino a = st_ino b | _ \<Rightarrow> False)"

definition reopen :: "lm_os \<Rightarrow> nat \<Rightarrow> file_stat option \<Rightarrow> lm \<Rightarrow> lm" where
  "reopen os i st c =
     (let path = mf_path (monitored_files c ! i); fd = mf_fd (monitored_files c ! i) in
      if fd < 0 then open_again os i path fd c
      else if same_inode (lo_fstat os (lm_ticks c) fd) st then lm_tick c
      else open_again os i path fd (lm_tick c))"

text \<open>A status file is unchanged when size, modification time, device and inode are.\<close>

definition same_stat :: "file_stat \<Rightarrow> file_stat \<Rightarrow> bool" where
  "same_stat a b \<longleftrightarrow> st_size a = st_size b \<and> st_mtime a = st_mtime b \<and> st_dev a = st_dev b \<and> st_ino a = st_ino b"

definition update_last_read :: "lm_os \<Rightarrow> nat \<Rightarrow> lm \<Rightarrow> unit res \<times> lm" where
  "update_last_read os i c = bind_st (lm_get_time os c) (\<lambda>now c1. (Ok (), upd_file i (\<lambda>f. f\<lparr>last_read := now\<rparr>) c1))"

text \<open>When the file has become shorter than the position, it is read from its beginning.\<close>

definition check_truncated :: "lm_os \<Rightarrow> int \<Rightarrow> lm \<Rightarrow> lm" where
  "check_truncated os fd c =
     (case lo_fstat os (lm_ticks c) fd of
        Some st \<Rightarrow> (if st_size st < lm_pos c fd then lseek_set fd (lm_tick c) else lm_tick c)
      | None \<Rightarrow> lm_tick c)"

text \<open>The loop until a read gives nothing; \<open>bufsiz\<close> is the \<open>BUFSIZ\<close> of the C library.\<close>

fun read_to_end :: "lm_os \<Rightarrow> nat \<Rightarrow> nat \<Rightarrow> nat \<Rightarrow> int \<Rightarrow> lm \<Rightarrow> unit res \<times> lm" where
  "read_to_end os bufsiz 0 i fd c = (Halt NoFuel, c)"
| "read_to_end os bufsiz (Suc fuel) i fd c =
     (case tail_read os fd bufsiz (check_truncated os fd c) of
        (None, c1) \<Rightarrow> (Ok (), c1)
      | (Some b, c1) \<Rightarrow>
          (if b = [] then (Ok (), c1)
           else bind_st (handle_read os i (cstr b) c1) (\<lambda>_ c2. read_to_end os bufsiz fuel i fd c2)))"

definition read_file_now :: "lm_os \<Rightarrow> nat \<Rightarrow> nat \<Rightarrow> nat \<Rightarrow> int \<Rightarrow> lm \<Rightarrow> unit res \<times> lm" where
  "read_file_now os bufsiz fuel i fd c =
     bind_st (read_to_end os bufsiz fuel i fd c) (\<lambda>_ c1. update_last_read os i c1)"

definition tail_file :: "lm_os \<Rightarrow> nat \<Rightarrow> nat \<Rightarrow> nat \<Rightarrow> lm \<Rightarrow> unit res \<times> lm" where
  "tail_file os bufsiz fuel i c =
     (let st = lo_stat os (lm_ticks c) (mf_path (monitored_files c ! i));
          c1 = reopen os i st (lm_tick c); mf = monitored_files c1 ! i in
      if mf_fd mf < 0 then (Ok (), c1)
      else if is_status mf then
        (case st of
           Some sbuf \<Rightarrow>
             (if same_stat sbuf (last_stat mf) then update_last_read os i c1
              else read_file_now os bufsiz fuel i (mf_fd mf)
                     (lseek_set (mf_fd mf) (upd_file i (\<lambda>f. f\<lparr>last_stat := sbuf\<rparr>) c1)))
         | None \<Rightarrow> read_file_now os bufsiz fuel i (mf_fd mf) (lseek_set (mf_fd mf) c1))
      else read_file_now os bufsiz fuel i (mf_fd mf) c1)"

text \<open>A status file that was read recently is left alone.\<close>

definition poll_file :: "lm_os \<Rightarrow> nat \<Rightarrow> nat \<Rightarrow> nat \<Rightarrow> lm \<Rightarrow> unit res \<times> lm" where
  "poll_file os bufsiz fuel i c =
     (if is_status (monitored_files c ! i) then
        bind_st (lm_get_time os c) (\<lambda>now c1.
          if now - last_read (monitored_files c1 ! i) < STATUS_FILE_READ_INTERVAL then (Ok (), c1)
          else tail_file os bufsiz fuel i c1)
      else tail_file os bufsiz fuel i c)"

section \<open>All files, for ever\<close>

fun poll_files :: "lm_os \<Rightarrow> nat \<Rightarrow> nat \<Rightarrow> nat list \<Rightarrow> lm \<Rightarrow> unit res \<times> lm" where
  "poll_files os bufsiz fuel [] c = (Ok (), c)"
| "poll_files os bufsiz fuel (i # is) c =
     bind_st (poll_file os bufsiz fuel i c) (\<lambda>_ c1. poll_files os bufsiz fuel is c1)"

definition reap_children :: "lm_os \<Rightarrow> lm \<Rightarrow> lm" where
  "reap_children os c = put (ReapedChildren (lo_zombies os (lm_ticks c))) (lm_tick c)"

definition lm_round :: "lm_os \<Rightarrow> nat \<Rightarrow> nat \<Rightarrow> lm \<Rightarrow> unit res \<times> lm" where
  "lm_round os bufsiz fuel c =
     bind_st (poll_files os bufsiz fuel [0..<length (monitored_files c)] c)
       (\<lambda>_ c1. (Ok (), put (SleptSeconds MAIN_LOOP_SLEEP_PERIOD) (reap_children os c1)))"

text \<open>The loop has no end of its own: \<open>rounds\<close> passes are made before the model stops.\<close>

fun tail_files :: "lm_os \<Rightarrow> nat \<Rightarrow> nat \<Rightarrow> nat \<Rightarrow> lm \<Rightarrow> unit res \<times> lm" where
  "tail_files os bufsiz fuel 0 c = (Halt NoFuel, c)"
| "tail_files os bufsiz fuel (Suc rounds) c =
     bind_st (lm_round os bufsiz fuel c) (\<lambda>_ c1. tail_files os bufsiz fuel rounds c1)"

section \<open>The program\<close>

definition DEFAULT_CONFIG_DIR :: string where "DEFAULT_CONFIG_DIR = ''/etc/logmonitor''"

definition lm_usage :: "string list" where
  "lm_usage =
    [''Usage: logmonitor [OPTIONS...]'', '''', ''Options:'',
     ''  -c, --configdir         Directory where configuration is stored (default: '' @ DEFAULT_CONFIG_DIR @ '').'',
     ''  -d, --debug             Enable debug logging.'',
     ''  -h, --help              Display this help and exit.'']"

text \<open>The options, with \<open>getopt_long\<close> represented by what it hands out; all of them are looked at.\<close>

fun lm_options :: "(char \<times> string) list \<Rightarrow> string \<Rightarrow> bool \<Rightarrow> lm \<Rightarrow> (string \<times> bool) \<times> lm" where
  "lm_options [] cfgdir ok c = ((cfgdir, ok), c)"
| "lm_options ((n, optarg) # opts) cfgdir ok c =
     (if n = CHR ''c'' then lm_options opts optarg ok c
      else if n = CHR ''d'' then lm_options opts cfgdir ok (c\<lparr>lm_debug := True\<rparr>)
      else if n = CHR ''h'' \<or> n = CHR ''?'' then lm_options opts cfgdir False (fold (\<lambda>l. put (PrintedErr l)) lm_usage c)
      else lm_options opts cfgdir ok c)"

definition validate_config :: "lm \<Rightarrow> unit res \<times> lm" where
  "validate_config c =
     (if notifications c = [] then SET_ERROR ''No notification configured.'' c
      else if targets c = [] then SET_ERROR ''No target configured.'' c
      else (Ok (), c))"

definition show_monitored :: "nat \<Rightarrow> lm \<Rightarrow> lm" where
  "show_monitored i c =
     INFO (''Monitoring '' @ (if is_status (monitored_files c ! i) then ''status'' else ''log'') @ '' file: ''
        @ mf_path (monitored_files c ! i)) c"

text \<open>From the context to the loop.\<close>

definition monitor :: "lm_os \<Rightarrow> nat \<Rightarrow> nat \<Rightarrow> nat \<Rightarrow> lm \<Rightarrow> unit res \<times> lm" where
  "monitor os bufsiz fuel rounds c =
     bind_st (validate_config c) (\<lambda>_ c1.
     let c2 = fold (open_monitored os) [0..<length (monitored_files c1)] c1 in
     bind_st (alloc_or os () ''Buffer memory allocation failed.'' c2) (\<lambda>_ c3.
       tail_files os bufsiz fuel rounds (fold show_monitored [0..<length (monitored_files c3)] c3)))"

text \<open>\<open>sigaction\<close> is the error of the call, if any. The exit status is that of \<open>main\<close>.\<close>

definition lm_main ::
  "lm_os \<Rightarrow> lm_disk \<Rightarrow> nat \<Rightarrow> nat \<Rightarrow> nat \<Rightarrow> string option \<Rightarrow> (char \<times> string) list \<Rightarrow> lm \<Rightarrow> int res \<times> lm" where
  "lm_main os dk bufsiz fuel rounds sigaction opts c =
     (let ((cfgdir, ok), c1) = lm_options opts DEFAULT_CONFIG_DIR True c in
      if \<not> ok then (Ok 1, reap_children os c1)
      else
        (case sigaction of
           Some e \<Rightarrow> (Ok 1, reap_children os (ERROR (''Failed to set signal handler: '' @ e @ ''.'') c1))
         | None \<Rightarrow>
             (case or_error (create_context os dk cfgdir c1) ''Context creation failed.'' of
                (Exn e, c2) \<Rightarrow> (Ok 1, reap_children os c2)
              | (Halt h, c2) \<Rightarrow> (Halt h, c2)
              | (Ok _, c2) \<Rightarrow>
                  (case monitor os bufsiz fuel rounds c2 of
                     (Exn e, c3) \<Rightarrow> bind_st (destroy_context c3) (\<lambda>_ c4. (Ok 1, reap_children os c4))
                   | (Halt h, c3) \<Rightarrow> (Halt h, c3)
                   | (Ok _, c3) \<Rightarrow> bind_st (destroy_context c3) (\<lambda>_ c4. (Ok 0, reap_children os c4))))))"

end
