(* ===== verification/LogSafety.thy ===== *)
theory LogSafety
  imports LogMain
begin

text \<open>
  What a run of the log monitor keeps. The operations change the context in two ways: quietly, without touching targets
  and notifications, and by storing the time of a notification that was due. The locale \<open>kept\<close> states that as two laws
  for an invariant, and every operation up to the endless loop keeps it; its interpretations are the spacing of the
  notifications (debouncing) and the well-formedness of the context.
\<close>

section \<open>Quiet changes\<close>

fun is_stamp :: "lm_action \<Rightarrow> bool" where
  "is_stamp (Stamped i j t) = True"
| "is_stamp _ = False"

definition file_key :: "lm_file \<Rightarrow> string \<times> bool" where "file_key f = (mf_path f, is_status f)"

definition quiet :: "lm \<Rightarrow> lm \<Rightarrow> bool" where
  "quiet c c' \<longleftrightarrow> targets c' = targets c \<and> notifications c' = notifications c \<and> lm_ticks c \<le> lm_ticks c'
     \<and> map file_key (monitored_files c') = map file_key (monitored_files c)
     \<and> (\<exists>new. lm_actions c' = lm_actions c @ new \<and> (\<forall>a\<in>set new. \<not> is_stamp a))"

lemma quiet_refl [simp]: "quiet c c"
  by (simp add: quiet_def)

lemma quiet_trans: "quiet a b \<Longrightarrow> quiet b c \<Longrightarrow> quiet a c"
  by (auto simp: quiet_def)

lemma quiet_same:
  "targets c' = targets c \<Longrightarrow> notifications c' = notifications c \<Longrightarrow> lm_ticks c' = lm_ticks c \<Longrightarrow>
   map file_key (monitored_files c') = map file_key (monitored_files c) \<Longrightarrow> lm_actions c' = lm_actions c \<Longrightarrow> quiet c c'"
  by (simp add: quiet_def)

named_theorems quiet_ops

lemma quiet_put: "\<not> is_stamp a \<Longrightarrow> quiet c d \<Longrightarrow> quiet c (put a d)"
  by (auto simp: quiet_def put_def)

lemma quiet_say [quiet_ops]: "quiet c d \<Longrightarrow> quiet c (ERROR m d)" "quiet c d \<Longrightarrow> quiet c (INFO m d)" "quiet c d \<Longrightarrow> quiet c (DEBUG m d)"
  by (simp_all add: ERROR_def INFO_def DEBUG_def quiet_put)

lemma quiet_tick [quiet_ops]: "quiet c d \<Longrightarrow> quiet c (lm_tick d)"
  by (auto simp: quiet_def lm_tick_def)

lemma quiet_pos [quiet_ops]: "quiet c d \<Longrightarrow> quiet c (d\<lparr>lm_pos := f\<rparr>)"
  by (auto simp: quiet_def)

lemma quiet_files: "map file_key (monitored_files d') = map file_key (monitored_files d) \<Longrightarrow>
    d' = d\<lparr>monitored_files := x\<rparr> \<Longrightarrow> quiet c d \<Longrightarrow> quiet c d'"
  by (auto simp: quiet_def)

lemma file_key_update:
  "(\<And>f. file_key (g f) = file_key f) \<Longrightarrow> map file_key (xs[i := g (xs ! i)]) = map file_key xs"
  by (rule map_update_same) simp

lemma quiet_upd_file [quiet_ops]:
  "(\<And>f. file_key (g f) = file_key f) \<Longrightarrow> quiet c d \<Longrightarrow> quiet c (upd_file i g d)"
  by (rule quiet_files [of _ d]) (auto simp: upd_file_def file_key_update)

lemma quiet_set_pending [quiet_ops]: "quiet c d \<Longrightarrow> quiet c (set_pending i p d)"
  by (rule quiet_files [of _ d]) (auto simp: set_pending_def file_key_update [of "\<lambda>f. f\<lparr>pending_buf := p\<rparr>"] file_key_def)

lemma quiet_lseek [quiet_ops]: "quiet c d \<Longrightarrow> quiet c (lseek_set fd d)"
  by (simp add: lseek_set_def quiet_pos)

lemma quiet_lseek_end [quiet_ops]: "quiet c d \<Longrightarrow> quiet c (lseek_end os fd d)"
  by (auto simp: lseek_end_def intro!: quiet_ops split: option.split)

lemma quiet_open [quiet_ops]: "quiet c d \<Longrightarrow> quiet c (snd (open_file os path d))"
  by (auto simp: open_file_def Let_def intro!: quiet_ops intro!: quiet_put)

lemma quiet_set_error: "quiet c d \<Longrightarrow> quiet c (snd (SET_ERROR m d))"
  by (simp add: SET_ERROR_def quiet_ops)

lemma quiet_array_end: "quiet c (snd (array_end n d w c))"
  by (simp add: array_end_def)

lemma quiet_alloc_or: "quiet c (snd (alloc_or os x m c))"
  by (simp add: alloc_or_def SET_ERROR_def quiet_ops)

lemma quiet_get_time: "quiet c (snd (lm_get_time os c))"
  by (auto simp: lm_get_time_def intro!: quiet_ops split: clock_answer.split sum.split)

lemma quiet_invoke_exec: "quiet c (snd (invoke_exec os exec args n c))"
  by (auto simp: invoke_exec_def Let_def SET_ERROR_def intro!: quiet_ops quiet_put split: res.split option.split wstatus.split)

lemma quiet_no_wait: "quiet c (snd (invoke_exec_no_wait os exec args c))"
  by (auto simp: invoke_exec_no_wait_def SET_ERROR_def intro!: quiet_ops quiet_put split: option.split)

lemma quiet_filter: "quiet c (snd (invoke_filter os f l c))"
  using quiet_invoke_exec [of c os f "[l]" 0] by (auto simp: invoke_filter_def split: prod.split)

lemma quiet_text: "quiet c (snd (notification_text os what exe val ok line c))"
proof -
  obtain r c1 where e: "invoke_exec os val [line] BUFFER_SIZE c = (r, c1)" by fastforce
  then have q: "quiet c c1" using quiet_invoke_exec [of c os val "[line]" BUFFER_SIZE] by simp
  then show ?thesis
    by (cases r) (simp_all add: notification_text_def e Let_def quiet_say case_prod_beta)
qed

lemma quiet_tail_read: "quiet c (snd (tail_read os fd n c))"
  by (auto simp: tail_read_def intro!: quiet_ops split: option.split)

lemma quiet_truncated [quiet_ops]: "quiet c d \<Longrightarrow> quiet c (check_truncated os fd d)"
  by (auto simp: check_truncated_def intro!: quiet_ops split: option.split)

lemma file_key_fd [simp]: "file_key (f\<lparr>mf_fd := x\<rparr>) = file_key f" "file_key (f\<lparr>last_read := t\<rparr>) = file_key f"
  "file_key (f\<lparr>last_stat := st\<rparr>) = file_key f"
  by (simp_all add: file_key_def)

lemma quiet_open_again: "quiet c d \<Longrightarrow> quiet c (open_again os i path fd d)"
proof -
  assume "quiet c d"
  then have q: "quiet c (if fd \<ge> 0 then put (ClosedFile fd) d else d)" by (simp add: quiet_put)
  obtain n c3 where o: "open_file os path (if fd \<ge> 0 then put (ClosedFile fd) d else d) = (n, c3)" by fastforce
  then have "quiet c c3" using quiet_open [OF q, of os path] by simp
  then have "quiet c (if b then DEBUG m c3 else if b' then DEBUG m' c3 else c3)" for b b' m m' by (simp add: quiet_say)
  then show ?thesis unfolding open_again_def Let_def o prod.case by (intro quiet_upd_file file_key_fd)
qed

lemma quiet_reopen [quiet_ops]: "quiet c d \<Longrightarrow> quiet c (reopen os i st d)"
  by (simp add: reopen_def Let_def quiet_open_again quiet_tick)

lemma quiet_update_last_read: "quiet c (snd (update_last_read os i c))"
proof -
  obtain r c1 where t: "lm_get_time os c = (r, c1)" by fastforce
  show ?thesis
    using quiet_get_time [of c os] t unfolding update_last_read_def by (cases r) (auto intro!: quiet_upd_file)
qed

lemma quiet_open_monitored: "quiet c d \<Longrightarrow> quiet c (open_monitored os i d)"
proof -
  assume q: "quiet c d"
  obtain fd c1 where o: "open_file os (mf_path (monitored_files d ! i)) d = (fd, c1)" by fastforce
  have "quiet c c1" using quiet_open [OF q, of os "mf_path (monitored_files d ! i)"] o by simp
  then show ?thesis unfolding open_monitored_def Let_def o by (auto intro!: quiet_upd_file quiet_lseek_end)
qed

section \<open>The laws of an invariant\<close>

text \<open>What the clock says at a call.\<close>

definition time_at :: "lm_os \<Rightarrow> nat \<Rightarrow> int option" where
  "time_at os t =
     (case lo_clock os t of
        Monotonic sec nsec \<Rightarrow> Some (sec + nsec div 1000000000)
      | ClockError \<Rightarrow> None
      | NotPermitted \<Rightarrow> (case lo_uptime os t of Inr x \<Rightarrow> Some x | Inl why \<Rightarrow> None))"

lemma get_time_at: "lm_get_time os c = (Ok now, c') \<Longrightarrow> time_at os (lm_ticks c) = Some now \<and> c' = lm_tick c"
  by (auto simp: lm_get_time_def time_at_def split: clock_answer.splits sum.splits)

text \<open>The references of the notifications to the targets, and the sizes of the arrays.\<close>

definition links_ok :: "lm \<Rightarrow> bool" where
  "links_ok c \<longleftrightarrow> length (notifications c) \<le> MAX_NUM_NOTIFICATIONS
     \<and> (\<forall>n\<in>set (notifications c). \<forall>t\<in>set (nt_targets n). t < length (targets c))
     \<and> (\<forall>t\<in>set (targets c). length (last_notif_sent t) = MAX_NUM_NOTIFICATIONS)"

text \<open>The notification is due: nothing was sent, or not within the debouncing time.\<close>

definition due :: "lm_os \<Rightarrow> lm_target \<Rightarrow> nat \<Rightarrow> nat \<Rightarrow> bool" where
  "due os t nidx m \<longleftrightarrow> last_notif_sent t ! nidx > 0 \<longrightarrow>
     debouncing t < 0 \<or> (debouncing t > 0 \<and> (\<exists>k\<le>m. \<exists>t0. time_at os k = Some t0 \<and> debouncing t \<le> t0 - last_notif_sent t ! nidx))"

lemma quiet_debounced: "quiet c (snd (debounced os nidx t c))"
proof -
  obtain r c1 where g: "lm_get_time os c = (r, c1)" by fastforce
  then show ?thesis using quiet_get_time [of c os] by (cases r) (simp_all add: debounced_def)
qed

lemma debounced_due:
  assumes "debounced os nidx t c = (Ok skip, c1)" and "\<not> skip" and "lm_ticks c1 \<le> m"
  shows "due os t nidx m"
proof (cases "last_notif_sent t ! nidx > 0 \<and> debouncing t \<ge> 0")
  case True
  with assms(1,2) have d: "debouncing t > 0"
    and b: "bind_st (lm_get_time os c) (\<lambda>now c1. (Ok (now - last_notif_sent t ! nidx < debouncing t), c1)) = (Ok skip, c1)"
    by (auto simp: debounced_def split: if_splits)
  then obtain now where n: "lm_get_time os c = (Ok now, c1)" "skip \<longleftrightarrow> now - last_notif_sent t ! nidx < debouncing t"
    by (auto simp: bind_st_Ok)
  have "time_at os (lm_ticks c) = Some now" "lm_ticks c \<le> m"
    using get_time_at [OF n(1)] assms(3) by (auto simp: lm_tick_def)
  moreover have "debouncing t \<le> now - last_notif_sent t ! nidx" using n(2) assms(2) by simp
  ultimately show ?thesis using d by (auto simp: due_def)
qed (auto simp: due_def)

locale kept =
  fixes os :: lm_os and I :: "lm \<Rightarrow> bool"
  assumes quiet: "I c \<Longrightarrow> quiet c c' \<Longrightarrow> I c'"
    and links: "I c \<Longrightarrow> links_ok c"
    and stamp: "I c \<Longrightarrow> tidx < length (targets c) \<Longrightarrow> nidx < length (notifications c) \<Longrightarrow> due os (targets c ! tidx) nidx m
      \<Longrightarrow> time_at os m = Some now \<Longrightarrow> I (set_last_sent tidx nidx now c)"
begin

definition keeps :: "lm \<Rightarrow> 'a res \<times> lm \<Rightarrow> bool" where
  "keeps c p \<longleftrightarrow> (I c \<longrightarrow> I (snd p) \<and> notifications (snd p) = notifications c)"

lemma keeps_quiet: "quiet c (snd p) \<Longrightarrow> keeps c p"
  using quiet by (auto simp: keeps_def quiet_def)

lemma keeps_bind:
  "keeps c p \<Longrightarrow> (\<And>x c1. p = (Ok x, c1) \<Longrightarrow> I c1 \<Longrightarrow> notifications c1 = notifications c \<Longrightarrow> keeps c1 (f x c1)) \<Longrightarrow> keeps c (bind_st p f)"
  by (cases p; cases "fst p") (auto simp: keeps_def)

lemma keeps_after: "quiet c c1 \<Longrightarrow> keeps c1 p \<Longrightarrow> keeps c p"
  using quiet by (auto simp: keeps_def quiet_def)

lemma keeps_if: "(b \<Longrightarrow> keeps c p) \<Longrightarrow> (\<not> b \<Longrightarrow> keeps c q) \<Longrightarrow> keeps c (if b then p else q)"
  by simp

lemma keeps_return: "quiet c c' \<Longrightarrow> keeps c (r, c')"
  by (rule keeps_quiet) simp

lemma send_target_keeps:
  assumes "tidx < length (targets c)" and "nidx < length (notifications c)"
  shows "keeps c (send_target os nidx a b l tidx c)"
  unfolding send_target_def
proof (rule keeps_bind [OF keeps_quiet [OF quiet_debounced]], goal_cases)
  case (1 skip c1)
  let ?t = "targets c ! tidx" and ?m = "DEBUG (''Invoking target '' @ quoted (tg_name (targets c1 ! tidx)) @ ''...'') c1"
  have "quiet c c1" using quiet_debounced [of c os nidx ?t] 1(1) by simp
  then have t1: "targets c1 = targets c" by (simp add: quiet_def)
  obtain r c2 where i: "invoke_target os (tg_send (targets c1 ! tidx)) a b l ?m = (r, c2)" by fastforce
  have "quiet ?m c2" using quiet_no_wait [of ?m os "tg_send (targets c1 ! tidx)" "[a, b, l]"] i by (simp add: invoke_target_def)
  then have q2: "quiet c1 c2" by (rule quiet_trans [OF quiet_say(3) [OF quiet_refl]])
  have "keeps c2 (bind_st (lm_get_time os c2) (\<lambda>now c3. (Ok (), set_last_sent tidx nidx now c3)))" if "\<not> skip"
  proof (rule keeps_bind [OF keeps_quiet [OF quiet_get_time]], goal_cases)
    case now: (1 now c3)
    have q3: "quiet c1 c3" using quiet_trans [OF q2 quiet_get_time [of c2 os]] now(1) by simp
    have "due os (targets c3 ! tidx) nidx (lm_ticks c2)"
      using debounced_due [OF 1(1) that] q2 q3 t1 by (simp add: quiet_def)
    then have "I c3 \<longrightarrow> I (set_last_sent tidx nidx now c3)"
      using stamp [of c3 tidx nidx "lm_ticks c2" now] get_time_at [OF now(1)] q3 t1 assms 1(3) by (simp add: quiet_def)
    then show ?case by (simp add: keeps_def set_last_sent_def put_def)
  qed
  then show ?case
    by (cases skip) (simp_all only: i if_True if_False Let_def prod.case simp_thms, intro keeps_return quiet_say(3) quiet_refl,
        blast intro: keeps_after [OF q2])
qed

end

context kept
begin

lemma keeps_assume: "(I c \<Longrightarrow> keeps c p) \<Longrightarrow> keeps c p"
  by (auto simp: keeps_def)

lemma send_targets_keeps:
  "n \<in> set (notifications c) \<Longrightarrow> set ts \<subseteq> set (nt_targets n) \<Longrightarrow> nidx < length (notifications c) \<Longrightarrow>
   keeps c (send_targets os nidx a b l k ts c)"
proof (induction ts arbitrary: c)
  case Nil
  then show ?case by (simp add: keeps_quiet quiet_array_end)
next
  case (Cons t ts)
  show ?case
  proof (rule keeps_assume)
    assume "I c"
    then have "t < length (targets c)" using links Cons.prems(1,2) by (auto simp: links_ok_def)
    then show "keeps c (send_targets os nidx a b l k (t # ts) c)"
      using Cons by (auto intro!: keeps_bind send_target_keeps)
  qed
qed

lemma notify_keeps:
  assumes "n \<in> set (notifications c)" and "nidx < length (notifications c)"
  shows "keeps c (notify os nidx n line c)"
  unfolding notify_def
proof (rule keeps_bind [OF keeps_quiet [OF quiet_text]], rule keeps_bind [OF keeps_quiet [OF quiet_text]],
    rule keeps_bind [OF keeps_quiet [OF quiet_text]], goal_cases)
  case (1 title c1 desc c2 level c3)
  then show ?case using assms by (intro send_targets_keeps [of n]) simp_all
qed

lemma handle_notification_keeps:
  assumes "n \<in> set (notifications c)" and "nidx < length (notifications c)"
  shows "keeps c (handle_notification os i line nidx n c)"
  unfolding handle_notification_def
proof (rule keeps_if)
  show "keeps c (Ok (), c)" by (rule keeps_return) simp
  show "keeps c (bind_st (invoke_filter os (nt_filter n) line (DEBUG m c)) (\<lambda>match c1.
      if match then notify os nidx n line (DEBUG k c1) else (Ok (), DEBUG k' c1)))" for m k k'
  proof (rule keeps_bind, goal_cases)
    case 1
    show ?case by (rule keeps_quiet [OF quiet_trans [OF quiet_say(3) [OF quiet_refl] quiet_filter]])
  next
    case (2 match c1)
    have "notifications (DEBUG k c1) = notifications c1" by (simp add: DEBUG_def put_def)
    then have "keeps (DEBUG k c1) (notify os nidx n line (DEBUG k c1))" using notify_keeps [of n "DEBUG k c1"] assms 2(3) by simp
    then have "keeps c1 (notify os nidx n line (DEBUG k c1))" by (rule keeps_after [OF quiet_say(3) [OF quiet_refl]])
    then show ?case by (intro keeps_if) (simp_all add: keeps_return quiet_say)
  qed
qed

lemma handle_notifications_keeps:
  "nidx + length ns = length (notifications c) \<Longrightarrow> set ns \<subseteq> set (notifications c) \<Longrightarrow>
   keeps c (handle_notifications os i line nidx ns c)"
proof (induction ns arbitrary: nidx c)
  case Nil
  show ?case by (simp add: keeps_quiet quiet_array_end)
next
  case (Cons n ns)
  have "keeps c (handle_notification os i line nidx n c)" using Cons.prems by (intro handle_notification_keeps) auto
  then show ?case using Cons by (auto intro!: keeps_bind)
qed

lemma handle_line_keeps: "keeps c (handle_line os i line c)"
proof -
  let ?c = "put (LineSeen i line) c"
  have "keeps ?c (handle_notifications os i line 0 (notifications c) ?c)"
    by (rule handle_notifications_keeps) (simp_all add: put_def)
  then show ?thesis unfolding handle_line_def by (rule keeps_after [rotated]) (simp add: quiet_put)
qed

end

context kept
begin

lemma handle_read_keeps: "keeps c (handle_read os i b c)"
  by (rule handle_read_rule, goal_cases)
    (simp_all add: keeps_return keeps_bind handle_line_keeps quiet_set_pending quiet_say keeps_after [OF quiet_set_pending [OF quiet_refl]])

lemma read_to_end_keeps: "keeps c (read_to_end os bufsiz fuel i fd c)"
proof (induction fuel arbitrary: c)
  case (Suc fuel)
  obtain r c1 where t: "tail_read os fd bufsiz (check_truncated os fd c) = (r, c1)" by fastforce
  have q: "quiet c c1"
    using quiet_trans [OF quiet_truncated [OF quiet_refl, of c os fd] quiet_tail_read [of "check_truncated os fd c" os fd bufsiz]] t
    by simp
  have "keeps c1 (bind_st (handle_read os i b c1) (\<lambda>_ c2. read_to_end os bufsiz fuel i fd c2))" for b
    by (rule keeps_bind [OF handle_read_keeps Suc.IH])
  then show ?case by (auto simp: t split: option.split intro: keeps_after [OF q] keeps_return [OF q])
qed (simp add: keeps_return)

lemma read_file_now_keeps: "keeps c (read_file_now os bufsiz fuel i fd c)"
  unfolding read_file_now_def by (rule keeps_bind [OF read_to_end_keeps keeps_quiet [OF quiet_update_last_read]])

lemma tail_file_keeps: "keeps c (tail_file os bufsiz fuel i c)"
proof -
  have q: "quiet c (reopen os i st (lm_tick c))" for st by (intro quiet_reopen quiet_tick quiet_refl)
  have r: "keeps d (read_file_now os bufsiz fuel i fd (lseek_set fd (upd_file i (\<lambda>f. f\<lparr>last_stat := st\<rparr>) d)))" for d fd st
    by (rule keeps_after [OF quiet_lseek [OF quiet_upd_file [OF file_key_fd(3) quiet_refl]] read_file_now_keeps])
  have s: "keeps d (read_file_now os bufsiz fuel i fd (lseek_set fd d))" for d fd
    by (rule keeps_after [OF quiet_lseek [OF quiet_refl] read_file_now_keeps])
  have u: "keeps d (update_last_read os i d)" for d by (rule keeps_quiet [OF quiet_update_last_read])
  show ?thesis
    unfolding tail_file_def Let_def
    by (rule keeps_after [OF q [of "lo_stat os (lm_ticks c) (mf_path (monitored_files c ! i))"]])
      (auto intro!: keeps_if keeps_return r s u read_file_now_keeps split: option.split)
qed

lemma poll_file_keeps: "keeps c (poll_file os bufsiz fuel i c)"
  unfolding poll_file_def
  by (intro keeps_if keeps_bind [OF keeps_quiet [OF quiet_get_time]] keeps_return quiet_refl tail_file_keeps)

lemma poll_files_keeps: "keeps c (poll_files os bufsiz fuel is c)"
  by (induction "is" arbitrary: c) (auto intro!: keeps_return keeps_bind poll_file_keeps)

lemma lm_round_keeps: "keeps c (lm_round os bufsiz fuel c)"
  unfolding lm_round_def
  by (intro keeps_bind [OF poll_files_keeps] keeps_return quiet_put) (simp_all add: reap_children_def quiet_put quiet_tick)

lemma tail_files_keeps: "keeps c (tail_files os bufsiz fuel rounds c)"
  by (induction rounds arbitrary: c) (auto intro!: keeps_return keeps_bind lm_round_keeps)

lemma monitor_keeps: "keeps c (monitor os bufsiz fuel rounds c)"
proof -
  have q: "quiet d (fold (open_monitored os) xs d)" for xs d
    by (induction xs arbitrary: d) (simp_all, blast intro: quiet_trans [OF quiet_open_monitored [OF quiet_refl]])
  have s: "quiet d (fold show_monitored xs d)" for xs d
    by (induction xs arbitrary: d) (simp_all add: show_monitored_def, blast intro: quiet_trans [OF quiet_say(2) [OF quiet_refl]])
  have v: "keeps c (validate_config c)"
    by (auto simp: validate_config_def intro!: keeps_return keeps_quiet [OF quiet_set_error])
  show ?thesis
    unfolding monitor_def Let_def
    by (rule keeps_bind [OF v], rule keeps_after [OF q], rule keeps_bind [OF keeps_quiet [OF quiet_alloc_or]],
        rule keeps_after [OF s], rule tail_files_keeps)
qed

end

end
