(* ===== verification/LogTypes.thy ===== *)
theory LogTypes
  imports LogSafety
begin

text \<open>
  What \<open>create_context\<close> establishes, and that the whole run keeps it: the context fits its arrays, the notifications
  are complete and refer to existing targets and to files that are monitored, each file once.
\<close>

section \<open>Loading only prints\<close>

definition talks :: "lm \<Rightarrow> lm \<Rightarrow> bool" where
  "talks c c' \<longleftrightarrow> (\<exists>new. c' = c\<lparr>lm_actions := lm_actions c @ map Printed new\<rparr>)"

lemma talks_refl [simp]: "talks c c"
  by (auto simp: talks_def intro!: exI [of _ "[]"])

lemma talks_trans: "talks a b \<Longrightarrow> talks b c \<Longrightarrow> talks a c"
  by (auto simp: talks_def) (metis map_append)

lemma talks_error [simp]: "talks c (ERROR m c)"
  by (auto simp: talks_def ERROR_def put_def intro!: exI [of _ "[m]"])

definition chats :: "lm \<Rightarrow> 'a res \<times> lm \<Rightarrow> bool" where
  "chats c p \<longleftrightarrow> talks c (snd p)"

named_theorems chat_rules

lemma chats_return [simp]: "chats c (r, c') \<longleftrightarrow> talks c c'"
  by (simp add: chats_def)

lemma chats_error [chat_rules]: "chats c (SET_ERROR m c)"
  by (simp add: SET_ERROR_def)

lemma chats_bind: "chats c p \<Longrightarrow> (\<And>x c1. chats c1 (f x c1)) \<Longrightarrow> chats c (bind_st p f)"
  by (cases p; cases "fst p") (auto simp: chats_def intro: talks_trans)

lemma chats_if: "chats c p \<Longrightarrow> chats c q \<Longrightarrow> chats c (if b then p else q)"
  by simp

lemma chats_or_error [chat_rules]: "chats c p \<Longrightarrow> chats c (or_error p m)"
  by (cases p; cases "fst p") (auto simp: SET_ERROR_def intro: talks_trans [OF _ talks_error])

lemma chats_alloc_or [chat_rules]: "chats c (alloc_or os x m c)"
  by (simp add: alloc_or_def chat_rules)

lemma chats_array_end [chat_rules]: "chats c (array_end n d w c)"
  by (simp add: array_end_def)

lemma chats_file2str [chat_rules]: "chats c (file2str os dk path c)"
  by (simp add: file2str_def Let_def chat_rules split: option.split)

lemma chats_for_entries:
  assumes "\<And>name ty x c. chats c (step name ty x c)"
  shows "chats c (for_entries step es x c)"
proof (induction es arbitrary: x c)
  case (Cons e es)
  then show ?case by (cases e) (auto intro!: chats_bind assms)
qed simp

lemma chats_Ok: "chats c p \<Longrightarrow> p = (r, c') \<Longrightarrow> talks c c'"
  by (simp add: chats_def)

lemma for_entries_invariant:
  assumes "\<And>name ty x c y c'. step name ty x c = (Ok y, c') \<Longrightarrow> P x c \<Longrightarrow> P y c'"
  shows "for_entries step es x c = (Ok y, c') \<Longrightarrow> P x c \<Longrightarrow> P y c'"
proof (induction es arbitrary: x c)
  case (Cons e es)
  obtain name ty where e: "e = (name, ty)" by fastforce
  from Cons.prems(1) obtain z c1 where "step name ty x c = (Ok z, c1)" "for_entries step es z c1 = (Ok y, c')"
    by (auto simp: e bind_st_Ok)
  then show ?case using Cons.IH assms Cons.prems(2) by blast
qed simp

section \<open>Targets\<close>

definition target_ok :: "lm_target \<Rightarrow> bool" where
  "target_ok t \<longleftrightarrow> tg_send t \<noteq> [] \<and> - 1 \<le> debouncing t \<and> debouncing t \<le> INT_MAX
     \<and> length (last_notif_sent t) = MAX_NUM_NOTIFICATIONS"

definition fresh_target :: "lm_target \<Rightarrow> bool" where
  "fresh_target t \<longleftrightarrow> last_notif_sent t = replicate MAX_NUM_NOTIFICATIONS 0"

lemma debouncing_value_range: "debouncing_value s = Some v \<Longrightarrow> - 1 \<le> v \<and> v \<le> INT_MAX"
  by (auto simp: debouncing_value_def Let_def split: option.splits prod.splits if_splits)

lemma chats_target_entry: "chats c (target_entry os dk dir name ty t c)"
  unfolding target_entry_def
  by (auto intro!: chats_bind chat_rules simp: Let_def split: option.split)

lemma chats_alloc_target: "chats c (alloc_target os dk dir name c)"
  unfolding alloc_target_def
  by (auto intro!: chats_bind chat_rules chats_for_entries chats_target_entry split: option.split)

lemma target_entry_ok:
  assumes "target_entry os dk dir name ty t c = (Ok t', c')"
    and "fresh_target t \<and> - 1 \<le> debouncing t \<and> debouncing t \<le> INT_MAX"
  shows "fresh_target t' \<and> - 1 \<le> debouncing t' \<and> debouncing t' \<le> INT_MAX"
proof -
  consider "t' = t" | p where "t' = t\<lparr>tg_send := p\<rparr>" | v s where "debouncing_value s = Some v" "t' = t\<lparr>debouncing := v\<rparr>"
    using assms(1) unfolding target_entry_def
    by (auto simp: bind_st_Ok Let_def SET_ERROR_def split: if_splits option.splits)
  then show ?thesis
  proof cases
    case (3 v s)
    then show ?thesis using assms(2) debouncing_value_range [OF 3(1)] by (simp add: fresh_target_def)
  qed (use assms(2) in \<open>simp_all add: fresh_target_def\<close>)
qed

lemma alloc_target_ok: "alloc_target os dk dir name c = (Ok t, c') \<Longrightarrow> target_ok t \<and> fresh_target t"
proof -
  assume "alloc_target os dk dir name c = (Ok t, c')"
  then obtain d es c2 where e: "for_entries (target_entry os dk d) es (new_target name) c2 = (Ok t, c')" and s: "tg_send t \<noteq> []"
    by (auto simp: alloc_target_def alloc_or_def bind_st_Ok SET_ERROR_def split: if_splits option.splits)
  have "fresh_target t \<and> - 1 \<le> debouncing t \<and> debouncing t \<le> INT_MAX"
    by (rule for_entries_invariant [where P = "\<lambda>t c. fresh_target t \<and> - 1 \<le> debouncing t \<and> debouncing t \<le> INT_MAX", OF _ e])
      (auto simp: new_target_def fresh_target_def limits dest: target_entry_ok)
  then show ?thesis using s by (simp add: target_ok_def fresh_target_def)
qed

text \<open>The context while it is loaded: nothing is monitored yet.\<close>

definition targets_ok :: "lm \<Rightarrow> bool" where
  "targets_ok c \<longleftrightarrow> length (targets c) \<le> MAX_NUM_TARGETS \<and> (\<forall>t\<in>set (targets c). target_ok t \<and> fresh_target t)"

lemma talks_fields: "talks c c' \<Longrightarrow> targets c' = targets c \<and> notifications c' = notifications c
    \<and> monitored_files c' = monitored_files c \<and> lm_ticks c' = lm_ticks c
    \<and> (\<exists>new. lm_actions c' = lm_actions c @ map Printed new)"
  by (auto simp: talks_def)

lemma load_target_ok:
  assumes "load_target os dk dir name ty u c = (Ok y, c')" and "targets_ok c"
  shows "targets_ok c' \<and> notifications c' = notifications c \<and> monitored_files c' = monitored_files c"
proof (cases "ty \<noteq> DT_DIR \<or> dot_entry name")
  case False
  then obtain t c1 where l: "length (targets c) < MAX_NUM_TARGETS" and a: "alloc_target os dk dir name c = (Ok t, c1)"
    and c': "c' = c1\<lparr>targets := targets c1 @ [t]\<rparr>"
    using assms(1) unfolding load_target_def
    by (auto simp: bind_st_Ok SET_ERROR_def split: if_splits elim!: or_error.elims)
  then show ?thesis
    using alloc_target_ok [OF a] talks_fields [OF chats_Ok [OF chats_alloc_target a]] assms(2) by (auto simp: targets_ok_def)
qed (use assms in \<open>auto simp: load_target_def\<close>)

lemma load_config_targets_ok:
  assumes "load_config_targets os dk dir c = (Ok y, c')" and "targets_ok c"
  shows "targets_ok c' \<and> notifications c' = notifications c \<and> monitored_files c' = monitored_files c"
proof -
  obtain es where e: "for_entries (load_target os dk dir) es () c = (Ok y, c')"
    using assms(1) by (auto simp: load_config_targets_def SET_ERROR_def split: option.splits)
  show ?thesis
    by (rule for_entries_invariant [where P = "\<lambda>u d. targets_ok d \<and> notifications d = notifications c \<and> monitored_files d = monitored_files c",
          OF _ e]) (use load_target_ok assms(2) in \<open>auto dest!: load_target_ok\<close>)
qed

section \<open>Notifications\<close>

definition sources_ok :: "(string \<times> bool) list \<Rightarrow> bool" where
  "sources_ok fs \<longleftrightarrow> length fs \<le> MAX_NUM_MONITORED_FILES_PER_NOTIFICATION \<and> (\<forall>(p, s)\<in>set fs. str_starts_with p (CHR ''/''))"

definition refs_ok :: "nat \<Rightarrow> lm_notification \<Rightarrow> bool" where
  "refs_ok num n \<longleftrightarrow> sources_ok (nt_files n) \<and> length (nt_targets n) \<le> MAX_NUM_TARGETS \<and> (\<forall>t\<in>set (nt_targets n). t < num)
     \<and> (nt_level n = [] \<or> is_level_exe n \<or> level_ok (nt_level n))"

definition complete :: "lm_notification \<Rightarrow> bool" where
  "complete n \<longleftrightarrow> nt_filter n \<noteq> [] \<and> nt_title n \<noteq> [] \<and> nt_desc n \<noteq> [] \<and> nt_level n \<noteq> [] \<and> nt_files n \<noteq> []"

lemma chats_add_sources: "chats c (add_sources os ts n c)"
  by (induction ts arbitrary: n c) (auto simp: Let_def chat_rules intro!: chats_bind split: prod.split)

lemma chats_add_targets: "chats c (add_targets ts n c)"
  by (induction ts arbitrary: n c) (auto simp: chat_rules intro!: chats_bind split: option.split)

lemma add_sources_ok: "add_sources os ts n c = (Ok n', c') \<Longrightarrow> sources_ok (nt_files n) \<Longrightarrow>
    sources_ok (nt_files n') \<and> nt_targets n' = nt_targets n \<and> nt_level n' = nt_level n \<and> is_level_exe n' = is_level_exe n"
proof (induction ts arbitrary: n c)
  case (Cons t ts)
  obtain p s where k: "source_kind t = (p, s)" by fastforce
  let ?n = "n\<lparr>nt_files := nt_files n @ [(p, s)]\<rparr>"
  from Cons.prems(1) have h: "p \<noteq> []" "hd p = CHR ''/''" "length (nt_files n) < MAX_NUM_MONITORED_FILES_PER_NOTIFICATION"
    and b: "bind_st (alloc_or os ?n ''Failed to alloc memory for monitored file path.'' c) (\<lambda>n1 c1. add_sources os ts n1 c1) = (Ok n', c')"
    by (auto simp: k SET_ERROR_def split: if_splits)
  from b obtain c1 where r: "add_sources os ts ?n c1 = (Ok n', c')"
    by (auto simp: bind_st_Ok alloc_or_def SET_ERROR_def split: if_splits)
  have "sources_ok (nt_files ?n)" using h Cons.prems(2) by (auto simp: sources_ok_def str_starts_with_def)
  with Cons.IH [OF r] show ?case by auto
qed auto

lemma find_target_bound: "find_target t ts = Some i \<Longrightarrow> i < length ts"
  by (auto simp: find_target_def find_Some_iff)

lemma add_targets_ok: "add_targets ts n c = (Ok n', c') \<Longrightarrow> refs_ok (length (targets c)) n \<Longrightarrow> refs_ok (length (targets c)) n'"
proof (induction ts arbitrary: n)
  case (Cons t ts)
  then obtain i where i: "find_target t (targets c) = Some i" "length (nt_targets n) < MAX_NUM_TARGETS"
    and r: "add_targets ts (n\<lparr>nt_targets := nt_targets n @ [i]\<rparr>) c = (Ok n', c')"
    by (auto simp: bind_st_Ok SET_ERROR_def split: option.splits if_splits)
  have "refs_ok (length (targets c)) (n\<lparr>nt_targets := nt_targets n @ [i]\<rparr>)"
    using i Cons.prems(2) find_target_bound by (auto simp: refs_ok_def)
  with Cons.IH r show ?case by blast
qed simp

lemma chats_text: "chats c (text_or_program os dk p m c)"
  by (auto simp: text_or_program_def intro!: chats_bind chat_rules)

lemma chats_notification_file: "chats c (notification_file os dk p name n c)"
proof -
  have t: "chats c (bind_st (text_or_program os dk p m c) (\<lambda>(s, exe) c1. (Ok (f s exe), c1)))"
    for m and f :: "string \<Rightarrow> bool \<Rightarrow> lm_notification"
    by (rule chats_bind [OF chats_text]) (simp split: prod.split)
  show ?thesis
    unfolding notification_file_def
  proof (intro chats_if, goal_cases)
    case 5
    show ?case by (rule chats_bind [OF chats_text]) (simp add: chats_error split: prod.split)
  next
    case 6
    show ?case by (rule chats_bind [OF chats_or_error [OF chats_file2str] chats_add_sources])
  next
    case 7
    show ?case by (rule chats_bind [OF chats_or_error [OF chats_file2str] chats_add_targets])
  qed (simp, rule chats_error, rule t, rule t, simp)
qed

lemma notification_file_ok:
  assumes "notification_file os dk p name n c = (Ok n', c')" and "refs_ok (length (targets c)) n"
  shows "refs_ok (length (targets c)) n'"
proof -
  consider "name \<in> {''filter'', ''title'', ''desc''}" | "name = ''level''" | "name = ''source''" | "name = ''target''"
    | "name \<notin> {''filter'', ''title'', ''desc'', ''level'', ''source'', ''target''}"
    by (cases "name \<in> {''filter'', ''title'', ''desc''}"; cases "name = ''level''"; cases "name = ''source''"; cases "name = ''target''") simp_all
  then show ?thesis
  proof cases
    case 1
    then show ?thesis using assms
      by (auto simp: notification_file_def bind_st_Ok SET_ERROR_def refs_ok_def split: if_splits prod.splits)
  next
    case 2
    then show ?thesis using assms
      by (auto simp: notification_file_def bind_st_Ok SET_ERROR_def refs_ok_def split: if_splits prod.splits)
  next
    case 3
    then obtain s c1 where "add_sources os (strtok_lines s) n c1 = (Ok n', c')"
      using assms(1) by (auto simp: notification_file_def bind_st_Ok)
    from add_sources_ok [OF this] show ?thesis using assms(2) by (auto simp: refs_ok_def)
  next
    case 4
    then obtain s c1 where r: "or_error (file2str os dk p c) ''Failed to read notification target.'' = (Ok s, c1)"
        "add_targets (strtok_lines s) n c1 = (Ok n', c')"
      using assms(1) by (auto simp: notification_file_def bind_st_Ok)
    have "targets c1 = targets c" using talks_fields [OF chats_Ok [OF chats_or_error [OF chats_file2str] r(1)]] by simp
    then show ?thesis using add_targets_ok [OF r(2)] assms(2) by simp
  next
    case 5
    then show ?thesis using assms by (simp add: notification_file_def)
  qed
qed

lemma chats_notification_entry: "chats c (notification_entry os dk dir name ty n c)"
  by (auto simp: notification_entry_def intro!: chats_bind chat_rules chats_notification_file)

lemma notification_entry_ok:
  assumes "notification_entry os dk dir name ty n c = (Ok n', c')" and "refs_ok (length (targets c)) n"
  shows "refs_ok (length (targets c)) n'"
  using assms notification_file_ok
  by (auto simp: notification_entry_def bind_st_Ok alloc_or_def SET_ERROR_def split: if_splits)

lemma alloc_notification_ok:
  assumes "alloc_notification os dk dir name c = (Ok n, c')" and "length (targets c) \<le> MAX_NUM_TARGETS"
  shows "refs_ok (length (targets c)) n \<and> complete n \<and> talks c c'"
proof -
  obtain d es n1 c2 c3 where e: "for_entries (notification_entry os dk d) es (new_notification name) c2 = (Ok n1, c3)"
    and c2: "talks c c2" and v: "validate_notification d n1 c3 = (Ok (), c3)" and t: "default_targets n1 c3 = (Ok n, c')"
    using assms(1)
    by (auto simp: alloc_notification_def alloc_or_def bind_st_Ok SET_ERROR_def validate_notification_def split: if_splits option.splits)
  have c3: "talks c c3"
    using talks_trans [OF c2 chats_Ok [OF chats_for_entries e]] chats_notification_entry by blast
  have "refs_ok (length (targets c)) n1 \<and> targets c3 = targets c"
    by (rule for_entries_invariant [where P = "\<lambda>n d. refs_ok (length (targets c)) n \<and> targets d = targets c", OF _ e])
      (use notification_entry_ok talks_fields [OF chats_Ok [OF chats_notification_entry]] talks_fields [OF c2]
        in \<open>fastforce simp: refs_ok_def new_notification_def sources_ok_def\<close>)+
  then have r: "refs_ok (length (targets c)) n1" "targets c3 = targets c" by simp_all
  have "complete n1"
    using v by (auto simp: validate_notification_def complete_def SET_ERROR_def split: if_splits)
  then show ?thesis
    using t r c3 assms(2) by (auto simp: default_targets_def bind_st_Ok array_end_def refs_ok_def complete_def split: if_splits)
qed

definition loaded :: "lm \<Rightarrow> bool" where
  "loaded c \<longleftrightarrow> targets_ok c \<and> length (notifications c) \<le> MAX_NUM_NOTIFICATIONS
     \<and> (\<forall>n\<in>set (notifications c). refs_ok (length (targets c)) n \<and> complete n)"

lemma load_notification_ok:
  assumes "load_notification os dk dir name ty u c = (Ok y, c')" and "loaded c"
  shows "loaded c' \<and> monitored_files c' = monitored_files c"
proof (cases "ty \<noteq> DT_DIR \<or> dot_entry name")
  case False
  then obtain n c1 where l: "length (notifications c) < MAX_NUM_NOTIFICATIONS" and a: "alloc_notification os dk dir name c = (Ok n, c1)"
    and c': "c' = c1\<lparr>notifications := notifications c1 @ [n]\<rparr>"
    using assms(1) unfolding load_notification_def
    by (auto simp: bind_st_Ok SET_ERROR_def split: if_splits elim!: or_error.elims)
  have "refs_ok (length (targets c)) n \<and> complete n \<and> talks c c1"
    by (rule alloc_notification_ok [OF a]) (use assms(2) in \<open>simp add: loaded_def targets_ok_def\<close>)
  then show ?thesis
    using l c' talks_fields [of c c1] assms(2) by (auto simp: loaded_def targets_ok_def)
qed (use assms in \<open>auto simp: load_notification_def\<close>)

lemma load_config_notifications_ok:
  assumes "load_config_notifications os dk dir c = (Ok y, c')" and "loaded c"
  shows "loaded c' \<and> monitored_files c' = monitored_files c"
proof -
  obtain es where e: "for_entries (load_notification os dk dir) es () c = (Ok y, c')"
    using assms(1) by (auto simp: load_config_notifications_def SET_ERROR_def split: option.splits)
  show ?thesis
    by (rule for_entries_invariant [where P = "\<lambda>u d. loaded d \<and> monitored_files d = monitored_files c", OF _ e])
      (use assms(2) in \<open>auto dest!: load_notification_ok\<close>)
qed

section \<open>The monitored files\<close>

abbreviation keys :: "lm \<Rightarrow> (string \<times> bool) set" where "keys c \<equiv> file_key ` set (monitored_files c)"

abbreviation paths :: "lm \<Rightarrow> string list" where "paths c \<equiv> map mf_path (monitored_files c)"

lemma monitor_files_ok:
  "monitor_files os fs c = (Ok y, c') \<Longrightarrow> distinct (paths c) \<Longrightarrow>
    distinct (paths c') \<and> set fs \<subseteq> keys c' \<and> keys c \<subseteq> keys c' \<and> length (paths c') \<le> length (paths c) + length fs
    \<and> targets c' = targets c \<and> notifications c' = notifications c"
proof (induction os fs c rule: monitor_files.induct)
  case (2 os path status fs c)
  show ?case
  proof (cases "List.find (\<lambda>mf. mf_path mf = path) (monitored_files c)")
    case (Some mf)
    then have mf: "mf \<in> set (monitored_files c)" "mf_path mf = path" by (auto simp: find_Some_iff)
    from Some 2(3) have s: "is_status mf = status" "monitor_files os fs c = (Ok y, c')"
      by (auto simp: SET_ERROR_def split: if_splits)
    have "(path, status) \<in> keys c" using mf s(1) by (auto simp: file_key_def intro!: image_eqI [of _ _ mf])
    then show ?thesis using 2(2) [OF Some s] 2(4) by auto
  next
    case None
    let ?c1 = "c\<lparr>monitored_files := monitored_files c @ [new_file path status]\<rparr>"
    from None 2(3) have m: "monitor_files os fs ?c1 = (Ok y, c')"
      by (auto simp: alloc_or_def SET_ERROR_def split: if_splits)
    have "distinct (paths ?c1)" using 2(4) None by (auto simp: new_file_def find_None_iff)
    moreover have "(path, status) \<in> keys ?c1" by (simp add: file_key_def new_file_def)
    ultimately show ?thesis using 2(1) [OF None, of c "new_file path status"] m by auto
  qed
qed auto

lemma monitor_notifications_ok:
  "monitor_notifications os ns c = (Ok y, c') \<Longrightarrow> distinct (paths c) \<Longrightarrow>
   (\<forall>n\<in>set ns. length (nt_files n) \<le> MAX_NUM_MONITORED_FILES_PER_NOTIFICATION) \<Longrightarrow>
    distinct (paths c') \<and> (\<forall>n\<in>set ns. set (nt_files n) \<subseteq> keys c') \<and> keys c \<subseteq> keys c'
    \<and> length (paths c') \<le> length (paths c) + MAX_NUM_MONITORED_FILES_PER_NOTIFICATION * length ns
    \<and> targets c' = targets c \<and> notifications c' = notifications c \<and> length (notifications c) < MAX_NUM_NOTIFICATIONS"
proof (induction ns arbitrary: c)
  case (Cons n ns)
  from Cons.prems(1) obtain c1 where m: "monitor_files os (nt_files n) c = (Ok (), c1)" "monitor_notifications os ns c1 = (Ok y, c')"
    by (auto simp: bind_st_Ok)
  note f = monitor_files_ok [OF m(1) Cons.prems(2)]
  have "distinct (paths c1)" using f by blast
  note g = Cons.IH [OF m(2) this]
  have l: "length (nt_files n) \<le> MAX_NUM_MONITORED_FILES_PER_NOTIFICATION" using Cons.prems(3) by simp
  have h: "distinct (paths c') \<and> (\<forall>n\<in>set ns. set (nt_files n) \<subseteq> keys c') \<and> keys c1 \<subseteq> keys c'
    \<and> length (paths c') \<le> length (paths c1) + MAX_NUM_MONITORED_FILES_PER_NOTIFICATION * length ns
    \<and> targets c' = targets c1 \<and> notifications c' = notifications c1 \<and> length (notifications c1) < MAX_NUM_NOTIFICATIONS"
    by (rule g) (use Cons.prems(3) in simp)
  have k: "set (nt_files n) \<subseteq> keys c1" "keys c \<subseteq> keys c1" using f by simp_all
  have "keys c1 \<subseteq> keys c'" using h by simp
  then have "set (nt_files n) \<subseteq> keys c'" "keys c \<subseteq> keys c'" by (rule subset_trans [OF k(1)], rule subset_trans [OF k(2)])
  moreover have "length (paths c') \<le> length (paths c) + MAX_NUM_MONITORED_FILES_PER_NOTIFICATION * length (n # ns)"
    using f h l by simp
  ultimately show ?case using f h by simp
qed (auto simp: array_end_def split: if_splits)

text \<open>No file is open yet.\<close>

abbreviation unopened :: "lm \<Rightarrow> bool" where "unopened c \<equiv> \<forall>f\<in>set (monitored_files c). mf_fd f = - 1"

lemma monitor_files_unopened: "monitor_files os fs c = (Ok y, c') \<Longrightarrow> unopened c \<Longrightarrow> unopened c'"
proof (induction os fs c rule: monitor_files.induct)
  case (2 os path status fs c)
  show ?case
  proof (cases "List.find (\<lambda>mf. mf_path mf = path) (monitored_files c)")
    case (Some mf)
    with 2(3) have s: "is_status mf = status" "monitor_files os fs c = (Ok y, c')" by (auto simp: SET_ERROR_def split: if_splits)
    from 2(2) [OF Some s 2(4)] show ?thesis .
  next
    case None
    let ?c1 = "c\<lparr>monitored_files := monitored_files c @ [new_file path status]\<rparr>"
    from None 2(3) have m: "monitor_files os fs ?c1 = (Ok y, c')"
      by (auto simp: alloc_or_def SET_ERROR_def split: if_splits)
    have "unopened ?c1" using 2(4) by (auto simp: new_file_def)
    from 2(1) [OF None, of c "new_file path status", OF m this] show ?thesis .
  qed
qed simp

lemma monitor_notifications_unopened: "monitor_notifications os ns c = (Ok y, c') \<Longrightarrow> unopened c \<Longrightarrow> unopened c'"
proof (induction ns arbitrary: c)
  case (Cons n ns)
  then obtain c1 where "monitor_files os (nt_files n) c = (Ok (), c1)" "monitor_notifications os ns c1 = (Ok y, c')"
    by (auto simp: bind_st_Ok)
  then show ?case using Cons.IH Cons.prems(2) monitor_files_unopened by blast
qed (auto simp: array_end_def split: if_splits)

section \<open>The context\<close>

definition notification_ok :: "lm \<Rightarrow> lm_notification \<Rightarrow> bool" where
  "notification_ok c n \<longleftrightarrow> refs_ok (length (targets c)) n \<and> complete n \<and> set (nt_files n) \<subseteq> keys c"

definition config_ok :: "lm \<Rightarrow> bool" where
  "config_ok c \<longleftrightarrow> length (targets c) \<le> MAX_NUM_TARGETS \<and> (\<forall>t\<in>set (targets c). target_ok t)
     \<and> length (notifications c) < MAX_NUM_NOTIFICATIONS \<and> (\<forall>n\<in>set (notifications c). notification_ok c n)
     \<and> distinct (paths c) \<and> length (monitored_files c) \<le> MAX_NUM_MONITORED_FILES_PER_NOTIFICATION * length (notifications c)"

lemma load_context_ok:
  assumes "load_context os dk cfgdir c = (Ok y, c')" and "targets c = []" "notifications c = []" "monitored_files c = []"
  shows "config_ok c' \<and> (\<forall>t\<in>set (targets c'). fresh_target t) \<and> unopened c'"
proof -
  let ?c2 = "c\<lparr>config_dir := cfgdir\<rparr>"
  obtain c3 c5 where t: "load_config_targets os dk (join_path cfgdir ''targets.d'') ?c2 = (Ok (), c3)"
    and n: "load_config_notifications os dk (join_path cfgdir ''notifications.d'') c3 = (Ok (), c5)"
    and m: "monitor_notifications os (notifications c5) c5 = (Ok y, c')"
    using assms(1) by (auto simp: load_context_def bind_st_Ok alloc_or_def SET_ERROR_def split: if_splits)
  have "targets_ok ?c2" using assms(2) by (simp add: targets_ok_def)
  from load_config_targets_ok [OF t this] have c3: "loaded c3" "monitored_files c3 = []" using assms(3,4) by (simp_all add: loaded_def)
  from load_config_notifications_ok [OF n c3(1)] have c5: "loaded c5" "monitored_files c5 = []" using c3 by simp_all
  have "\<forall>n\<in>set (notifications c5). length (nt_files n) \<le> MAX_NUM_MONITORED_FILES_PER_NOTIFICATION"
    using c5(1) by (auto simp: loaded_def refs_ok_def sources_ok_def)
  from monitor_notifications_ok [OF m _ this] c5 have "config_ok c' \<and> (\<forall>t\<in>set (targets c'). fresh_target t)"
    by (auto simp: loaded_def targets_ok_def config_ok_def notification_ok_def)
  moreover have "unopened c'" using monitor_notifications_unopened [OF m] c5(2) by simp
  ultimately show ?thesis by blast
qed

lemma create_context_ok:
  assumes "create_context os dk cfgdir c = (Ok y, c')"
  shows "config_ok c' \<and> (\<forall>t\<in>set (targets c'). fresh_target t) \<and> unopened c'"
proof -
  obtain r c1 where l: "load_context os dk cfgdir (empty_context c) = (r, c1)" by fastforce
  have "r = Ok y \<and> c1 = c'"
    using assms l by (cases r) (auto simp: create_context_def alloc_or_def SET_ERROR_def bind_st_Ok split: if_splits)
  then show ?thesis using load_context_ok [of os dk cfgdir "empty_context c" y c'] l by (simp add: empty_context_def)
qed

end
