(* ===== verification/LogRuns.thy ===== *)
theory LogRuns
  imports LogTypes
begin

text \<open>
  The two invariants of the log monitor as interpretations of \<open>kept\<close>: the well-formed context, and the spacing of the
  notifications to a target. Both hold for every state the endless loop goes through.
\<close>

section \<open>The well-formed context\<close>

lemma paths_keys: "paths c = map fst (map file_key (monitored_files c))"
  by (simp add: file_key_def comp_def)

lemma set_last_sent_length [simp]: "length (targets (set_last_sent i j t c)) = length (targets c)"
  by (simp add: set_last_sent_def put_def)

lemma set_last_sent_fields [simp]: "notifications (set_last_sent i j t c) = notifications c"
  "monitored_files (set_last_sent i j t c) = monitored_files c"
  "lm_actions (set_last_sent i j t c) = lm_actions c @ [Stamped i j t]"
  by (simp_all add: set_last_sent_def put_def)

lemma stamped_target:
  "i < length (targets c) \<Longrightarrow> targets (set_last_sent i j t c) ! k =
    (if k = i then (targets c ! i)\<lparr>last_notif_sent := (last_notif_sent (targets c ! i))[j := t]\<rparr> else targets c ! k)"
  by (simp add: set_last_sent_def put_def)

lemma stamped_targets:
  assumes "i < length (targets c)" and "x \<in> set (targets (set_last_sent i j t c))"
  obtains y where "y \<in> set (targets c)" "tg_send x = tg_send y" "debouncing x = debouncing y"
    "length (last_notif_sent x) = length (last_notif_sent y)"
proof -
  obtain k where k: "k < length (targets c)" "x = targets (set_last_sent i j t c) ! k"
    using assms(2) by (auto simp: in_set_conv_nth)
  show thesis by (rule that [of "targets c ! k"]) (use k assms(1) stamped_target in auto)
qed

lemma config_ok_quiet: "config_ok c \<Longrightarrow> quiet c c' \<Longrightarrow> config_ok c'"
proof -
  assume c: "config_ok c" and q: "quiet c c'"
  then have k: "map file_key (monitored_files c') = map file_key (monitored_files c)" by (simp add: quiet_def)
  then have "keys c' = keys c" "paths c' = paths c" "length (monitored_files c') = length (monitored_files c)"
    by (metis set_map, simp add: paths_keys, metis length_map)
  with c q show "config_ok c'" by (simp add: config_ok_def notification_ok_def quiet_def)
qed

lemma config_ok_links: "config_ok c \<Longrightarrow> links_ok c"
  by (auto simp: config_ok_def links_ok_def notification_ok_def refs_ok_def target_ok_def)

lemma config_ok_stamp:
  assumes "config_ok c" and "i < length (targets c)"
  shows "config_ok (set_last_sent i j t c)"
proof -
  have "target_ok x" if "x \<in> set (targets (set_last_sent i j t c))" for x
    by (rule stamped_targets [OF assms(2) that]) (use assms(1) in \<open>auto simp: config_ok_def target_ok_def\<close>)
  then show ?thesis using assms(1) by (simp add: config_ok_def notification_ok_def)
qed

interpretation typed: kept os config_ok for os
  by unfold_locales (use config_ok_quiet config_ok_links config_ok_stamp in blast)+

section \<open>The spacing of notifications\<close>

fun stamp_time :: "nat \<Rightarrow> nat \<Rightarrow> lm_action \<Rightarrow> int option" where
  "stamp_time i j (Stamped i' j' t) = (if i' = i \<and> j' = j then Some t else None)"
| "stamp_time i j a = None"

text \<open>The times at which a notification was sent to a target.\<close>

definition stamps :: "nat \<Rightarrow> nat \<Rightarrow> lm \<Rightarrow> int list" where
  "stamps i j c = List.map_filter (stamp_time i j) (lm_actions c)"

text \<open>At most once with \<open>0\<close>, with the debouncing time between two of them when it is positive.\<close>

definition spaced :: "int \<Rightarrow> int list \<Rightarrow> bool" where
  "spaced d ts \<longleftrightarrow> (d = 0 \<longrightarrow> length ts \<le> 1) \<and> (0 < d \<longrightarrow> successively (\<lambda>a b. d \<le> b - a) ts)"

text \<open>The clock is that of the time since the start: positive, and it does not go back.\<close>

definition clock_forward :: "lm_os \<Rightarrow> bool" where
  "clock_forward os \<longleftrightarrow> (\<forall>t a. time_at os t = Some a \<longrightarrow> 0 < a)
     \<and> (\<forall>t t' a b. t \<le> t' \<longrightarrow> time_at os t = Some a \<longrightarrow> time_at os t' = Some b \<longrightarrow> a \<le> b)"

definition stamps_ok :: "lm \<Rightarrow> bool" where
  "stamps_ok c \<longleftrightarrow> (\<forall>i < length (targets c). \<forall>j < MAX_NUM_NOTIFICATIONS.
     last_notif_sent (targets c ! i) ! j = (if stamps i j c = [] then 0 else last (stamps i j c))
     \<and> (\<forall>t\<in>set (stamps i j c). 0 < t) \<and> spaced (debouncing (targets c ! i)) (stamps i j c))"

definition spacing_inv :: "lm_os \<Rightarrow> lm \<Rightarrow> bool" where
  "spacing_inv os c \<longleftrightarrow> links_ok c \<and> (clock_forward os \<longrightarrow> stamps_ok c)"

lemma no_stamp_time: "\<not> is_stamp a \<Longrightarrow> stamp_time i j a = None"
  by (cases a) auto

lemma no_stamps: "\<forall>a\<in>set as. \<not> is_stamp a \<Longrightarrow> List.map_filter (stamp_time i j) as = []"
  by (induction as) (auto simp: List.map_filter_simps no_stamp_time)

lemma map_filter_append: "List.map_filter f (xs @ ys) = List.map_filter f xs @ List.map_filter f ys"
  by (simp add: List.map_filter_def)

lemma stamps_quiet: "quiet c c' \<Longrightarrow> stamps i j c' = stamps i j c"
  by (auto simp: quiet_def stamps_def map_filter_append no_stamps)

lemma spaced_Nil [simp]: "spaced d []"
  by (simp add: spaced_def)

lemma stamps_set [simp]: "stamps i j (set_last_sent i' j' t c) = stamps i j c @ (if i' = i \<and> j' = j then [t] else [])"
  by (simp add: stamps_def List.map_filter_def)

lemma spaced_snoc:
  "spaced d ts \<Longrightarrow> (ts \<noteq> [] \<longrightarrow> d \<noteq> 0 \<and> (0 < d \<longrightarrow> d \<le> t - last ts)) \<Longrightarrow> spaced d (ts @ [t])"
  by (cases "ts = []") (auto simp: spaced_def successively_append_iff)

lemma links_stamp:
  assumes "links_ok c" and "i < length (targets c)"
  shows "links_ok (set_last_sent i j t c)"
proof -
  have "length (last_notif_sent x) = MAX_NUM_NOTIFICATIONS" if "x \<in> set (targets (set_last_sent i j t c))" for x
    by (rule stamped_targets [OF assms(2) that]) (use assms(1) in \<open>auto simp: links_ok_def\<close>)
  then show ?thesis using assms(1) by (simp add: links_ok_def)
qed

lemma stamps_ok_stamp:
  assumes clock: "clock_forward os" and ok: "stamps_ok c" and links: "links_ok c" and i: "i < length (targets c)"
    and j: "j < length (notifications c)" and due: "due os (targets c ! i) j m" and now: "time_at os m = Some now"
  shows "stamps_ok (set_last_sent i j now c)"
proof -
  have j': "j < MAX_NUM_NOTIFICATIONS" using j links by (simp add: links_ok_def)
  have l: "length (last_notif_sent (targets c ! i)) = MAX_NUM_NOTIFICATIONS" using links i by (simp add: links_ok_def)
  have n: "0 < now" using clock now by (auto simp: clock_forward_def)
  let ?ts = "stamps i j c" and ?d = "debouncing (targets c ! i)"
  have old: "last_notif_sent (targets c ! i) ! j = (if ?ts = [] then 0 else last ?ts)" "\<forall>t\<in>set ?ts. 0 < t" "spaced ?d ?ts"
    using ok i j' by (auto simp: stamps_ok_def)
  have "spaced ?d (?ts @ [now])"
  proof (rule spaced_snoc [OF old(3)], rule impI)
    assume ne: "?ts \<noteq> []"
    then have "last_notif_sent (targets c ! i) ! j > 0" using old(1,2) last_in_set [OF ne] by auto
    then consider "?d < 0" | k t0 where "?d > 0" "k \<le> m" "time_at os k = Some t0" "?d \<le> t0 - last ?ts"
      using due ne old(1) by (auto simp: due_def)
    then show "?d \<noteq> 0 \<and> (0 < ?d \<longrightarrow> ?d \<le> now - last ?ts)"
    proof cases
      case (2 k t0)
      moreover have "t0 \<le> now" using clock 2(2,3) now by (auto simp: clock_forward_def)
      ultimately show ?thesis by simp
    qed simp
  qed
  then show ?thesis
    using ok old n l j' i unfolding stamps_ok_def
    by (auto simp: stamped_target nth_list_update)
qed

interpretation spacing: kept os "spacing_inv os" for os
proof unfold_locales
  fix c c'
  assume i: "spacing_inv os c" and q: "quiet c c'"
  have "targets c' = targets c" "notifications c' = notifications c" using q by (simp_all add: quiet_def)
  with i stamps_quiet [OF q] show "spacing_inv os c'" by (simp add: spacing_inv_def stamps_ok_def links_ok_def)
next
  show "spacing_inv os c \<Longrightarrow> links_ok c" for c by (simp add: spacing_inv_def)
next
  show "spacing_inv os c \<Longrightarrow> i < length (targets c) \<Longrightarrow> j < length (notifications c) \<Longrightarrow> due os (targets c ! i) j m
      \<Longrightarrow> time_at os m = Some now \<Longrightarrow> spacing_inv os (set_last_sent i j now c)" for c i j m now
    by (simp add: spacing_inv_def links_stamp stamps_ok_stamp)
qed

text \<open>A context whose targets were sent nothing.\<close>

lemma spacing_start:
  assumes "config_ok c" and "\<forall>t\<in>set (targets c). fresh_target t" and "\<forall>a\<in>set (lm_actions c). \<not> is_stamp a"
  shows "spacing_inv os c"
proof -
  have "stamps i j c = []" for i j using no_stamps [OF assms(3)] by (simp add: stamps_def)
  then show ?thesis
    using assms(1,2) config_ok_links
    by (auto simp: spacing_inv_def stamps_ok_def fresh_target_def spaced_def all_set_conv_all_nth)
qed

text \<open>The configured part of the targets.\<close>

abbreviation settings :: "lm \<Rightarrow> (string \<times> string \<times> int) list" where
  "settings c \<equiv> map (\<lambda>t. (tg_name t, tg_send t, debouncing t)) (targets c)"

lemma settings_stamp: "i < length (targets c) \<Longrightarrow> settings (set_last_sent i j t c) = settings c"
  by (simp add: set_last_sent_def put_def map_update list_update_same_conv)

lemma settings_length: "settings c' = settings c \<Longrightarrow> length (targets c') = length (targets c)"
  by (rule map_eq_imp_length_eq)

lemma settings_debouncing:
  assumes "settings c' = settings c" and "i < length (targets c)"
  shows "debouncing (targets c' ! i) = debouncing (targets c ! i)"
proof -
  have "settings c' ! i = settings c ! i" by (simp only: assms(1))
  then show ?thesis using assms(2) settings_length [OF assms(1)] by (simp only: nth_map prod.inject)
qed

interpretation settled: kept os "\<lambda>c. links_ok c \<and> settings c = S" for os S
  by unfold_locales (auto simp: quiet_def links_ok_def settings_stamp links_stamp [unfolded links_ok_def])

section \<open>A small configuration\<close>

text \<open>One target with a debouncing time of ten seconds, one notification for the log file \<open>/l\<close>.\<close>

definition small_file :: "string \<Rightarrow> file_answer" where
  "small_file s = \<lparr>fa_size = Some (length s), fa_open = True, fa_read = Some s\<rparr>"

definition small_disk :: lm_disk where
  "small_disk = \<lparr>
     ld_entries = (\<lambda>p. if p = ''/c/targets.d'' then Some [(''.'', DT_DIR), (''t'', DT_DIR)]
        else if p = ''/c/targets.d/t'' then Some [(''send'', DT_REG), (''debouncing'', DT_REG)]
        else if p = ''/c/notifications.d'' then Some [(''n'', DT_DIR)]
        else if p = ''/c/notifications.d/n'' then
          Some [(''filter'', DT_REG), (''title'', DT_REG), (''desc'', DT_REG), (''level'', DT_REG), (''source'', DT_REG)]
        else None),
     ld_exec = (\<lambda>p. p = ''/c/targets.d/t/send'' \<or> p = ''/c/notifications.d/n/filter''),
     ld_file = (\<lambda>p. small_file (if p = ''/c/targets.d/t/debouncing'' then ''10'' @ [LF]
        else if p = ''/c/notifications.d/n/level'' then ''INFO'' else if p = ''/c/notifications.d/n/source'' then ''/l'' @ [LF]
        else ''text''))\<rparr>"

text \<open>A line is written to \<open>/l\<close> now and then; the clock gains five seconds with every call.\<close>

definition small_log :: "nat \<Rightarrow> string" where
  "small_log t = concat (replicate (t div 3) (''a'' @ [LF]))"

definition small_stat :: "nat \<Rightarrow> file_stat" where
  "small_stat t = \<lparr>st_size = int (length (small_log t)), st_mtime = 0, st_dev = 1, st_ino = 2\<rparr>"

definition small_os :: lm_os where
  "small_os = \<lparr>lo_clock = (\<lambda>t. Monotonic (1 + int t) 0), lo_uptime = (\<lambda>t. Inl ''none''), lo_malloc = (\<lambda>t. True),
     lo_run = (\<lambda>t exec args. \<lparr>ra_pipe = None, ra_fork = None, ra_reads = [], ra_wait = [WaitDone (WExited 0)]\<rparr>),
     lo_fork = (\<lambda>t. None), lo_stat = (\<lambda>t p. Some (small_stat t)), lo_fstat = (\<lambda>t fd. Some (small_stat t)),
     lo_open = (\<lambda>t p. 3), lo_read = (\<lambda>t fd off. if drop (nat off) (small_log t) = [] then [] else [Bytes (drop (nat off) (small_log t))]),
     lo_zombies = (\<lambda>t. 0), lo_strerror = (\<lambda>t. ''Error'')\<rparr>"

definition small_start :: lm where
  "small_start = \<lparr>config_dir = '''', monitored_files = [], notifications = [], targets = [], lm_debug = False, lm_ticks = 0,
     lm_pos = (\<lambda>_. 0), lm_actions = []\<rparr>"

definition small_context :: lm where
  "small_context = snd (create_context small_os small_disk ''/c'' small_start)"

definition small_run :: lm where
  "small_run = snd (monitor small_os 4 6 1 small_context)"

lemma small_created: "create_context small_os small_disk ''/c'' small_start = (Ok (), small_context)"
  unfolding small_context_def by (rule prod_eqI) (simp_all, code_simp)

lemma small_clock: "clock_forward small_os"
  by (simp add: clock_forward_def time_at_def small_os_def)

section \<open>Properties\<close>



text \<open>
  C13. The context that \<open>create_context\<close> returns is well formed, and stays so during the whole run: every notification has
  a filter, a title, a description, a valid level and one to four files with absolute paths that are monitored with the
  same kind; its targets exist; every file is monitored once; the counts fit the arrays.
\<close>

theorem context_stays_well_formed:
  assumes "create_context os dk cfgdir c0 = (Ok (), c)" and "monitor os bufsiz fuel rounds c = (r, c')"
  shows "config_ok c \<and> config_ok c' \<and> notifications c' = notifications c"
proof -
  have "config_ok c" using create_context_ok [OF assms(1)] by simp
  then show ?thesis using typed.monitor_keeps [of c os bufsiz fuel rounds] assms(2) by (simp add: typed.keeps_def)
qed

theorem context_stays_well_formed_witness: "config_ok small_context \<and> config_ok small_run"
proof -
  have "monitor small_os 4 6 1 small_context = (fst (monitor small_os 4 6 1 small_context), small_run)"
    by (simp add: small_run_def)
  from context_stays_well_formed [OF small_created this] show ?thesis by simp
qed

end
