(* ===== verification/LogForever.thy ===== *)
theory LogForever
  imports LogRuns
begin

text \<open>
  The log monitor does not end by itself: whatever fails while it runs (a file, a filter, a program of a notification, the
  send program of a target, an allocation) is reported and survived.
\<close>

section \<open>What may go wrong\<close>

text \<open>
  What the code relies on: the time can be read (otherwise it aborts on purpose), and the programs it waits for end.
\<close>

definition dependable :: "lm_os \<Rightarrow> bool" where
  "dependable os \<longleftrightarrow> (\<forall>t. time_at os t \<noteq> None) \<and> (\<forall>t exec args h. wait_child (ra_wait (lo_run os t exec args)) \<noteq> Halt h)"

text \<open>No exception, and no end but that of the fuel.\<close>

definition goes_on :: "'a res \<times> lm \<Rightarrow> bool" where
  "goes_on p \<longleftrightarrow> (\<forall>e. fst p \<noteq> Exn e) \<and> (\<forall>h. fst p = Halt h \<longrightarrow> h = NoFuel)"

lemma goes_on_simps [simp]: "goes_on (Ok x, c)" "\<not> goes_on (Exn e, c)" "goes_on (Halt h, c) \<longleftrightarrow> h = NoFuel"
  by (simp_all add: goes_on_def)

lemma goes_on_bind: "goes_on p \<Longrightarrow> (\<And>x c1. p = (Ok x, c1) \<Longrightarrow> goes_on (f x c1)) \<Longrightarrow> goes_on (bind_st p f)"
  by (cases p; cases "fst p") auto

section \<open>One line\<close>

text \<open>The arrays of targets have a free entry, which the loops over them read (see \<open>array_end\<close>).\<close>

definition spare :: "lm_notification \<Rightarrow> bool" where
  "spare n \<longleftrightarrow> length (nt_targets n) < MAX_NUM_TARGETS"

lemma on_get_time: "dependable os \<Longrightarrow> goes_on (lm_get_time os c)"
proof -
  assume "dependable os"
  then have "time_at os (lm_ticks c) \<noteq> None" by (simp add: dependable_def)
  then show ?thesis by (auto simp: lm_get_time_def time_at_def split: clock_answer.splits sum.splits)
qed

lemma exec_not_halted: "dependable os \<Longrightarrow> fst (invoke_exec os exec args n c) \<noteq> Halt h"
proof -
  assume "dependable os"
  then have "wait_child (ra_wait (lo_run os (lm_ticks c) exec args)) \<noteq> Halt h" for h by (simp add: dependable_def)
  then show ?thesis by (simp add: invoke_exec_def Let_def SET_ERROR_def split: res.split option.split wstatus.split)
qed

text \<open>A filter that cannot be run rejects the line, a text that cannot be had is replaced.\<close>

lemma on_filter: "dependable os \<Longrightarrow> goes_on (invoke_filter os f line c)"
proof -
  assume d: "dependable os"
  obtain r c1 where e: "invoke_exec os f [line] 0 c = (r, c1)" by fastforce
  then have "r \<noteq> Halt h" for h using exec_not_halted [OF d, of f "[line]" 0 c h] by simp
  then show ?thesis by (cases r) (auto simp: invoke_filter_def e)
qed

lemma on_text: "dependable os \<Longrightarrow> goes_on (notification_text os what exe val ok line c)"
proof -
  assume d: "dependable os"
  obtain r c1 where e: "invoke_exec os val [line] BUFFER_SIZE c = (r, c1)" by fastforce
  then have "r \<noteq> Halt h" for h using exec_not_halted [OF d, of val "[line]" BUFFER_SIZE c h] by simp
  then show ?thesis by (cases r) (auto simp: notification_text_def e Let_def case_prod_beta)
qed

lemma on_send_target: "dependable os \<Longrightarrow> goes_on (send_target os nidx a b l tidx c)"
proof -
  assume d: "dependable os"
  have "goes_on (debounced os nidx t c)" for t c
    by (simp add: debounced_def goes_on_bind [OF on_get_time [OF d]])
  then show ?thesis
    unfolding send_target_def
    by (rule goes_on_bind) (auto simp: Let_def split: prod.split intro!: goes_on_bind [OF on_get_time [OF d]])
qed

lemma on_send_targets: "dependable os \<Longrightarrow> k < MAX_NUM_TARGETS \<Longrightarrow> goes_on (send_targets os nidx a b l k ts c)"
  by (induction ts arbitrary: c) (simp_all add: array_end_def goes_on_bind on_send_target)

lemma on_notification: "dependable os \<Longrightarrow> spare n \<Longrightarrow> goes_on (handle_notification os i line nidx n c)"
proof -
  assume d: "dependable os" and n: "spare n"
  have "goes_on (notify os nidx n line c)" for c
    unfolding notify_def using d n by (intro goes_on_bind on_text on_send_targets) (simp_all add: spare_def)
  then show ?thesis unfolding handle_notification_def by (auto intro!: goes_on_bind on_filter [OF d])
qed

lemma on_notifications:
  "dependable os \<Longrightarrow> \<forall>n\<in>set ns. spare n \<Longrightarrow> nidx + length ns < MAX_NUM_NOTIFICATIONS \<Longrightarrow>
   goes_on (handle_notifications os i line nidx ns c)"
  by (induction ns arbitrary: nidx c) (simp_all add: array_end_def goes_on_bind on_notification)

section \<open>The endless loop\<close>

definition room :: "lm \<Rightarrow> bool" where
  "room c \<longleftrightarrow> config_ok c \<and> (\<forall>n\<in>set (notifications c). spare n)"

definition survives :: "lm \<Rightarrow> 'a res \<times> lm \<Rightarrow> bool" where
  "survives c p \<longleftrightarrow> (room c \<longrightarrow> goes_on p \<and> room (snd p))"

lemma room_quiet: "room c \<Longrightarrow> quiet c c' \<Longrightarrow> room c'"
  using config_ok_quiet by (auto simp: room_def quiet_def)

lemma survives_quiet: "quiet c (snd p) \<Longrightarrow> goes_on p \<Longrightarrow> survives c p"
  using room_quiet by (auto simp: survives_def)

lemma survives_return: "quiet c c' \<Longrightarrow> survives c (Ok x, c')"
  by (rule survives_quiet) simp_all

lemma survives_after: "quiet c c1 \<Longrightarrow> survives c1 p \<Longrightarrow> survives c p"
  using room_quiet by (auto simp: survives_def)

lemma survives_bind: "survives c p \<Longrightarrow> (\<And>x c1. p = (Ok x, c1) \<Longrightarrow> survives c1 (f x c1)) \<Longrightarrow> survives c (bind_st p f)"
  by (cases p; cases "fst p") (auto simp: survives_def)

lemma survives_if: "(b \<Longrightarrow> survives c p) \<Longrightarrow> (\<not> b \<Longrightarrow> survives c q) \<Longrightarrow> survives c (if b then p else q)"
  by simp

lemma survives_line: "dependable os \<Longrightarrow> survives c (handle_line os i line c)"
proof -
  assume d: "dependable os"
  have "room (snd (handle_line os i line c))" if "room c"
    using typed.handle_line_keeps [of c os i line] that by (auto simp: typed.keeps_def room_def)
  moreover have "goes_on (handle_line os i line c)" if "room c"
    unfolding handle_line_def using that by (intro on_notifications [OF d]) (simp_all add: room_def config_ok_def)
  ultimately show ?thesis by (simp add: survives_def)
qed

lemma survives_read: "dependable os \<Longrightarrow> survives c (handle_read os i b c)"
  by (rule handle_read_rule, goal_cases)
    (simp_all add: survives_return survives_bind survives_line quiet_set_pending quiet_say
      survives_after [OF quiet_set_pending [OF quiet_refl]])

lemma survives_update: "dependable os \<Longrightarrow> survives c (update_last_read os i c)"
  by (rule survives_quiet [OF quiet_update_last_read]) (simp add: update_last_read_def goes_on_bind on_get_time)

lemma survives_read_to_end: "dependable os \<Longrightarrow> survives c (read_to_end os bufsiz fuel i fd c)"
proof (induction fuel arbitrary: c)
  case (Suc fuel)
  obtain r c1 where t: "tail_read os fd bufsiz (check_truncated os fd c) = (r, c1)" by fastforce
  have q: "quiet c c1"
    using quiet_trans [OF quiet_truncated [OF quiet_refl, of c os fd] quiet_tail_read [of "check_truncated os fd c" os fd bufsiz]] t
    by simp
  have "survives c1 (bind_st (handle_read os i b c1) (\<lambda>_ c2. read_to_end os bufsiz fuel i fd c2))" for b
    by (rule survives_bind [OF survives_read [OF Suc.prems] Suc.IH [OF Suc.prems]])
  then show ?case by (auto simp: t split: option.split intro: survives_after [OF q] survives_return [OF q])
qed (simp add: survives_def)

lemma survives_file: "dependable os \<Longrightarrow> survives c (read_file_now os bufsiz fuel i fd c)"
  unfolding read_file_now_def by (intro survives_bind survives_read_to_end survives_update)

lemma survives_tail_file: "dependable os \<Longrightarrow> survives c (tail_file os bufsiz fuel i c)"
proof -
  assume d: "dependable os"
  have q: "quiet c (reopen os i st (lm_tick c))" for st by (intro quiet_reopen quiet_tick quiet_refl)
  have r: "survives x (read_file_now os bufsiz fuel i fd (lseek_set fd (upd_file i (\<lambda>f. f\<lparr>last_stat := st\<rparr>) x)))" for x fd st
    by (rule survives_after [OF quiet_lseek [OF quiet_upd_file [OF file_key_fd(3) quiet_refl]] survives_file [OF d]])
  have s: "survives x (read_file_now os bufsiz fuel i fd (lseek_set fd x))" for x fd
    by (rule survives_after [OF quiet_lseek [OF quiet_refl] survives_file [OF d]])
  show ?thesis
    unfolding tail_file_def Let_def
    by (rule survives_after [OF q [of "lo_stat os (lm_ticks c) (mf_path (monitored_files c ! i))"]])
      (auto intro!: survives_if survives_return r s survives_update [OF d] survives_file [OF d] split: option.split)
qed

lemma survives_poll_file: "dependable os \<Longrightarrow> survives c (poll_file os bufsiz fuel i c)"
  unfolding poll_file_def
  by (intro survives_if survives_bind [OF survives_quiet [OF quiet_get_time on_get_time]] survives_return quiet_refl survives_tail_file)

lemma survives_poll_files: "dependable os \<Longrightarrow> survives c (poll_files os bufsiz fuel is c)"
  by (induction "is" arbitrary: c) (auto intro!: survives_return survives_bind survives_poll_file)

lemma survives_round: "dependable os \<Longrightarrow> survives c (lm_round os bufsiz fuel c)"
  unfolding lm_round_def
  by (intro survives_bind [OF survives_poll_files] survives_return quiet_put) (simp_all add: reap_children_def quiet_put quiet_tick)

lemma survives_loop: "dependable os \<Longrightarrow> survives c (tail_files os bufsiz fuel rounds c)"
  by (induction rounds arbitrary: c) (simp add: survives_def, auto intro!: survives_bind survives_round)

text \<open>The loop has no normal end.\<close>

lemma loop_endless: "tail_files os bufsiz fuel rounds c \<noteq> (Ok (), c')"
  by (induction rounds arbitrary: c) (auto simp: bind_st_Ok)

lemma endless: "dependable os \<Longrightarrow> room c \<Longrightarrow> fst (tail_files os bufsiz fuel rounds c) = Halt NoFuel"
proof -
  assume "dependable os" and "room c"
  then have g: "goes_on (tail_files os bufsiz fuel rounds c)" using survives_loop by (auto simp: survives_def)
  obtain r c' where t: "tail_files os bufsiz fuel rounds c = (r, c')" by fastforce
  then show ?thesis using g loop_endless [of os bufsiz fuel rounds c c'] by (cases r) auto
qed

lemma quiet_open_all: "quiet c (fold (open_monitored os) xs c)"
  by (induction xs arbitrary: c) (simp_all, blast intro: quiet_trans [OF quiet_open_monitored [OF quiet_refl]])

lemma quiet_show_all: "quiet c (fold show_monitored xs c)"
  by (induction xs arbitrary: c) (simp_all add: show_monitored_def, blast intro: quiet_trans [OF quiet_say(2) [OF quiet_refl]])

section \<open>A run in which everything fails\<close>

text \<open>The filter accepts, the send program cannot be started, the file disappears.\<close>

definition failing_os :: lm_os where
  "failing_os = small_os\<lparr>lo_fork := (\<lambda>t. Some ''out of memory''), lo_stat := (\<lambda>t p. None), lo_fstat := (\<lambda>t fd. Some (small_stat 3)),
     lo_read := (\<lambda>t fd off. if drop (nat off) (small_log 3) = [] then [] else [Bytes (drop (nat off) (small_log 3))])\<rparr>"

definition failing_context :: lm where
  "failing_context = snd (create_context failing_os small_disk ''/c'' small_start)"

definition failing_run :: "unit res \<times> lm" where
  "failing_run = monitor failing_os 4 6 3 failing_context"

lemma failing_created: "create_context failing_os small_disk ''/c'' small_start = (Ok (), failing_context)"
  unfolding failing_context_def by (rule prod_eqI) (simp_all, code_simp)

section \<open>Properties\<close>

text \<open>
  C11. Once it runs, the log monitor runs for ever: with a configuration that was accepted (and no notification with an array
  of targets that is full), whatever file, filter, program or allocation fails, there is no error, no abort, no read out of
  bounds and no normal end, for any number of passes. It relies on a clock that can be read and on programs that end, and gives
  up only before the loop, for one of three reasons.
\<close>

theorem monitor_never_ends:
  assumes "create_context os dk cfgdir c0 = (Ok (), c)" and "dependable os" and "\<forall>n\<in>set (notifications c). spare n"
  shows "fst (monitor os bufsiz fuel rounds c) = Halt NoFuel
    \<or> fst (monitor os bufsiz fuel rounds c) \<in> Exn ` {''No notification configured.'', ''No target configured.'',
         ''Buffer memory allocation failed.''}"
proof -
  let ?c2 = "fold (open_monitored os) [0..<length (monitored_files c)] c"
  have "room c" using create_context_ok [OF assms(1)] assms(3) by (simp add: room_def)
  then have "room (fold show_monitored xs ?c2)" for xs
    using room_quiet [OF room_quiet [OF _ quiet_open_all] quiet_show_all] by blast
  then have "fst (tail_files os bufsiz fuel rounds (fold show_monitored xs ?c2)) = Halt NoFuel" for xs
    by (rule endless [OF assms(2)])
  then show ?thesis by (auto simp: monitor_def validate_config_def alloc_or_def SET_ERROR_def Let_def)
qed

theorem monitor_never_ends_witness:
  "fst failing_run = Halt NoFuel \<and> [SleptSeconds 1, SleptSeconds 1, SleptSeconds 1] = filter (\<lambda>a. a = SleptSeconds 1) (lm_actions (snd failing_run))"
proof -
  have d: "dependable failing_os"
    by (simp add: dependable_def failing_os_def small_os_def time_at_def)
  have n: "\<forall>n\<in>set (notifications failing_context). spare n" by code_simp
  have "fst failing_run \<noteq> Exn m" for m
  proof -
    have "(case fst failing_run of Exn e \<Rightarrow> False | _ \<Rightarrow> True)" by code_simp
    then show ?thesis by auto
  qed
  then have "fst failing_run = Halt NoFuel"
    using monitor_never_ends [OF failing_created d n, of 4 6 3] by (auto simp: failing_run_def)
  moreover have "filter (\<lambda>a. a = SleptSeconds 1) (lm_actions (snd failing_run)) = [SleptSeconds 1, SleptSeconds 1, SleptSeconds 1]"
    by code_simp
  ultimately show ?thesis by simp
qed

end
