(* ===== verification/LogReads.thy ===== *)
theory LogReads
  imports LogMain
begin

text \<open>
  What is read from a regular file whose content stays during the read: everything between the position and the end of
  the file (all of it, when the file has become shorter than the position) is handed out line by line.
\<close>

section \<open>A regular file\<close>

definition plain_reads :: "char list \<Rightarrow> read_ans list" where
  "plain_reads data = (if data = [] then [] else [Bytes data])"

definition steady :: "lm_os \<Rightarrow> int \<Rightarrow> string \<Rightarrow> bool" where
  "steady os fd content \<longleftrightarrow> (\<forall>t. \<exists>st. lo_fstat os t fd = Some st \<and> st_size st = int (length content))
     \<and> (\<forall>t off. 0 \<le> off \<longrightarrow> lo_read os t fd off = plain_reads (drop (nat off) content))"

lemma full_read_end [simp]: "full_read [] n = (Some [], [])"
  by (simp add: full_read.simps [of "[]" n])

lemma full_read_none [simp]: "full_read s 0 = (Some [], s)"
  by (simp add: full_read.simps [of s 0])

lemma full_read_plain: "fst (full_read (plain_reads d) n) = Some (take n d)"
proof (cases "n = 0 \<or> d = []")
  case False
  show ?thesis
  proof (cases "length d \<le> n")
    case True
    with False show ?thesis by (simp add: plain_reads_def full_read.simps [of "[Bytes d]" n])
  next
    case gt: False
    with False show ?thesis by (simp add: plain_reads_def full_read.simps [of "[Bytes d]" n])
  qed
qed (auto simp: plain_reads_def)

lemma tail_read_steady:
  assumes "steady os fd content" and "0 \<le> lm_pos c fd"
  shows "tail_read os fd n c =
    (let b = take n (drop (nat (lm_pos c fd)) content) in
     (Some b, (lm_tick c)\<lparr>lm_pos := (lm_pos c)(fd := lm_pos c fd + int (length b))\<rparr>))"
  using assms full_read_plain [of "drop (nat (lm_pos c fd)) content" n] by (simp add: tail_read_def steady_def Let_def)

definition start_at :: "nat \<Rightarrow> int \<Rightarrow> nat" where
  "start_at len pos = (if int len < pos then 0 else nat pos)"

lemma start_at_in [simp]: "k \<le> len \<Longrightarrow> start_at len (int k) = k"
  by (simp add: start_at_def)

lemma check_truncated_steady:
  assumes "steady os fd content"
  shows "check_truncated os fd c =
    (if int (length content) < lm_pos c fd then lseek_set fd (lm_tick c) else lm_tick c)"
proof -
  obtain st where "lo_fstat os (lm_ticks c) fd = Some st" "st_size st = int (length content)"
    using assms unfolding steady_def by metis
  then show ?thesis by (simp add: check_truncated_def)
qed

section \<open>Short lines\<close>

text \<open>With a piece of \<open>n\<close> bytes behind it, no line is too long for the work buffer.\<close>

definition short_lines :: "nat \<Rightarrow> string \<Rightarrow> bool" where
  "short_lines n s \<longleftrightarrow> (\<forall>f\<in>set (Tokens.fields LF s). int (length f + n) < MAX_PENDING)"

lemma fields_prefix: "LF \<notin> set l \<Longrightarrow> Tokens.fields LF (l @ v) = (l @ hd (Tokens.fields LF v)) # tl (Tokens.fields LF v)"
  by (induction l) auto

lemma fields_left_over: "set (Tokens.fields LF (pending_text (left_over w) @ v)) \<subseteq> set (Tokens.fields LF (w @ v))"
proof (induction w rule: lines_induct)
  case (line l r)
  then show ?case by (cases "r = []") (auto simp: left_over_line fields_line pending_text_def)
qed (simp add: pending_text_def)

lemma left_over_no_LF: "LF \<notin> set (pending_text (left_over w))"
proof (induction w rule: lines_induct)
  case (line l r)
  then show ?case by (cases "r = []") (auto simp: left_over_line pending_text_def)
qed (simp add: pending_text_def)

lemma short_fits:
  assumes "LF \<notin> set (pending_text p)" and "short_lines n (pending_text p @ v)" and "length b \<le> n"
  shows "fits p [b]"
proof -
  have "int (length (pending_text p @ hd (Tokens.fields LF v)) + n) < MAX_PENDING"
    using assms(1,2) by (simp add: short_lines_def fields_prefix)
  with assms(3) show ?thesis by simp
qed

section \<open>Reading to the end\<close>

lemma cstr_take: "NUL \<notin> set s \<Longrightarrow> cstr (take n (drop k s)) = take n (drop k s)"
  by (rule cstr_id) (meson in_set_dropD in_set_takeD)

lemma handle_read_effect:
  assumes "\<And>t. lo_malloc os t" and "i < length (monitored_files c)" and "fits (pending_of i c) [b]"
    and "handle_read os i b c = (r, c')"
  shows "lm_pos c' = lm_pos c \<and> length (monitored_files c') = length (monitored_files c) \<and> r \<noteq> Halt NoFuel
    \<and> (r = Ok () \<longrightarrow> seen i c' = seen i c @ complete_lines (pending_text (pending_of i c) @ b)
         \<and> pending_of i c' = left_over (pending_text (pending_of i c) @ b))"
proof -
  let ?w = "pending_text (pending_of i c) @ b"
  obtain q c1 where e: "each_line os i (complete_lines ?w) (set_pending i None c) = (q, c1)" by fastforce
  have h: "(r, c') = bind_st (q, c1) (\<lambda>_ c'. (Ok (), set_pending i (left_over ?w) c'))"
    using handle_read_lines [OF assms(1-3)] assms(4) e by simp
  have m: "length (monitored_files c1) = length (monitored_files c)" "lm_pos c1 = lm_pos c"
    using each_line_effect [OF e] by simp_all
  show ?thesis
    using h each_line_effect [OF e] m assms(2) by (cases q) auto
qed

lemma read_to_end_steady:
  assumes steady: "steady os fd content" and mem: "\<And>t. lo_malloc os t" and buf: "0 < bufsiz" and nul: "NUL \<notin> set content"
  shows "read_to_end os bufsiz fuel i fd c = (r, c') \<Longrightarrow> i < length (monitored_files c) \<Longrightarrow> 0 \<le> lm_pos c fd \<Longrightarrow>
    LF \<notin> set (pending_text (pending_of i c)) \<Longrightarrow>
    short_lines bufsiz (pending_text (pending_of i c) @ drop (start_at (length content) (lm_pos c fd)) content) \<Longrightarrow>
    length (drop (start_at (length content) (lm_pos c fd)) content) < fuel \<Longrightarrow>
    r \<noteq> Halt NoFuel \<and> (r = Ok () \<longrightarrow>
      seen i c' = seen i c @ complete_lines (pending_text (pending_of i c) @ drop (start_at (length content) (lm_pos c fd)) content)
      \<and> lm_pos c' fd = int (length content)
      \<and> pending_text (pending_of i c')
        = pending_text (left_over (pending_text (pending_of i c) @ drop (start_at (length content) (lm_pos c fd)) content)))"
proof (induction fuel arbitrary: c)
  case (Suc fuel)
  let ?s = "start_at (length content) (lm_pos c fd)" and ?t = "pending_text (pending_of i c)"
  let ?d = "drop ?s content"
  let ?b = "take bufsiz ?d"
  define c0 where "c0 = check_truncated os fd c"
  have c0: "lm_pos c0 fd = int ?s" "monitored_files c0 = monitored_files c" "seen i c0 = seen i c"
    using Suc.prems(3) unfolding c0_def check_truncated_steady [OF steady]
    by (auto simp: start_at_def lseek_set_def lm_tick_def seen_def)
  have s: "?s \<le> length content" by (auto simp: start_at_def)
  define c1 where "c1 = (lm_tick c0)\<lparr>lm_pos := (lm_pos c0)(fd := int ?s + int (length ?b))\<rparr>"
  have t: "tail_read os fd bufsiz c0 = (Some ?b, c1)"
    using tail_read_steady [OF steady, of c0 bufsiz] c0(1) by (simp add: c1_def Let_def)
  have c1: "lm_pos c1 fd = int ?s + int (length ?b)" "monitored_files c1 = monitored_files c" "seen i c1 = seen i c"
    using c0 by (simp_all add: c1_def lm_tick_def seen_def)
  have p1: "pending_of i c1 = pending_of i c" using c1(2) by (simp add: pending_of_def)
  show ?case
  proof (cases "?d = []")
    case True
    have lo: "pending_text (left_over ?t) = ?t" "complete_lines ?t = []" using Suc.prems(4) by (simp_all add: pending_text_def)
    have "(r, c') = (Ok (), c1)" using Suc.prems(1) t True by (simp add: c0_def [symmetric])
    with True c1 s p1 lo show ?thesis by simp
  next
    case False
    with buf have b: "?b \<noteq> []" by simp
    obtain q c2 where h: "handle_read os i ?b c1 = (q, c2)" by fastforce
    have f: "fits (pending_of i c1) [?b]"
      unfolding p1 by (rule short_fits [OF Suc.prems(4,5)]) simp
    have i1: "i < length (monitored_files c1)" using Suc.prems(2) c1(2) by simp
    note e = handle_read_effect [OF mem i1 f h, unfolded p1 c1(3)]
    have run: "(r, c') = bind_st (q, c2) (\<lambda>_. read_to_end os bufsiz fuel i fd)"
      using Suc.prems(1) t b h nul by (simp add: c0_def [symmetric] cstr_take)
    show ?thesis
    proof (cases q)
      case (Ok x)
      have pos2: "lm_pos c2 fd = int (?s + length ?b)" using e c1(1) by simp
      have s2: "start_at (length content) (lm_pos c2 fd) = ?s + length ?b"
        unfolding pos2 using s by (intro start_at_in) simp
      have d2: "drop (?s + length ?b) content = drop (length ?b) ?d" by (simp add: add.commute)
      have split: "?t @ ?d = (?t @ ?b) @ drop (length ?b) ?d"
        by (metis append.assoc append_take_drop_id length_take min.cobounded1 min_def take_all drop_all append_Nil2 linear)
      have p2: "pending_of i c2 = left_over (?t @ ?b)" and seen2: "seen i c2 = seen i c @ complete_lines (?t @ ?b)"
        using e Ok by simp_all
      have short: "short_lines bufsiz (pending_text (pending_of i c2) @ drop (start_at (length content) (lm_pos c2 fd)) content)"
        using Suc.prems(5) fields_left_over [of "?t @ ?b" "drop (length ?b) ?d"] unfolding s2 d2 p2 short_lines_def split by blast
      have "length (drop (start_at (length content) (lm_pos c2 fd)) content) < fuel"
      proof -
        have "0 < length ?b" "length ?b \<le> length ?d" using b by simp_all
        then show ?thesis using Suc.prems(6) unfolding s2 d2 length_drop [of "length ?b" ?d] by linarith
      qed
      from Suc.IH [OF _ _ _ _ short this, of] run Ok e i1 pos2 p2 left_over_no_LF [of "?t @ ?b"]
      have ih: "r \<noteq> Halt NoFuel \<and> (r = Ok () \<longrightarrow>
          seen i c' = seen i c2 @ complete_lines (pending_text (left_over (?t @ ?b)) @ drop (length ?b) ?d)
          \<and> lm_pos c' fd = int (length content)
          \<and> pending_text (pending_of i c') = pending_text (left_over (pending_text (left_over (?t @ ?b)) @ drop (length ?b) ?d)))"
        unfolding s2 d2 p2 by simp
      have "pending_text (left_over (pending_text (left_over (?t @ ?b)) @ drop (length ?b) ?d)) = pending_text (left_over (?t @ ?d))"
      proof (cases "drop (length ?b) ?d = []")
        case True
        have "left_over (pending_text (left_over (?t @ ?b))) = Some (pending_text (left_over (?t @ ?b)))"
          using left_over_no_LF by simp
        with True show ?thesis using split by (simp add: pending_text_def)
      next
        case False
        then show ?thesis using left_over_append [of "drop (length ?b) ?d" "?t @ ?b"] split by simp
      qed
      then show ?thesis
        using ih seen2 complete_lines_append [of "?t @ ?b" "drop (length ?b) ?d"] split by simp
    qed (use run e in auto)
  qed
qed simp

text \<open>A file with three lines, the last without an end; two bytes of it have been read and \<open>a\<close> is pending.\<close>

definition steady_text :: string where "steady_text = ''xabc'' @ [CR, LF, LF] @ ''de'' @ [LF] @ ''f''"

definition steady_os :: lm_os where
  "steady_os = idle_os\<lparr>lo_fstat := (\<lambda>t fd. Some \<lparr>st_size = int (length steady_text), st_mtime = 0, st_dev = 0, st_ino = 0\<rparr>),
     lo_read := (\<lambda>t fd off. plain_reads (drop (nat off) steady_text))\<rparr>"

definition half_read :: lm where "half_read = idle_start\<lparr>lm_pos := (\<lambda>_. 2)\<rparr>"

text \<open>
  The text without a line feed that is pending survives the next read of a status file, which starts at the beginning:
  after two reads of the content \<open>ok\<close> (with a newer modification time) the pending text is \<open>okok\<close>, and no line was handled.
\<close>

definition status_os :: lm_os where
  "status_os = idle_os\<lparr>lo_stat := (\<lambda>t p. Some \<lparr>st_size = 2, st_mtime = int t, st_dev = 0, st_ino = 0\<rparr>),
     lo_fstat := (\<lambda>t fd. Some \<lparr>st_size = 2, st_mtime = int t, st_dev = 0, st_ino = 0\<rparr>),
     lo_read := (\<lambda>t fd off. plain_reads (drop (nat off) ''ok''))\<rparr>"

definition status_start :: lm where
  "status_start = set_pending 0 None (upd_file 0 (\<lambda>f. f\<lparr>is_status := True\<rparr>) idle_start)"

definition read_twice :: lm where
  "read_twice = snd (tail_file status_os 8 3 0 (snd (tail_file status_os 8 3 0 status_start)))"

lemma status_text_glued: "pending_of 0 read_twice = Some ''okok'' \<and> seen 0 read_twice = []"
  by code_simp

section \<open>Properties\<close>

text \<open>
  C10. A file that is read to its end: when its content stays during the read, is free of NUL, and has no line that is too
  long, the lines that are handled are exactly the complete and non-empty ones of the text that was pending and the text
  between the position and the end (the whole file, when it has become shorter than the position), in their order and
  without a carriage return at their end; the rest is pending and the position is the end. The loop ends.
\<close>

theorem appended_text_is_handled:
  assumes "steady os fd content" and "\<And>t. lo_malloc os t" and "0 < bufsiz" and "NUL \<notin> set content"
    and "read_to_end os bufsiz fuel i fd c = (r, c')" and "i < length (monitored_files c)" and "0 \<le> lm_pos c fd"
    and "LF \<notin> set (pending_text (pending_of i c))"
    and "short_lines bufsiz (pending_text (pending_of i c) @ drop (start_at (length content) (lm_pos c fd)) content)"
    and "length (drop (start_at (length content) (lm_pos c fd)) content) < fuel"
  shows "r \<noteq> Halt NoFuel \<and> (r = Ok () \<longrightarrow>
      seen i c' = seen i c @ complete_lines (pending_text (pending_of i c) @ drop (start_at (length content) (lm_pos c fd)) content)
      \<and> lm_pos c' fd = int (length content)
      \<and> pending_text (pending_of i c')
        = pending_text (left_over (pending_text (pending_of i c) @ drop (start_at (length content) (lm_pos c fd)) content)))"
  by (rule read_to_end_steady [OF assms])

theorem appended_text_is_handled_witness:
  "seen 0 (snd (read_to_end steady_os 4 12 0 3 half_read)) = [''abc'', ''de'']
   \<and> pending_text (pending_of 0 (snd (read_to_end steady_os 4 12 0 3 half_read))) = ''f''"
proof -
  let ?r = "read_to_end steady_os 4 12 0 3 half_read"
  have s: "steady steady_os 3 steady_text"
    by (auto simp: steady_def steady_os_def plain_reads_def)
  have m: "\<And>t. lo_malloc steady_os t" by (simp add: steady_os_def idle_os_def)
  have n: "NUL \<notin> set steady_text" by code_simp
  have e: "?r = (fst ?r, snd ?r)" by simp
  have i: "0 < length (monitored_files half_read)" "0 \<le> lm_pos half_read 3" "LF \<notin> set (pending_text (pending_of 0 half_read))" by code_simp+
  have l: "short_lines 4 (pending_text (pending_of 0 half_read) @ drop (start_at (length steady_text) (lm_pos half_read 3)) steady_text)"
    by code_simp
  have "length (drop (start_at (length steady_text) (lm_pos half_read 3)) steady_text) < 12" by code_simp
  note a = appended_text_is_handled [OF s m _ n e i l this]
  have "fst ?r = Ok ()" by code_simp
  moreover have "seen 0 half_read @ complete_lines (pending_text (pending_of 0 half_read)
        @ drop (start_at (length steady_text) (lm_pos half_read 3)) steady_text) = [''abc'', ''de'']"
    "pending_text (left_over (pending_text (pending_of 0 half_read)
        @ drop (start_at (length steady_text) (lm_pos half_read 3)) steady_text)) = ''f''" by code_simp+
  ultimately show ?thesis using a by simp
qed

end
