(* ===== verification/LogDescriptors.thy ===== *)
theory LogDescriptors
  imports LogRuns
begin

text \<open>
  The descriptors of the log monitor: those that were opened are the ones that were closed and those the monitored files
  hold, at every point of the run. So no descriptor leaks and none is closed twice, however often a file disappears, is
  replaced and comes back.
\<close>

section \<open>The balance\<close>

fun opened_fd :: "lm_action \<Rightarrow> int option" where
  "opened_fd (OpenedFile path fd) = Some fd"
| "opened_fd _ = None"

fun closed_fd :: "lm_action \<Rightarrow> int option" where
  "closed_fd (ClosedFile fd) = Some fd"
| "closed_fd _ = None"

definition opened :: "lm \<Rightarrow> int multiset" where
  "opened c = mset (List.map_filter opened_fd (lm_actions c))"

definition closed :: "lm \<Rightarrow> int multiset" where
  "closed c = mset (List.map_filter closed_fd (lm_actions c))"

text \<open>A file that could not be opened has a negative descriptor.\<close>

definition held_fds :: "int list \<Rightarrow> int multiset" where
  "held_fds fds = mset (filter (\<lambda>fd. 0 \<le> fd) fds)"

definition held :: "lm \<Rightarrow> int multiset" where
  "held c = held_fds (map mf_fd (monitored_files c))"

definition balanced :: "lm \<Rightarrow> bool" where
  "balanced c \<longleftrightarrow> opened c = closed c + held c"

lemma held_fds_update:
  "i < length fds \<Longrightarrow> held_fds (fds[i := fd]) + held_fds [fds ! i] = held_fds fds + held_fds [fd]"
proof (induction fds arbitrary: i)
  case (Cons x fds)
  then show ?case by (cases i) (auto simp: held_fds_def)
qed simp

section \<open>What leaves the descriptors alone\<close>

definition same_fds :: "lm \<Rightarrow> lm \<Rightarrow> bool" where
  "same_fds c c' \<longleftrightarrow> map mf_fd (monitored_files c') = map mf_fd (monitored_files c)
     \<and> opened c' = opened c \<and> closed c' = closed c"

lemma same_fds_refl [simp]: "same_fds c c"
  by (simp add: same_fds_def)

lemma same_fds_trans: "same_fds a b \<Longrightarrow> same_fds b c \<Longrightarrow> same_fds a c"
  by (simp add: same_fds_def)

definition steady_fds :: "lm \<Rightarrow> 'a res \<times> lm \<Rightarrow> bool" where
  "steady_fds c p \<longleftrightarrow> same_fds c (snd p)"

named_theorems fd_rules

lemma steady_return [simp]: "steady_fds c (r, c') \<longleftrightarrow> same_fds c c'"
  by (simp add: steady_fds_def)

lemma steady_bind: "steady_fds c p \<Longrightarrow> (\<And>x c1. p = (Ok x, c1) \<Longrightarrow> steady_fds c1 (f x c1)) \<Longrightarrow> steady_fds c (bind_st p f)"
  by (cases p; cases "fst p") (auto simp: steady_fds_def intro: same_fds_trans)

lemma steady_after: "same_fds c c1 \<Longrightarrow> steady_fds c1 p \<Longrightarrow> steady_fds c p"
  by (auto simp: steady_fds_def intro: same_fds_trans)

lemma fds_put: "opened_fd a = None \<Longrightarrow> closed_fd a = None \<Longrightarrow> same_fds c d \<Longrightarrow> same_fds c (put a d)"
  by (simp add: same_fds_def put_def opened_def closed_def List.map_filter_def)

lemma fds_actions: "lm_actions c' = lm_actions c \<Longrightarrow> opened c' = opened c \<and> closed c' = closed c"
  by (simp add: opened_def closed_def)

lemma fds_say [fd_rules]: "same_fds c d \<Longrightarrow> same_fds c (ERROR m d)" "same_fds c d \<Longrightarrow> same_fds c (INFO m d)"
  "same_fds c d \<Longrightarrow> same_fds c (DEBUG m d)"
  by (simp_all add: ERROR_def INFO_def DEBUG_def fds_put)

lemma fds_quiet_state [fd_rules]: "same_fds c d \<Longrightarrow> same_fds c (lm_tick d)" "same_fds c d \<Longrightarrow> same_fds c (lseek_set fd d)"
  "same_fds c d \<Longrightarrow> same_fds c (d\<lparr>lm_pos := g\<rparr>)"
  by (simp_all add: same_fds_def lm_tick_def lseek_set_def opened_def closed_def)

lemma fds_upd_file [fd_rules]: "(\<And>f. mf_fd (g f) = mf_fd f) \<Longrightarrow> same_fds c d \<Longrightarrow> same_fds c (upd_file i g d)"
proof -
  assume "\<And>f. mf_fd (g f) = mf_fd f" and d: "same_fds c d"
  then have "map mf_fd (monitored_files (upd_file i g d)) = map mf_fd (monitored_files d)"
    by (simp add: upd_file_def map_update_same)
  then show ?thesis using d by (simp add: same_fds_def opened_def closed_def upd_file_def)
qed

lemma fds_set_pending [fd_rules]: "same_fds c d \<Longrightarrow> same_fds c (set_pending i p d)"
  using fds_upd_file [of "\<lambda>f. f\<lparr>pending_buf := p\<rparr>" c d i] by (simp add: set_pending_def upd_file_def)

lemma no_file_action: "\<not> is_file_action a \<Longrightarrow> opened_fd a = None \<and> closed_fd a = None"
  by (cases a) auto

lemma no_file_actions: "\<forall>a\<in>set as. \<not> is_file_action a \<Longrightarrow> List.map_filter opened_fd as = [] \<and> List.map_filter closed_fd as = []"
  by (induction as) (auto simp: List.map_filter_simps no_file_action)

lemma fds_kept: "files_kept c c' \<Longrightarrow> same_fds c c'"
  using no_file_actions by (auto simp: files_kept_def same_fds_def opened_def closed_def map_filter_append)

lemma fds_handle_line [fd_rules]: "steady_fds c (handle_line os i l c)"
proof -
  have "same_fds c (put (LineSeen i l) c)" by (simp add: fds_put)
  moreover have "same_fds (put (LineSeen i l) c) (snd (handle_line os i l c))"
    using files_handle_line [of i l c os] fds_kept by (simp add: same_files_def)
  ultimately show ?thesis unfolding steady_fds_def by (rule same_fds_trans)
qed

lemma fds_get_time [fd_rules]: "steady_fds c (lm_get_time os c)"
  by (auto simp: lm_get_time_def intro!: fd_rules split: clock_answer.split sum.split)

lemma fds_update_last_read [fd_rules]: "steady_fds c (update_last_read os i c)"
  by (auto simp: update_last_read_def intro!: steady_bind fd_rules)

lemma fds_handle_read [fd_rules]: "steady_fds c (handle_read os i b c)"
  by (rule handle_read_rule, goal_cases)
    (simp_all add: fd_rules steady_bind steady_after [OF fds_set_pending [OF same_fds_refl]])

lemma fds_truncated: "same_fds c d \<Longrightarrow> same_fds c (check_truncated os fd d)"
  by (simp add: check_truncated_def fd_rules split: option.split)

lemma fds_tail_read: "same_fds c (snd (tail_read os fd n c))"
  by (auto simp: tail_read_def intro!: fd_rules split: option.split)

lemma fds_read_to_end [fd_rules]: "steady_fds c (read_to_end os bufsiz fuel i fd c)"
proof (induction fuel arbitrary: c)
  case (Suc fuel)
  obtain r c1 where t: "tail_read os fd bufsiz (check_truncated os fd c) = (r, c1)" by fastforce
  have q: "same_fds c c1"
    using same_fds_trans [OF fds_truncated [OF same_fds_refl] fds_tail_read] t by (metis snd_conv)
  have "steady_fds c1 (bind_st (handle_read os i b c1) (\<lambda>_ c2. read_to_end os bufsiz fuel i fd c2))" for b
    by (rule steady_bind [OF fds_handle_read Suc.IH])
  then show ?case using q by (auto simp: t split: option.split intro: steady_after [OF q])
qed simp

lemma fds_read_file_now [fd_rules]: "steady_fds c (read_file_now os bufsiz fuel i fd c)"
  unfolding read_file_now_def by (intro steady_bind fd_rules)

section \<open>What opens and closes\<close>

definition keeps_balance :: "lm \<Rightarrow> 'a res \<times> lm \<Rightarrow> bool" where
  "keeps_balance c p \<longleftrightarrow> (balanced c \<longrightarrow> balanced (snd p)) \<and> length (monitored_files (snd p)) = length (monitored_files c)"

lemma balance_same: "same_fds c c' \<Longrightarrow> balanced c \<Longrightarrow> balanced c'"
  by (simp add: same_fds_def balanced_def held_def)

lemma same_fds_length: "same_fds c c' \<Longrightarrow> length (monitored_files c') = length (monitored_files c)"
  by (metis same_fds_def length_map)

lemma balance_steady: "steady_fds c p \<Longrightarrow> keeps_balance c p"
  by (simp add: keeps_balance_def steady_fds_def balance_same same_fds_length)

lemma balance_bind:
  "keeps_balance c p \<Longrightarrow> (\<And>x c1. p = (Ok x, c1) \<Longrightarrow> length (monitored_files c1) = length (monitored_files c) \<Longrightarrow> keeps_balance c1 (f x c1))
   \<Longrightarrow> keeps_balance c (bind_st p f)"
  by (cases p; cases "fst p") (auto simp: keeps_balance_def)

lemma balance_after: "keeps_balance c (r, c1) \<Longrightarrow> keeps_balance c1 p \<Longrightarrow> keeps_balance c p"
  by (auto simp: keeps_balance_def)

text \<open>A descriptor that was opened or not, and was stored in the place of the one that was closed or not.\<close>

lemma held_set_fd:
  assumes "i < length (monitored_files d)"
  shows "held (upd_file i (\<lambda>f. f\<lparr>mf_fd := fd\<rparr>) d) + held_fds [mf_fd (monitored_files d ! i)] = held d + held_fds [fd]"
  using held_fds_update [of i "map mf_fd (monitored_files d)" fd] assms by (simp add: held_def upd_file_def map_update)

lemma upd_file_opened [simp]: "opened (upd_file i g d) = opened d" "closed (upd_file i g d) = closed d"
  by (simp_all add: opened_def closed_def upd_file_def)

lemma put_opened [simp]: "opened (put a d) = (case opened_fd a of None \<Rightarrow> opened d | Some fd \<Rightarrow> add_mset fd (opened d))"
  "closed (put a d) = (case closed_fd a of None \<Rightarrow> closed d | Some fd \<Rightarrow> add_mset fd (closed d))"
  "monitored_files (put a d) = monitored_files d"
  by (simp_all add: opened_def closed_def put_def List.map_filter_def split: option.split)

lemma open_file_fds:
  "open_file os path d = (fd, d') \<Longrightarrow> opened d' = opened d + held_fds [fd] \<and> closed d' = closed d \<and> monitored_files d' = monitored_files d"
  by (auto simp: open_file_def Let_def held_fds_def lseek_set_def lm_tick_def opened_def closed_def put_def List.map_filter_def split: if_splits)

lemma set_fd_balance:
  assumes "i < length (monitored_files d)" and "mf_fd (monitored_files d ! i) = fd"
    and "opened d + held_fds [fd] = closed d + held d + held_fds [fd']"
  shows "balanced (upd_file i (\<lambda>f. f\<lparr>mf_fd := fd'\<rparr>) d)"
proof -
  let ?d = "upd_file i (\<lambda>f. f\<lparr>mf_fd := fd'\<rparr>) d"
  have "opened ?d + held_fds [fd] = closed d + (held d + held_fds [fd'])" using assms(3) by (simp add: ac_simps)
  also have "\<dots> = closed ?d + held ?d + held_fds [fd]"
    using held_set_fd [OF assms(1), of fd'] assms(2) by (simp add: ac_simps)
  finally show ?thesis by (simp add: balanced_def)
qed

lemma open_again_balance:
  assumes "i < length (monitored_files d)" and "mf_fd (monitored_files d ! i) = fd" and "balanced d"
  shows "balanced (open_again os i path fd d)"
proof -
  define d2 where "d2 = (if fd \<ge> 0 then put (ClosedFile fd) d else d)"
  obtain n d3 where o: "open_file os path d2 = (n, d3)" by fastforce
  have d2: "opened d2 = opened d" "closed d2 = closed d + held_fds [fd]" "monitored_files d2 = monitored_files d"
    by (simp_all add: d2_def held_fds_def)
  define d4 where "d4 = (if n \<ge> 0 then DEBUG (path @ '' has '' @ (if fd < 0 then ''appeared'' else ''been replaced'') @ ''; following end of new file.'') d3
      else if fd \<ge> 0 then DEBUG (path @ '' has become inaccessible.'') d3 else d3)"
  have "same_fds d3 d4" by (simp add: d4_def fd_rules)
  then have d4: "opened d4 = opened d + held_fds [n]" "closed d4 = closed d + held_fds [fd]"
      "map mf_fd (monitored_files d4) = map mf_fd (monitored_files d)"
    using open_file_fds [OF o] d2 by (simp_all add: same_fds_def)
  have i: "i < length (monitored_files d4)" "mf_fd (monitored_files d4 ! i) = fd"
    using assms(1,2) d4(3) by (metis length_map, metis length_map nth_map)
  have "held d4 = held d" using d4(3) by (simp add: held_def)
  then have "opened d4 + held_fds [fd] = closed d4 + held d4 + held_fds [n]"
    using assms(3) d4 by (simp add: balanced_def ac_simps)
  from set_fd_balance [OF i this] show ?thesis
    by (simp add: open_again_def Let_def o [unfolded d2_def] d4_def)
qed

lemma quiet_length: "quiet c c' \<Longrightarrow> length (monitored_files c') = length (monitored_files c)"
  by (metis quiet_def length_map)

lemma reopen_balance:
  assumes "i < length (monitored_files c)"
  shows "keeps_balance c (r, reopen os i st c)"
proof -
  have "balanced c \<Longrightarrow> balanced (reopen os i st c)"
    using assms open_again_balance [of i c] open_again_balance [of i "lm_tick c"] balance_same [OF fds_quiet_state(1) [OF same_fds_refl]]
    by (simp add: reopen_def Let_def lm_tick_def)
  then show ?thesis
    using quiet_length [OF quiet_reopen [OF quiet_refl, of c os i st]] by (simp add: keeps_balance_def)
qed

lemma tail_file_balance:
  assumes "i < length (monitored_files c)"
  shows "keeps_balance c (tail_file os bufsiz fuel i c)"
proof -
  have t: "same_fds c (lm_tick c)" by (simp add: fd_rules)
  have q: "keeps_balance c (Ok (), reopen os i st (lm_tick c))" for st
    using balance_after [OF balance_steady [of c "(Ok (), lm_tick c)"] reopen_balance [of i "lm_tick c"]] t assms same_fds_length [OF t]
    by simp
  have "keeps_balance d (read_file_now os bufsiz fuel i fd (lseek_set fd (upd_file i (\<lambda>f. f\<lparr>last_stat := st\<rparr>) d)))" for d fd st
    by (rule balance_steady, rule steady_after [OF _ fds_read_file_now]) (simp add: fd_rules)
  moreover have "keeps_balance d (read_file_now os bufsiz fuel i fd (lseek_set fd d))" for d fd
    by (rule balance_steady, rule steady_after [OF _ fds_read_file_now]) (simp add: fd_rules)
  moreover have "keeps_balance d (read_file_now os bufsiz fuel i fd d)" "keeps_balance d (update_last_read os i d)"
    "keeps_balance d (Ok (), d)" for d fd
    by (simp_all add: balance_steady fd_rules)
  ultimately show ?thesis
    unfolding tail_file_def Let_def
    by (intro balance_after [OF q [of "lo_stat os (lm_ticks c) (mf_path (monitored_files c ! i))"]]) (simp split: option.split)
qed

lemma poll_file_balance: "i < length (monitored_files c) \<Longrightarrow> keeps_balance c (poll_file os bufsiz fuel i c)"
  unfolding poll_file_def
  by (simp add: tail_file_balance, intro impI balance_bind [OF balance_steady [OF fds_get_time]])
    (simp add: tail_file_balance balance_steady)

lemma poll_files_balance: "\<forall>i\<in>set is. i < length (monitored_files c) \<Longrightarrow> keeps_balance c (poll_files os bufsiz fuel is c)"
  by (induction "is" arbitrary: c) (auto intro!: balance_bind poll_file_balance simp: balance_steady)

lemma lm_round_balance: "keeps_balance c (lm_round os bufsiz fuel c)"
  unfolding lm_round_def
  by (rule balance_bind [OF poll_files_balance])
    (simp_all add: balance_steady reap_children_def fds_put fd_rules)

lemma tail_files_balance: "keeps_balance c (tail_files os bufsiz fuel rounds c)"
  by (induction rounds arbitrary: c) (auto intro!: balance_bind lm_round_balance simp: balance_steady)

text \<open>At the start every file is opened once.\<close>

lemma open_monitored_balance:
  assumes "i < length (monitored_files c)" and "mf_fd (monitored_files c ! i) < 0" and "balanced c"
  shows "balanced (open_monitored os i c)
    \<and> map mf_fd (monitored_files (open_monitored os i c)) = (map mf_fd (monitored_files c))[i := fst (open_file os (mf_path (monitored_files c ! i)) c)]"
proof -
  obtain fd c1 where o: "open_file os (mf_path (monitored_files c ! i)) c = (fd, c1)" by fastforce
  define c2 where "c2 = (if fd \<ge> 0 \<and> \<not> is_status (monitored_files c ! i) then lseek_end os fd c1 else c1)"
  have "same_fds c1 c2" by (simp add: c2_def lseek_end_def fd_rules split: option.split)
  then have c2: "opened c2 = opened c + held_fds [fd]" "closed c2 = closed c"
      "map mf_fd (monitored_files c2) = map mf_fd (monitored_files c)"
    using open_file_fds [OF o] by (simp_all add: same_fds_def)
  have i: "i < length (monitored_files c2)" using assms(1) c2(3) by (metis length_map)
  have n: "mf_fd (monitored_files c2 ! i) < 0" using assms(1,2) c2(3) i by (metis nth_map)
  have "held c2 = held c" "held_fds [mf_fd (monitored_files c2 ! i)] = {#}" using c2(3) n by (simp_all add: held_def held_fds_def)
  then have "opened c2 + held_fds [mf_fd (monitored_files c2 ! i)] = closed c2 + held c2 + held_fds [fd]"
    using assms(3) c2 by (simp add: balanced_def)
  from set_fd_balance [OF i refl this] have "balanced (open_monitored os i c)"
    by (simp add: open_monitored_def Let_def o c2_def)
  moreover have "open_monitored os i c = upd_file i (\<lambda>f. f\<lparr>mf_fd := fd\<rparr>) c2" by (simp add: open_monitored_def Let_def o c2_def)
  ultimately show ?thesis using c2(3) by (simp add: o upd_file_def map_update)
qed

lemma open_all_balance:
  "distinct is \<Longrightarrow> \<forall>i\<in>set is. i < length (monitored_files c) \<and> map mf_fd (monitored_files c) ! i < 0 \<Longrightarrow> balanced c
    \<Longrightarrow> balanced (fold (open_monitored os) is c)"
proof (induction "is" arbitrary: c)
  case (Cons i "is")
  have i: "i < length (monitored_files c)" "mf_fd (monitored_files c ! i) < 0" using Cons.prems(2) by auto
  note o = open_monitored_balance [OF i Cons.prems(3), of os]
  then have l: "length (monitored_files (open_monitored os i c)) = length (monitored_files c)" by (metis length_map length_list_update)
  have "\<forall>k\<in>set is. k < length (monitored_files (open_monitored os i c)) \<and> map mf_fd (monitored_files (open_monitored os i c)) ! k < 0"
    using Cons.prems(1,2) o l by (auto simp: nth_list_update)
  then show ?case using Cons.IH Cons.prems(1) o by simp
qed simp

lemma monitor_balance:
  assumes "unopened c" and "balanced c"
  shows "balanced (snd (monitor os bufsiz fuel rounds c))"
proof (cases "validate_config c")
  case (Pair r c1)
  then have c1: "same_fds c c1" "r = Ok () \<Longrightarrow> c1 = c"
    by (auto simp: validate_config_def SET_ERROR_def fd_rules split: if_splits)
  define c2 where "c2 = fold (open_monitored os) [0..<length (monitored_files c)] c"
  have c2: "balanced c2" unfolding c2_def by (rule open_all_balance) (use assms in auto)
  have s: "same_fds d (fold show_monitored xs d)" for xs d
    by (induction xs arbitrary: d) (simp_all add: show_monitored_def, blast intro: same_fds_trans [OF fds_say(2) [OF same_fds_refl]])
  have "keeps_balance c2 (bind_st (alloc_or os () ''Buffer memory allocation failed.'' c2) (\<lambda>_ c3.
       tail_files os bufsiz fuel rounds (fold show_monitored [0..<length (monitored_files c3)] c3)))"
    by (rule balance_bind, simp add: alloc_or_def SET_ERROR_def balance_steady fd_rules,
        rule balance_after [OF balance_steady tail_files_balance], simp add: s)
  then show ?thesis
    using Pair c1 c2 balance_same [OF c1(1) assms(2)]
    by (cases r) (simp_all add: monitor_def Let_def c2_def keeps_balance_def)
qed

lemma held_size: "size (held c) \<le> length (monitored_files c)"
  using length_filter_le [of "\<lambda>fd. 0 \<le> fd" "map mf_fd (monitored_files c)"]
  unfolding held_def held_fds_def size_mset length_map .

text \<open>The set of monitored files never changes.\<close>

interpretation followed: kept os "\<lambda>c. links_ok c \<and> map file_key (monitored_files c) = K" for os K
  by unfold_locales (auto simp: quiet_def links_ok_def links_stamp [unfolded links_ok_def])

lemma monitor_files_length: "config_ok c \<Longrightarrow> length (monitored_files (snd (monitor os bufsiz fuel rounds c))) = length (monitored_files c)"
proof -
  assume "config_ok c"
  then have "map file_key (monitored_files (snd (monitor os bufsiz fuel rounds c))) = map file_key (monitored_files c)"
    using followed.monitor_keeps [of "map file_key (monitored_files c)" c os bufsiz fuel rounds] config_ok_links
    by (simp add: followed.keeps_def)
  then show ?thesis by (rule map_eq_imp_length_eq)
qed

section \<open>A run in which the file is replaced\<close>

definition moving_os :: lm_os where
  "moving_os = small_os\<lparr>lo_stat := (\<lambda>t p. Some ((small_stat t)\<lparr>st_ino := 5 + int t\<rparr>)), lo_open := (\<lambda>t p. 3 + int t)\<rparr>"

definition moving_context :: lm where
  "moving_context = snd (create_context moving_os small_disk ''/c'' small_start)"

definition moving_run :: lm where
  "moving_run = snd (monitor moving_os 4 6 2 moving_context)"

lemma moving_created: "create_context moving_os small_disk ''/c'' small_start = (Ok (), moving_context)"
  unfolding moving_context_def by (rule prod_eqI) (simp_all, code_simp)

section \<open>Properties\<close>

text \<open>
  C15. The descriptors balance at every point of the run, whatever \<open>stat\<close>, \<open>fstat\<close> and \<open>open\<close> answer: those that were
  opened are those that were closed and those the monitored files hold, at most one for each file. So no descriptor
  leaks, and none is closed that is not open.
\<close>

theorem descriptors_balanced:
  assumes "create_context os dk cfgdir c0 = (Ok (), c)" and "opened c = {#}" and "closed c = {#}"
    and "monitor os bufsiz fuel rounds c = (r, c')"
  shows "opened c' = closed c' + held c' \<and> size (held c') \<le> length (monitored_files c)"
proof -
  have u: "unopened c" using create_context_ok [OF assms(1)] by simp
  then have "held c = {#}" by (simp add: held_def held_fds_def)
  then have b: "balanced c" using assms(2,3) by (simp add: balanced_def)
  then have "balanced c'" using monitor_balance [OF u b, of os bufsiz fuel rounds] assms(4) by simp
  moreover have "length (monitored_files c') = length (monitored_files c)"
    using monitor_files_length [of c os bufsiz fuel rounds] create_context_ok [OF assms(1)] assms(4) by simp
  then have "size (held c') \<le> length (monitored_files c)"
    by (metis held_size)
  ultimately show ?thesis by (simp add: balanced_def)
qed

theorem descriptors_balanced_witness:
  "opened moving_run = closed moving_run + held moving_run
    \<and> List.map_filter closed_fd (lm_actions moving_run) \<noteq> []"
proof -
  have "monitor moving_os 4 6 2 moving_context = (fst (monitor moving_os 4 6 2 moving_context), moving_run)"
    by (simp add: moving_run_def)
  moreover have "opened moving_context = {#}" "closed moving_context = {#}" by code_simp+
  ultimately have "opened moving_run = closed moving_run + held moving_run"
    using descriptors_balanced [OF moving_created] by blast
  moreover have "List.map_filter closed_fd (lm_actions moving_run) \<noteq> []" by code_simp
  ultimately show ?thesis by simp
qed

end
