(* ===== verification/Spec2Isabelle.thy ===== *)
theory Spec2Isabelle
  imports ExitStatus Options LogForever LogReads LogDescriptors
begin

text \<open>
  A model of the two C programs of this repository: \<open>cinit\<close>, the first process of a container, which loads, starts,
  supervises and stops the services (\<open>src/src/cinit/\<close>), and \<open>logmonitor\<close>, which follows log and status files and sends
  notifications (\<open>src/src/logmonitor/logmonitor.c\<close>).

  \<^bold>\<open>How the code is represented.\<close>
  Structs are records, with the names of the source where they are free; enumerations and answers of system calls are
  datatypes; \<open>unsigned int\<close> and \<open>unsigned long\<close> are words of 32 and 64 bits, where the wrap-around matters, and other
  integers are \<open>int\<close> with the checks of the source. A function that can raise an exception, fail an assertion, abort, or
  reach a step that C leaves undefined has the result type \<open>res\<close> (\<open>Ok\<close>, \<open>Exn\<close>, \<open>Halt\<close>); the state is passed on and
  survives an exception (\<open>bind_st\<close>, \<open>try_catch\<close>). The system is a parameter: a record of functions from the number of
  calls made so far (\<open>ticks\<close>, \<open>lm_ticks\<close>) to the answer of the next call (\<open>os\<close>, \<open>lm_os\<close>), and records for the files
  (\<open>disk\<close>, \<open>load_env\<close>, \<open>lm_disk\<close>). What a program does to the outside is a trace of actions in its state. Signal
  handlers run at the calls of the model. \<open>getopt_long\<close> is represented by the options it hands out.

  \<^bold>\<open>Theories of cinit and the code they model.\<close>
  \<^item> \<open>Prelude\<close>: characters, C strings in memory blocks, outcomes. \<open>CException\<close>: \<open>CException.c\<close>, \<open>CException.h\<close>,
    \<open>CExceptionConfig.h\<close>; the macros over \<open>setjmp\<close> and \<open>longjmp\<close> implement structured exceptions.
  \<^item> \<open>CStrings\<close>, \<open>Tokens\<close>, \<open>Numbers\<close>: the in-place string functions and the conversions of \<open>utils.c\<close>, on memory
    blocks with checked accesses, refined by functions on strings; round trips and ranges of the conversions.
  \<^item> \<open>LineReader\<close>: \<open>read_lines\<close> of \<open>utils.c\<close> and \<open>log_prefixer\<close> of \<open>log.c\<close>; no byte is lost, and the lines do not
    depend on the pieces. \<open>Exec\<close>: \<open>exec_cmd\<close> and \<open>exec_cmd_with_line_callback\<close> of \<open>exec.c\<close> and the collector of
    \<open>utils.c\<close>; descriptors are closed once. \<open>ConfigValues\<close>: \<open>read_file\<close> and \<open>load_value_as_*\<close>.
  \<^item> \<open>Services\<close>: \<open>service_t\<close>, \<open>context_t\<close>, the table and the start order of \<open>cinit.c\<close>. \<open>LoadService\<close>:
    \<open>load_service\<close>. \<open>LoadDeps\<close>: \<open>load_service_with_deps\<close>; dependencies come first, cycles end.
  \<^item> \<open>Runtime\<close>: time, signals, \<open>exec_service_cmd\<close>, and the interface \<open>same_core\<close> of what such calls leave alone.
    \<open>Child\<close>: both sides of \<open>fork_and_exec\<close>. \<open>Supervisor\<close>: \<open>start_service\<close>, \<open>stop_service\<close>, \<open>handle_killed\<close>,
    \<open>child_handler\<close>; its locales state what an invariant of the table needs (\<open>reaping\<close>, \<open>stopping\<close>, \<open>service_life\<close>) and are
    interpreted for liveness of the entries, for their configuration, and for shutdowns.
  \<^item> \<open>Startup\<close>: \<open>start_services\<close>; \<open>started\<close> says which part of the start order has been started, also when it is left
    early. \<open>Shutdown\<close>: \<open>cinit_shutdown\<close>, \<open>cinit_exit\<close>. \<open>MainLoop\<close>: the loop of \<open>main\<close> and
    the commands of the named pipe. \<open>Fuel\<close> and \<open>Steps\<close>: when the loops end, and the step relation \<open>sys_step\<close> that all
    operations follow, with the exit code written once. \<open>Boot\<close>: the processes of a whole run; dependencies are started first.
    \<open>ExitStatus\<close>: where the status of a whole run comes from. \<open>Options\<close>: \<open>parse_args\<close>, the usage, and \<open>cinit_main\<close>, the whole program.

  \<^bold>\<open>Theories of logmonitor.\<close>
  \<^item> \<open>LogSystem\<close>: the structs, the calls, the reads (\<open>safe_read\<close>, \<open>full_read\<close>) and programs (\<open>invoke_exec\<close>).
  \<^item> \<open>LogConfig\<close>: \<open>file2str\<close>, \<open>alloc_target\<close>, \<open>alloc_notification\<close>, \<open>create_context\<close>.
  \<^item> \<open>LogLines\<close>: \<open>handle_line\<close> with filters, texts, debouncing; \<open>handle_read\<close>, which cuts the text into lines.
  \<^item> \<open>LogMain\<close>: the files that are opened, re-opened and read to their end, and \<open>main\<close>.
  \<^item> \<open>LogSafety\<close>: the locale \<open>kept\<close>, two laws for an invariant (it survives quiet changes, and the time stamp of a
    notification that was due), under which every operation up to the endless loop keeps the invariant. \<open>LogTypes\<close>: what
    \<open>create_context\<close> establishes. \<open>LogRuns\<close>: the interpretations of \<open>kept\<close> for the well-formed context, for the settings of
    the targets and for the spacing of the notifications. \<open>LogReads\<close>: reading a file to its end. \<open>LogDescriptors\<close>: the
    descriptors that are opened and closed balance, however often a file disappears or is replaced. \<open>LogForever\<close>: which
    system calls logmonitor depends on (\<open>dependable\<close>); with them no failure ends its loop.

  \<^bold>\<open>Interaction.\<close>
  \<open>main\<close> of cinit loads the services (\<open>LoadDeps\<close> over \<open>LoadService\<close> over \<open>ConfigValues\<close>), starts them in the start order
  (\<open>Startup\<close> over \<open>Supervisor\<close> over \<open>Child\<close>), supervises them (\<open>MainLoop\<close>), and winds down (\<open>Shutdown\<close>); all of it shares
  the record \<open>cinit\<close>. \<open>supervise\<close> is that composition, and the properties about a whole run are stated for it. In
  logmonitor, \<open>monitor\<close> is the composition of the passes over the files, and each pass hands text to \<open>handle_read\<close>, lines
  to \<open>handle_line\<close>, and notifications to the targets, which the notifications share.

  \<^bold>\<open>Bounds and fuel.\<close>
  Loops that may run for ever take fuel and end with \<open>Halt NoFuel\<close> without it: waiting for children, the main loop, the
  read of a file to its end, the passes of logmonitor. That enough fuel gives a result is proved for the shutdown (once
  no child is left), for the main loop (after a termination signal) and for reading a file (fuel above the number of
  bytes to read); the properties about runs of logmonitor hold at every point, also where the fuel ends, since its loop has
  no end of its own. All other recursions terminate by their own measure. The sizes of the arrays are those of the source.

  \<^bold>\<open>Ghost actions.\<close> \<open>LoadRequest\<close> in cinit, \<open>LineSeen\<close> and \<open>Stamped\<close> in logmonitor mark points of a run in the
  trace; the code does nothing there that could be seen from outside.

  \<^bold>\<open>Not modelled.\<close>
  \<^item> \<open>exec_cmd_with_output\<close> (\<open>exec.c\<close>), which is compiled out, and \<open>load_services\<close> (\<open>cinit.c\<close>), which is compiled only
    with \<open>LOAD_ALL_DEFINED_SERVICES\<close>.
  \<^item> The interleaving of the logger threads with the main thread: a logger is a function of what it reads.
  \<^item> The release of memory; allocation fails or not as the system says.
  \<^item> The installation of signal handlers, and signals that arrive between two calls (they are delivered at the next call).
  \<^item> The C library and the kernel, apart from what the source relies on; the shell scripts, the Go and Rust helpers, the
    build and the tests of the repository, which are in other languages.
\<close>

end
